(* ===== verification/Prelude.thy ===== *)
theory Prelude
  imports Main
begin

text \<open>
  Shared vocabulary of the development.

  A Rust function that reads or writes process state is a \<open>prog\<close>: a function from a state to an
  outcome and a new state. An outcome is a normal return, a panic (\<open>expect\<close>,
  \<open>unwrap\<close>, \<open>panic!\<close>, \<open>unreachable!\<close>) or a call of
  \<open>process::exit\<close>. A Rust \<open>Result\<close> is a sum, \<open>Inl\<close> the error.
  \<open>bindP\<close> is the semicolon, \<open>tryP\<close> the question mark operator. The rest is a small
  library on lists (\<open>iter().position\<close>, \<open>Vec::remove\<close>).
\<close>

named_theorems prog_simps \<open>rewrite rules of the program combinators\<close>

subsection \<open>Names of the model's basic types\<close>

type_synonym path = string
type_synonym fd = int

text \<open>
  \<open>std::io::Error\<close>: an error number of the operating system, or a kind and a message
  (\<open>io::Error::new\<close>, \<open>io::Error::other\<close>). The kind of an operating system error is a function of
  its number, kept symbolic.
\<close>

datatype io_kind = KindOther | KindOfErrno int

datatype io_error = OsError int | Custom io_kind string

fun io_error_kind :: "io_error \<Rightarrow> io_kind" where
  "io_error_kind (OsError n) = KindOfErrno n"
| "io_error_kind (Custom k m) = k"

definition io_error_other :: "string \<Rightarrow> io_error" where
  "io_error_other m = Custom KindOther m"

subsection \<open>Outcomes and programs\<close>

datatype 'a outcome = Ret 'a | Panic string | Exit int

type_synonym ('s, 'a) prog = "'s \<Rightarrow> 'a outcome \<times> 's"

text \<open>Tests on outcomes, for concrete runs.\<close>

fun is_ok :: "('e + 'a) outcome \<Rightarrow> bool" where
  "is_ok (Ret (Inr a)) = True"
| "is_ok _ = False"

fun is_err :: "('e + 'a) outcome \<Rightarrow> bool" where
  "is_err (Ret (Inl e)) = True"
| "is_err _ = False"

lemma is_okD: "is_ok (fst p) \<Longrightarrow> \<exists>a s. p = (Ret (Inr a), s)"
  by (cases p; cases "fst p" rule: is_ok.cases) auto

lemma is_errD: "is_err (fst p) \<Longrightarrow> \<exists>e s. p = (Ret (Inl e), s)"
  by (cases p; cases "fst p" rule: is_err.cases) auto

lemma fold_max_ge_start: "(a::nat) \<le> fold max xs a"
  by (induction xs arbitrary: a) (auto intro: order_trans [OF max.cobounded2])

lemma fold_max_ge: "x \<in> set xs \<Longrightarrow> (x::nat) \<le> fold max xs a"
  by (induction xs arbitrary: a) (auto intro: order_trans [OF max.cobounded1 fold_max_ge_start])

lemma case_option_FalseD: "(case x of None \<Rightarrow> False | Some y \<Rightarrow> P y) \<Longrightarrow> \<exists>y. x = Some y \<and> P y"
  by (cases x) auto

definition returnP :: "'a \<Rightarrow> ('s, 'a) prog" where
  "returnP a = (\<lambda>s. (Ret a, s))"

definition panicP :: "string \<Rightarrow> ('s, 'a) prog" where
  "panicP m = (\<lambda>s. (Panic m, s))"

definition bindP :: "('s, 'a) prog \<Rightarrow> ('a \<Rightarrow> ('s, 'b) prog) \<Rightarrow> ('s, 'b) prog" where
  "bindP m f = (\<lambda>s. case m s of
      (Ret a, s') \<Rightarrow> f a s'
    | (Panic e, s') \<Rightarrow> (Panic e, s')
    | (Exit n, s') \<Rightarrow> (Exit n, s'))"

definition tryP :: "('s, 'e + 'a) prog \<Rightarrow> ('a \<Rightarrow> ('s, 'e + 'b) prog) \<Rightarrow> ('s, 'e + 'b) prog" where
  "tryP m f = bindP m (\<lambda>r. case r of Inl e \<Rightarrow> returnP (Inl e) | Inr a \<Rightarrow> f a)"

text \<open>\<open>map_err\<close> on the result of a program.\<close>

definition mapErrP :: "('e \<Rightarrow> 'f) \<Rightarrow> ('s, 'e + 'a) prog \<Rightarrow> ('s, 'f + 'a) prog" where
  "mapErrP g m = bindP m (\<lambda>r. returnP (case r of Inl e \<Rightarrow> Inl (g e) | Inr a \<Rightarrow> Inr a))"

text \<open>A program on the second component of a state, the first untouched.\<close>

definition onSnd :: "('w, 'a) prog \<Rightarrow> ('r \<times> 'w, 'a) prog" where
  "onSnd m = (\<lambda>(r, w). case m w of (x, w') \<Rightarrow> (x, (r, w')))"

text \<open>Lifting a state transformer with a result that cannot panic.\<close>

definition liftP :: "('s \<Rightarrow> 'a \<times> 's) \<Rightarrow> ('s, 'a) prog" where
  "liftP g = (\<lambda>s. case g s of (a, s') \<Rightarrow> (Ret a, s'))"

text \<open>A value that lives on the stack while \<open>m\<close> runs and moves into its result: it is dropped
  (\<open>cleanup\<close>) when \<open>m\<close> returns an error or panics, and not when \<open>m\<close> succeeds.\<close>

definition owning :: "('s \<Rightarrow> 's) \<Rightarrow> ('s, 'e + 'a) prog \<Rightarrow> ('s, 'e + 'a) prog" where
  "owning cleanup m = (\<lambda>s. case m s of
      (Ret (Inr a), s') \<Rightarrow> (Ret (Inr a), s')
    | (Ret (Inl e), s') \<Rightarrow> (Ret (Inl e), cleanup s')
    | (Panic e, s') \<Rightarrow> (Panic e, cleanup s')
    | (Exit n, s') \<Rightarrow> (Exit n, s'))"

text \<open>A value dropped at the end of the scope of \<open>m\<close>, whatever \<open>m\<close> returns.\<close>

definition scoped :: "('s \<Rightarrow> 's) \<Rightarrow> ('s, 'a) prog \<Rightarrow> ('s, 'a) prog" where
  "scoped cleanup m = (\<lambda>s. case m s of
      (Ret a, s') \<Rightarrow> (Ret a, cleanup s')
    | (Panic e, s') \<Rightarrow> (Panic e, cleanup s')
    | (Exit n, s') \<Rightarrow> (Exit n, s'))"

text \<open>\<open>Result::inspect_err\<close> with an effect.\<close>

definition inspectErrP :: "('s \<Rightarrow> 's) \<Rightarrow> ('s, 'e + 'a) prog \<Rightarrow> ('s, 'e + 'a) prog" where
  "inspectErrP f m = (\<lambda>s. case m s of
      (Ret (Inl e), s') \<Rightarrow> (Ret (Inl e), f s')
    | (Ret (Inr a), s') \<Rightarrow> (Ret (Inr a), s')
    | (Panic e, s') \<Rightarrow> (Panic e, s')
    | (Exit n, s') \<Rightarrow> (Exit n, s'))"

lemma scoped_Ret [simp, prog_simps]: "m s = (Ret a, s') \<Longrightarrow> scoped c m s = (Ret a, c s')"
  by (simp add: scoped_def)

lemma inspectErrP_Ok [simp, prog_simps]: "m s = (Ret (Inr a), s') \<Longrightarrow> inspectErrP f m s = (Ret (Inr a), s')"
  by (simp add: inspectErrP_def)

lemma inspectErrP_Err [simp, prog_simps]: "m s = (Ret (Inl e), s') \<Longrightarrow> inspectErrP f m s = (Ret (Inl e), f s')"
  by (simp add: inspectErrP_def)

lemma owning_Ok [simp, prog_simps]: "m s = (Ret (Inr a), s') \<Longrightarrow> owning c m s = (Ret (Inr a), s')"
  by (simp add: owning_def)

lemma owning_Err [simp, prog_simps]: "m s = (Ret (Inl e), s') \<Longrightarrow> owning c m s = (Ret (Inl e), c s')"
  by (simp add: owning_def)

lemma owning_Panic [simp, prog_simps]: "m s = (Panic e, s') \<Longrightarrow> owning c m s = (Panic e, c s')"
  by (simp add: owning_def)

lemma returnP_run [simp, prog_simps]: "returnP a s = (Ret a, s)"
  by (simp add: returnP_def)

lemma panicP_run [simp, prog_simps]: "panicP m s = (Panic m, s)"
  by (simp add: panicP_def)

lemma bindP_Ret [simp, prog_simps]: "m s = (Ret a, s') \<Longrightarrow> bindP m f s = f a s'"
  by (simp add: bindP_def)

lemma bindP_Panic [simp, prog_simps]: "m s = (Panic e, s') \<Longrightarrow> bindP m f s = (Panic e, s')"
  by (simp add: bindP_def)

lemma bindP_Exit [simp, prog_simps]: "m s = (Exit n, s') \<Longrightarrow> bindP m f s = (Exit n, s')"
  by (simp add: bindP_def)

lemma tryP_Ok [simp, prog_simps]: "m s = (Ret (Inr a), s') \<Longrightarrow> tryP m f s = f a s'"
  by (simp add: tryP_def)

lemma tryP_Err [simp, prog_simps]: "m s = (Ret (Inl e), s') \<Longrightarrow> tryP m f s = (Ret (Inl e), s')"
  by (simp add: tryP_def)

lemma tryP_Panic [simp, prog_simps]: "m s = (Panic e, s') \<Longrightarrow> tryP m f s = (Panic e, s')"
  by (simp add: tryP_def)

lemma tryP_Exit [simp, prog_simps]: "m s = (Exit n, s') \<Longrightarrow> tryP m f s = (Exit n, s')"
  by (simp add: tryP_def)

lemma mapErrP_Ok [simp, prog_simps]: "m s = (Ret (Inr a), s') \<Longrightarrow> mapErrP g m s = (Ret (Inr a), s')"
  by (simp add: mapErrP_def)

lemma mapErrP_Err [simp, prog_simps]:
  "m s = (Ret (Inl e), s') \<Longrightarrow> mapErrP g m s = (Ret (Inl (g e)), s')"
  by (simp add: mapErrP_def)

lemma onSnd_run [simp, prog_simps]: "m w = (x, w') \<Longrightarrow> onSnd m (r, w) = (x, (r, w'))"
  by (simp add: onSnd_def)

lemma liftP_run [simp, prog_simps]: "g s = (a, s') \<Longrightarrow> liftP g s = (Ret a, s')"
  by (simp add: liftP_def)

lemma bindP_returnP_left: "bindP (returnP a) f = f a"
  by (simp add: bindP_def fun_eq_iff)

lemma bindP_assoc: "bindP (bindP m f) g = bindP m (\<lambda>a. bindP (f a) g)"
  by (rule ext) (simp add: bindP_def split: prod.splits outcome.splits)

lemma tryP_returnP_left: "tryP (returnP (Inr a)) f = f a"
  by (simp add: tryP_def bindP_returnP_left)

lemma tryP_assoc: "tryP (tryP m f) g = tryP m (\<lambda>a. tryP (f a) g)"
  by (rule ext) (simp add: tryP_def bindP_def returnP_def split: prod.splits outcome.splits sum.splits)

text \<open>Inversion: a bind that returned normally ran both halves.\<close>

lemma bindP_RetE:
  assumes "bindP m f s = (Ret b, s'')"
  obtains a s' where "m s = (Ret a, s')" and "f a s' = (Ret b, s'')"
  using assms by (auto simp: bindP_def split: prod.splits outcome.splits)

lemma tryP_OkE:
  assumes "tryP m f s = (Ret (Inr b), s'')"
  obtains a s' where "m s = (Ret (Inr a), s')" and "f a s' = (Ret (Inr b), s'')"
  using assms by (auto simp: tryP_def elim!: bindP_RetE split: sum.splits)

lemma mapErrP_OkE:
  assumes "mapErrP f m s = (Ret (Inr b), s')"
  shows "m s = (Ret (Inr b), s')"
  using assms by (auto simp: mapErrP_def elim!: bindP_RetE split: sum.splits)

lemma tryP_RetE:
  assumes "tryP m f s = (Ret r, s'')"
  obtains (err) e where "m s = (Ret (Inl e), s'')" and "r = Inl e"
  | (ok) a s' where "m s = (Ret (Inr a), s')" and "f a s' = (Ret r, s'')"
  using assms by (auto simp: tryP_def elim!: bindP_RetE split: sum.splits)

subsection \<open>Polling\<close>

text \<open>\<open>std::task::Poll\<close>. The waker a poll registers is left out: who is polled again is a matter of the
  executor.\<close>

datatype 'a poll = Ready 'a | Pending

fun poll_map :: "('a \<Rightarrow> 'b) \<Rightarrow> 'a poll \<Rightarrow> 'b poll" where
  "poll_map f (Ready a) = Ready (f a)"
| "poll_map f Pending = Pending"

subsection \<open>Positions in a vector\<close>

text \<open>\<open>iter().position(p)\<close> and \<open>Vec::remove(i)\<close>; the source calls \<open>remove\<close> only at a position
  \<open>position\<close> returned, so an index out of range (a panic in Rust) is not reached.\<close>

fun position :: "('a \<Rightarrow> bool) \<Rightarrow> 'a list \<Rightarrow> nat option" where
  "position p [] = None"
| "position p (x # xs) = (if p x then Some 0 else map_option Suc (position p xs))"

definition remove_at :: "nat \<Rightarrow> 'a list \<Rightarrow> 'a list" where
  "remove_at i xs = take i xs @ drop (Suc i) xs"

lemma position_None_iff: "position p xs = None \<longleftrightarrow> (\<forall>x\<in>set xs. \<not> p x)"
  by (induction xs) auto

lemma position_SomeD:
  "position p xs = Some i \<Longrightarrow> i < length xs \<and> p (xs ! i) \<and> (\<forall>j<i. \<not> p (xs ! j))"
proof (induction xs arbitrary: i)
  case Nil
  then show ?case by simp
next
  case (Cons x xs)
  then show ?case
    by (cases i) (auto split: if_splits simp: less_Suc_eq_0_disj)
qed

lemma position_Some_find: "position p xs = Some i \<Longrightarrow> find p xs = Some (xs ! i)"
proof (induction xs arbitrary: i)
  case Nil
  then show ?case by simp
next
  case (Cons x xs)
  then show ?case by (cases i) (auto split: if_splits)
qed

lemma remove_at_split: "i < length xs \<Longrightarrow> xs = take i xs @ xs ! i # drop (Suc i) xs"
  by (rule id_take_nth_drop)

lemma length_remove_at [simp]: "i < length xs \<Longrightarrow> length (remove_at i xs) = length xs - 1"
  by (simp add: remove_at_def)

lemma set_remove_at_subset: "set (remove_at i xs) \<subseteq> set xs"
  by (auto simp: remove_at_def dest: in_set_takeD in_set_dropD)

lemma map_remove_at: "map f (remove_at i xs) = remove_at i (map f xs)"
  by (simp add: remove_at_def take_map drop_map)

lemma set_remove_at_distinct:
  assumes "distinct xs" and "i < length xs"
  shows "set (remove_at i xs) = set xs - {xs ! i}"
proof -
  obtain us vs where xs: "xs = us @ xs ! i # vs" and "length us = i"
    using assms(2) by (metis id_take_nth_drop length_take min.absorb4)
  then have "remove_at i xs = us @ vs"
    by (metis append_eq_conv_conj append_Cons append_assoc append_self_conv2 length_append_singleton remove_at_def)
  moreover have "xs ! i \<notin> set (us @ vs)" and "set xs = insert (xs ! i) (set (us @ vs))"
    using assms(1) xs by (metis distinct.simps(2) distinct_append disjoint_insert(1) list.set(2) Un_iff set_append, metis Un_insert_right list.set(2) set_append)
  ultimately show ?thesis by auto
qed

lemma distinct_remove_at: "distinct xs \<Longrightarrow> distinct (remove_at i xs)"
  by (simp add: remove_at_def set_take_disj_set_drop_if_distinct)

end
