(* ===== verification/Runtime.thy ===== *)
theory Runtime
  imports Prelude
begin

text \<open>
  What the asynchronous layer asks of \<open>tokio\<close>: the texts of two of its errors, a watch channel
  that carries the run state (\<open>tokio::sync::watch\<close>,
  \<open>tokio_stream::wrappers::WatchStream\<close>) and signal streams (\<open>tokio::signal::unix\<close>).
  They are the fields of the record \<open>rt\<close>, over a runtime state \<open>'t\<close>. What the
  documentation promises of them is the locale \<open>watch_runtime\<close>, stated over a view of the runtime
  state: which receivers exist, on which channel and with an unseen value or not, which senders exist, and the
  value of each channel. \<open>trt\<close> is an executable runtime that satisfies it.

  A poll and a send are atomic with respect to each other, as they are under the lock of the channel.
\<close>

subsection \<open>The condition a supervisor broadcasts\<close>

text \<open>\<open>ExitCondition\<close> of \<open>src/tokio_ecdysis/mod.rs\<close>; in \<open>RunState\<close> of \<open>supervisor.rs\<close>, \<open>None\<close> means run.\<close>

datatype exit_condition = Upgrade | Stop | PartialStop

type_synonym run_state = "exit_condition option"

type_synonym handle = nat
type_synonym signal_kind = int

subsection \<open>The operations\<close>

record 't rt =
  watch_channel :: "run_state \<Rightarrow> 't \<Rightarrow> (handle \<times> handle) \<times> 't"
  watch_send :: "handle \<Rightarrow> run_state \<Rightarrow> 't \<Rightarrow> (run_state + unit) \<times> 't"
  watch_clone :: "handle \<Rightarrow> 't \<Rightarrow> handle \<times> 't"
  watch_stream :: "handle \<Rightarrow> 't \<Rightarrow> 't"
  watch_next :: "handle \<Rightarrow> 't \<Rightarrow> run_state option poll \<times> 't"
  watch_borrow :: "handle \<Rightarrow> 't \<Rightarrow> run_state"
  watch_changed :: "handle \<Rightarrow> 't \<Rightarrow> (unit + unit) poll \<times> 't"
  watch_drop :: "handle \<Rightarrow> 't \<Rightarrow> 't"
  signal_new :: "signal_kind \<Rightarrow> 't \<Rightarrow> (io_error + handle) \<times> 't"
  signal_next :: "handle \<Rightarrow> 't \<Rightarrow> unit option poll \<times> 't"
  send_error_text :: "run_state \<Rightarrow> string"
  recv_error_text :: string

subsection \<open>Laws\<close>

record watch_view =
  receivers :: "handle \<rightharpoonup> nat \<times> bool"
  senders :: "handle \<rightharpoonup> nat"
  chan_value :: "nat \<rightharpoonup> run_state"

definition mark_unseen :: "nat \<Rightarrow> (handle \<rightharpoonup> nat \<times> bool) \<Rightarrow> handle \<rightharpoonup> nat \<times> bool" where
  "mark_unseen c m = (\<lambda>h. case m h of
      None \<Rightarrow> None
    | Some (c', u) \<Rightarrow> Some (c', u \<or> c' = c))"

definition see :: "handle \<Rightarrow> nat \<Rightarrow> watch_view \<Rightarrow> watch_view" where
  "see h c v = v\<lparr>receivers := (receivers v)(h \<mapsto> (c, False))\<rparr>"

definition has_sender :: "watch_view \<Rightarrow> nat \<Rightarrow> bool" where
  "has_sender v c \<longleftrightarrow> c \<in> ran (senders v)"

locale watch_runtime =
  fixes rt :: "'t rt"
    and view :: "'t \<Rightarrow> watch_view"
  assumes channel_new: "watch_channel rt s t = ((tx, rx), t') \<Longrightarrow>
      \<exists>c. chan_value (view t) c = None \<and> receivers (view t) rx = None \<and> senders (view t) tx = None
        \<and> view t' = \<lparr>receivers = (receivers (view t))(rx \<mapsto> (c, False)),
            senders = (senders (view t))(tx \<mapsto> c), chan_value = (chan_value (view t))(c \<mapsto> s)\<rparr>"
    and send_ok: "senders (view t) tx = Some c \<Longrightarrow> receivers (view t) rx = Some (c, u) \<Longrightarrow>
      \<exists>t'. watch_send rt tx s t = (Inr (), t') \<and> view t' = (view t)\<lparr>
        receivers := mark_unseen c (receivers (view t)), chan_value := (chan_value (view t))(c \<mapsto> s)\<rparr>"
    and send_means: "watch_send rt tx s t = (Inr (), t') \<Longrightarrow>
      \<exists>c. senders (view t) tx = Some c \<and> view t' = (view t)\<lparr>
        receivers := mark_unseen c (receivers (view t)), chan_value := (chan_value (view t))(c \<mapsto> s)\<rparr>"
    and clone_new: "receivers (view t) rx = Some (c, u) \<Longrightarrow> watch_clone rt rx t = (rx', t') \<Longrightarrow>
      receivers (view t) rx' = None \<and> view t' = (view t)\<lparr>receivers := (receivers (view t))(rx' \<mapsto> (c, u))\<rparr>"
    and stream_first: "receivers (view t) rx = Some (c, u) \<Longrightarrow>
      view (watch_stream rt rx t) = (view t)\<lparr>receivers := (receivers (view t))(rx \<mapsto> (c, True))\<rparr>"
    and next_unseen: "receivers (view t) rx = Some (c, True) \<Longrightarrow> chan_value (view t) c = Some s \<Longrightarrow>
      \<exists>t'. watch_next rt rx t = (Ready (Some s), t') \<and> view t' = see rx c (view t)"
    and next_seen: "receivers (view t) rx = Some (c, False) \<Longrightarrow>
      \<exists>t'. watch_next rt rx t = (if has_sender (view t) c then Pending else Ready None, t') \<and> view t' = view t"
    and borrow_value: "receivers (view t) rx = Some (c, u) \<Longrightarrow> chan_value (view t) c = Some s \<Longrightarrow>
      watch_borrow rt rx t = s"
    and changed_unseen: "receivers (view t) rx = Some (c, True) \<Longrightarrow>
      \<exists>t'. watch_changed rt rx t = (Ready (Inr ()), t') \<and> view t' = see rx c (view t)"
    and changed_seen: "receivers (view t) rx = Some (c, False) \<Longrightarrow>
      \<exists>t'. watch_changed rt rx t = (if has_sender (view t) c then Pending else Ready (Inl ()), t')
        \<and> view t' = view t"
    and drop_gone: "view (watch_drop rt rx t) = (view t)\<lparr>receivers := (receivers (view t))(rx := None)\<rparr>"
    and signal_new_view: "view (snd (signal_new rt k t)) = view t"
    and signal_next_view: "view (snd (signal_next rt h t)) = view t"
    and signal_infinite: "fst (signal_next rt h t) \<noteq> Ready None"

subsection \<open>An executable runtime\<close>

text \<open>A new handle is one above the greatest in use. A signal stream has an unread signal when its handle is in
  \<open>t_raised\<close>; \<open>SIGKILL\<close> cannot be listened for.\<close>

record tokio_rt =
  t_rx :: "(handle \<times> (nat \<times> bool)) list"
  t_tx :: "(handle \<times> nat) list"
  t_val :: "(nat \<times> run_state) list"
  t_signals :: "(handle \<times> signal_kind) list"
  t_raised :: "handle list"

definition trt_view :: "tokio_rt \<Rightarrow> watch_view" where
  "trt_view t = \<lparr>receivers = map_of (t_rx t), senders = map_of (t_tx t), chan_value = map_of (t_val t)\<rparr>"

definition t_fresh :: "tokio_rt \<Rightarrow> nat" where
  "t_fresh t = Suc (fold max (map fst (t_rx t) @ map fst (t_tx t) @ map fst (t_val t)) 0)"

definition trt_rx :: "tokio_rt \<Rightarrow> handle \<Rightarrow> (nat \<times> bool) option" where
  "trt_rx t h = receivers (trt_view t) h"

definition trt_put :: "handle \<Rightarrow> nat \<times> bool \<Rightarrow> tokio_rt \<Rightarrow> tokio_rt" where
  "trt_put h e t = t\<lparr>t_rx := (h, e) # t_rx t\<rparr>"

definition trt_value :: "tokio_rt \<Rightarrow> nat \<Rightarrow> run_state" where
  "trt_value t c = (case chan_value (trt_view t) c of None \<Rightarrow> None | Some s \<Rightarrow> s)"

definition trt_sender :: "tokio_rt \<Rightarrow> nat \<Rightarrow> bool" where
  "trt_sender t c \<longleftrightarrow> (\<exists>h\<in>set (map fst (t_tx t)). senders (trt_view t) h = Some c)"

definition trt_channel :: "run_state \<Rightarrow> tokio_rt \<Rightarrow> (handle \<times> handle) \<times> tokio_rt" where
  "trt_channel s t = (let n = t_fresh t in
     ((n, n), t\<lparr>t_rx := (n, (n, False)) # t_rx t, t_tx := (n, n) # t_tx t, t_val := (n, s) # t_val t\<rparr>))"

definition trt_send :: "handle \<Rightarrow> run_state \<Rightarrow> tokio_rt \<Rightarrow> (run_state + unit) \<times> tokio_rt" where
  "trt_send tx s t = (case senders (trt_view t) tx of
      None \<Rightarrow> (Inl s, t)
    | Some c \<Rightarrow> if \<exists>h\<in>set (map fst (t_rx t)). map_option fst (trt_rx t h) = Some c
        then (Inr (), t\<lparr>t_rx := map (\<lambda>(h, (c', u)). (h, (c', u \<or> c' = c))) (t_rx t), t_val := (c, s) # t_val t\<rparr>)
        else (Inl s, t))"

definition trt_clone :: "handle \<Rightarrow> tokio_rt \<Rightarrow> handle \<times> tokio_rt" where
  "trt_clone rx t = (let n = t_fresh t in
     (n, case trt_rx t rx of None \<Rightarrow> t | Some e \<Rightarrow> trt_put n e t))"

definition trt_stream :: "handle \<Rightarrow> tokio_rt \<Rightarrow> tokio_rt" where
  "trt_stream rx t = (case trt_rx t rx of None \<Rightarrow> t | Some (c, u) \<Rightarrow> trt_put rx (c, True) t)"

definition trt_next :: "handle \<Rightarrow> tokio_rt \<Rightarrow> run_state option poll \<times> tokio_rt" where
  "trt_next rx t = (case trt_rx t rx of
      None \<Rightarrow> (Ready None, t)
    | Some (c, True) \<Rightarrow> (Ready (Some (trt_value t c)), trt_put rx (c, False) t)
    | Some (c, False) \<Rightarrow> (if trt_sender t c then Pending else Ready None, t))"

definition trt_borrow :: "handle \<Rightarrow> tokio_rt \<Rightarrow> run_state" where
  "trt_borrow rx t = (case trt_rx t rx of None \<Rightarrow> None | Some (c, u) \<Rightarrow> trt_value t c)"

definition trt_changed :: "handle \<Rightarrow> tokio_rt \<Rightarrow> (unit + unit) poll \<times> tokio_rt" where
  "trt_changed rx t = (case trt_rx t rx of
      None \<Rightarrow> (Ready (Inl ()), t)
    | Some (c, True) \<Rightarrow> (Ready (Inr ()), trt_put rx (c, False) t)
    | Some (c, False) \<Rightarrow> (if trt_sender t c then Pending else Ready (Inl ()), t))"

definition trt_drop :: "handle \<Rightarrow> tokio_rt \<Rightarrow> tokio_rt" where
  "trt_drop rx t = t\<lparr>t_rx := filter (\<lambda>x. fst x \<noteq> rx) (t_rx t)\<rparr>"

definition trt_signal :: "signal_kind \<Rightarrow> tokio_rt \<Rightarrow> (io_error + handle) \<times> tokio_rt" where
  "trt_signal k t = (if k = 9 then (Inl (OsError 22), t)
     else (Inr (length (t_signals t)), t\<lparr>t_signals := (length (t_signals t), k) # t_signals t\<rparr>))"

definition trt_signal_next :: "handle \<Rightarrow> tokio_rt \<Rightarrow> unit option poll \<times> tokio_rt" where
  "trt_signal_next h t = (if h \<in> set (t_raised t)
     then (Ready (Some ()), t\<lparr>t_raised := filter (\<lambda>x. x \<noteq> h) (t_raised t)\<rparr>) else (Pending, t))"

definition trt :: "tokio_rt rt" where
  "trt = \<lparr>watch_channel = trt_channel, watch_send = trt_send, watch_clone = trt_clone,
     watch_stream = trt_stream, watch_next = trt_next, watch_borrow = trt_borrow,
     watch_changed = trt_changed, watch_drop = trt_drop, signal_new = trt_signal,
     signal_next = trt_signal_next, send_error_text = (\<lambda>s. ''SendError''), recv_error_text = ''channel closed''\<rparr>"

lemmas trt_eval = trt_def trt_channel_def trt_send_def trt_clone_def trt_stream_def trt_next_def
  trt_borrow_def trt_changed_def trt_drop_def trt_signal_def trt_signal_next_def trt_rx_def trt_put_def
  trt_value_def trt_sender_def trt_view_def t_fresh_def

text \<open>A signal of kind \<open>k\<close> reaches every stream that listens for it.\<close>

definition raise_signal :: "signal_kind \<Rightarrow> tokio_rt \<Rightarrow> tokio_rt" where
  "raise_signal k t = t\<lparr>t_raised := map fst (filter (\<lambda>x. snd x = k) (t_signals t)) @ t_raised t\<rparr>"

definition t0 :: tokio_rt where
  "t0 = \<lparr>t_rx = [], t_tx = [], t_val = [], t_signals = [], t_raised = []\<rparr>"

subsection \<open>The runtime satisfies the laws\<close>

lemma filter_fst_map_of: "map_of (filter (\<lambda>e. fst e \<noteq> k) xs) = (map_of xs)(k := None)"
  by (induction xs) (auto simp: fun_eq_iff)

lemma map_of_mark: "map_of (map (\<lambda>(h, (c', u)). (h, (c', u \<or> c' = c))) xs) = mark_unseen c (map_of xs)"
  by (induction xs) (auto simp: mark_unseen_def fun_eq_iff)

lemma trt_view_put [simp]:
    "trt_view (trt_put h e t) = (trt_view t)\<lparr>receivers := (receivers (trt_view t))(h \<mapsto> e)\<rparr>"
  by (simp add: trt_view_def trt_put_def)

lemma trt_view_signals [simp]:
  "trt_view (t\<lparr>t_signals := a\<rparr>) = trt_view t" "trt_view (t\<lparr>t_raised := b\<rparr>) = trt_view t"
  by (simp_all add: trt_view_def)

lemma trt_view_drop [simp]:
  "trt_view (trt_drop h t) = (trt_view t)\<lparr>receivers := (receivers (trt_view t))(h := None)\<rparr>"
  by (simp add: trt_view_def trt_drop_def filter_fst_map_of)

lemma map_of_key: "map_of xs h = Some e \<Longrightarrow> h \<in> fst ` set xs"
  by (metis domI dom_map_of_conv_image_fst)

lemma map_of_above: "set (map fst xs) \<subseteq> set ks \<Longrightarrow> map_of xs (Suc (fold max ks 0)) = None"
  using map_of_key fold_max_ge [of _ ks 0] by (fastforce simp: map_of_eq_None_iff)

lemma t_fresh_free [simp]:
  "receivers (trt_view t) (t_fresh t) = None" "senders (trt_view t) (t_fresh t) = None"
  "chan_value (trt_view t) (t_fresh t) = None"
  unfolding trt_view_def t_fresh_def watch_view.select_convs by (rule map_of_above; auto)+

lemma trt_sender_iff: "trt_sender t c \<longleftrightarrow> has_sender (trt_view t) c"
  by (auto simp: trt_sender_def has_sender_def ran_def trt_view_def dest: map_of_key)

lemma trt_send_ok:
  assumes "senders (trt_view t) tx = Some c" and "receivers (trt_view t) rx = Some (c, u)"
  shows "\<exists>t'. trt_send tx s t = (Inr (), t') \<and> trt_view t' = (trt_view t)\<lparr>
    receivers := mark_unseen c (receivers (trt_view t)), chan_value := (chan_value (trt_view t))(c \<mapsto> s)\<rparr>"
proof -
  have "rx \<in> set (map fst (t_rx t))" and "map_option fst (trt_rx t rx) = Some c"
    using assms(2) map_of_key by (auto simp: trt_rx_def trt_view_def)
  then have "\<exists>h\<in>set (map fst (t_rx t)). map_option fst (trt_rx t h) = Some c" by blast
  then show ?thesis using assms(1) by (simp add: trt_send_def) (simp add: trt_view_def map_of_mark)
qed

lemma trt_send_means:
  assumes "trt_send tx s t = (Inr (), t')"
  shows "\<exists>c. senders (trt_view t) tx = Some c \<and> trt_view t' = (trt_view t)\<lparr>
    receivers := mark_unseen c (receivers (trt_view t)), chan_value := (chan_value (trt_view t))(c \<mapsto> s)\<rparr>"
proof -
  obtain c where c: "senders (trt_view t) tx = Some c"
    "t' = t\<lparr>t_rx := map (\<lambda>(h, (c', u)). (h, (c', u \<or> c' = c))) (t_rx t), t_val := (c, s) # t_val t\<rparr>"
    using assms by (auto simp: trt_send_def split: option.splits if_splits)
  then show ?thesis by (simp add: trt_view_def map_of_mark)
qed

interpretation trt: watch_runtime trt trt_view
proof unfold_locales
  fix t tx c rx u s
  assume "senders (trt_view t) tx = Some c" "receivers (trt_view t) rx = Some (c, u)"
  then show "\<exists>t'. watch_send trt tx s t = (Inr (), t') \<and> trt_view t' = (trt_view t)\<lparr>
    receivers := mark_unseen c (receivers (trt_view t)), chan_value := (chan_value (trt_view t))(c \<mapsto> s)\<rparr>"
    using trt_send_ok by (simp add: trt_def)
next
  fix tx s t t' assume "watch_send trt tx s t = (Inr (), t')"
  then show "\<exists>c. senders (trt_view t) tx = Some c \<and> trt_view t' = (trt_view t)\<lparr>
    receivers := mark_unseen c (receivers (trt_view t)), chan_value := (chan_value (trt_view t))(c \<mapsto> s)\<rparr>"
    using trt_send_means by (simp add: trt_def)
next
  fix s t tx rx t' assume "watch_channel trt s t = ((tx, rx), t')"
  then have run: "tx = t_fresh t" "rx = t_fresh t" "trt_view t' =
      \<lparr>receivers = (receivers (trt_view t))(t_fresh t \<mapsto> (t_fresh t, False)),
       senders = (senders (trt_view t))(t_fresh t \<mapsto> t_fresh t), chan_value = (chan_value (trt_view t))(t_fresh t \<mapsto> s)\<rparr>"
    by (auto simp: trt_def trt_channel_def Let_def trt_view_def)
  then show "\<exists>c. chan_value (trt_view t) c = None \<and> receivers (trt_view t) rx = None \<and> senders (trt_view t) tx = None
      \<and> trt_view t' = \<lparr>receivers = (receivers (trt_view t))(rx \<mapsto> (c, False)),
        senders = (senders (trt_view t))(tx \<mapsto> c), chan_value = (chan_value (trt_view t))(c \<mapsto> s)\<rparr>"
    by (intro exI [of _ "t_fresh t"]) simp
qed (auto simp: trt_def trt_clone_def trt_stream_def trt_next_def trt_borrow_def trt_changed_def
    trt_rx_def trt_value_def trt_sender_iff see_def Let_def trt_signal_def trt_signal_next_def)

end
