(* ===== verification/Supervisor.thy ===== *)
theory Supervisor
  imports Runtime
begin

text \<open>
  \<open>src/tokio_ecdysis/supervisor.rs\<close>: the supervisor that stops streams. It owns a watch channel
  of the run state; a \<open>stoppable_stream\<close> polls its receiver until nothing new comes, then its
  inner stream or nothing. The inner stream is an argument, a program on its own state and the world. The loop
  of \<open>poll_next\<close> and that of \<open>until_stopped\<close> are \<open>partial_function\<close>s:
  \<open>None\<close> is a loop that does not end. A poll of \<open>tokio::select!\<close> takes the branch it
  polls first as an argument.

  The abstract specification \<open>asup\<close> has no channel: one run state, and streams with a policy.
  Every sequence of operations on the supervisor and its streams gives the replies the specification gives.
\<close>

subsection \<open>Supervisor\<close>

datatype stop_on_shutdown = Yes | No

fun should_continue :: "stop_on_shutdown \<Rightarrow> run_state \<Rightarrow> bool" where
  "should_continue p None = True"
| "should_continue p (Some Upgrade) = False"
| "should_continue p (Some Stop) = (p = No)"
| "should_continue p (Some PartialStop) = (p = No)"

record supervisor =
  sup_tx :: handle
  sup_rx :: handle
  sup_state :: run_state

definition supervisor_new :: "'t rt \<Rightarrow> ('t, supervisor) prog" where
  "supervisor_new rt = (\<lambda>t. case watch_channel rt None t of
      ((tx, rx), t') \<Rightarrow> (Ret \<lparr>sup_tx = tx, sup_rx = rx, sup_state = None\<rparr>, t'))"

text \<open>\<open>dbg\<close> is the debug text of the error of \<open>send\<close>.\<close>

definition stop_all :: "'t rt \<Rightarrow> (run_state \<Rightarrow> string) \<Rightarrow> supervisor \<Rightarrow> exit_condition \<Rightarrow> ('t, string + unit) prog" where
  "stop_all rt dbg s ec =
    mapErrP (\<lambda>e. ''Error stopping supervisor: '' @ dbg e) (liftP (watch_send rt (sup_tx s) (Some ec)))"

subsection \<open>Stoppable streams\<close>

record 's stoppable_stream =
  ss_stream :: 's
  ss_policy :: stop_on_shutdown
  ss_rx :: handle
  ss_state :: run_state

definition stoppable_stream_new :: "'t rt \<Rightarrow> 's \<Rightarrow> stop_on_shutdown \<Rightarrow> handle \<Rightarrow> ('t, 's stoppable_stream) prog" where
  "stoppable_stream_new rt stream stop_on_shutdown rx = (\<lambda>t.
    (Ret \<lparr>ss_stream = stream, ss_policy = stop_on_shutdown, ss_rx = rx, ss_state = None\<rparr>, watch_stream rt rx t))"

definition supervise_stream :: "'t rt \<Rightarrow> supervisor \<Rightarrow> 's \<Rightarrow> stop_on_shutdown \<Rightarrow> ('t, 's stoppable_stream) prog" where
  "supervise_stream rt s stream stop_on_shutdown =
    bindP (liftP (watch_clone rt (sup_rx s))) (stoppable_stream_new rt stream stop_on_shutdown)"

text \<open>\<open>while let Poll::Ready(Some(state)) = self.rx.poll_next_unpin(cx)\<close>\<close>

partial_function (option) drain :: "'t rt \<Rightarrow> handle \<Rightarrow> run_state \<Rightarrow> 't \<Rightarrow> (run_state \<times> 't) option" where
  "drain rt rx state t = (case watch_next rt rx t of
      (Ready (Some state'), t') \<Rightarrow> drain rt rx state' t'
    | (Ready None, t') \<Rightarrow> Some (state, t')
    | (Pending, t') \<Rightarrow> Some (state, t'))"

declare drain.simps [code]

definition stoppable_poll_next ::
    "'t rt \<Rightarrow> ('s \<times> 'w, 'a option poll) prog \<Rightarrow> 's stoppable_stream \<times> 't \<times> 'w
      \<Rightarrow> ('a option poll outcome \<times> 's stoppable_stream \<times> 't \<times> 'w) option" where
  "stoppable_poll_next rt inner = (\<lambda>(ss, t, w).
    case drain rt (ss_rx ss) (ss_state ss) t of
      None \<Rightarrow> None
    | Some (state, t') \<Rightarrow>
        if should_continue (ss_policy ss) state
        then (case inner (ss_stream ss, w) of
            (x, (s', w')) \<Rightarrow> Some (x, (ss\<lparr>ss_state := state, ss_stream := s'\<rparr>, t', w')))
        else Some (Ret (Ready None), (ss\<lparr>ss_state := state\<rparr>, t', w)))"

subsection \<open>Stoppable\<close>

record 's stoppable =
  st_s :: 's
  st_rx :: handle
  st_policy :: stop_on_shutdown

definition stoppable_new :: "'s \<Rightarrow> stop_on_shutdown \<Rightarrow> handle \<Rightarrow> 's stoppable" where
  "stoppable_new s stop_on_shutdown rx = \<lparr>st_s = s, st_rx = rx, st_policy = stop_on_shutdown\<rparr>"

definition supervise :: "'t rt \<Rightarrow> supervisor \<Rightarrow> 's \<Rightarrow> stop_on_shutdown \<Rightarrow> ('t, 's stoppable) prog" where
  "supervise rt s socket stop_on_shutdown =
    bindP (liftP (watch_clone rt (sup_rx s))) (\<lambda>rx. returnP (stoppable_new socket stop_on_shutdown rx))"

definition as_unstoppable_ref :: "'s stoppable \<Rightarrow> 's" where
  "as_unstoppable_ref st = st_s st"

definition as_unstoppable_mut :: "('s \<Rightarrow> 's) \<Rightarrow> 's stoppable \<Rightarrow> 's stoppable" where
  "as_unstoppable_mut f st = st\<lparr>st_s := f (st_s st)\<rparr>"

text \<open>The future of \<open>until_stopped\<close>: its receiver, the operation's future, and whether \<open>stopped_fut\<close> waits in
  \<open>changed().await\<close>. \<open>until_stopped\<close> works on a clone of the receiver, \<open>until_stopped_mut\<close> on the receiver itself.\<close>

record 'f until_fut =
  un_rx :: handle
  un_policy :: stop_on_shutdown
  un_awaiting :: bool
  un_fut :: 'f

definition until_stopped :: "'t rt \<Rightarrow> 's stoppable \<Rightarrow> ('s \<Rightarrow> 'f) \<Rightarrow> ('t, 'f until_fut) prog" where
  "until_stopped rt st f = bindP (liftP (watch_clone rt (st_rx st))) (\<lambda>rx. returnP
    \<lparr>un_rx = rx, un_policy = st_policy st, un_awaiting = False, un_fut = f (st_s st)\<rparr>)"

definition until_stopped_mut :: "'s stoppable \<Rightarrow> ('s \<Rightarrow> 'f) \<Rightarrow> ('t, 'f until_fut) prog" where
  "until_stopped_mut st f = returnP
    \<lparr>un_rx = st_rx st, un_policy = st_policy st, un_awaiting = False, un_fut = f (st_s st)\<rparr>"

definition recv_unwrap :: string where
  "recv_unwrap = ''called `Result::unwrap()` on an `Err` value: RecvError(())''"

text \<open>A poll of \<open>stopped_fut\<close>; \<open>awaiting\<close> is the point where it resumes.\<close>

partial_function (option) stopped_poll ::
    "'t rt \<Rightarrow> stop_on_shutdown \<Rightarrow> handle \<Rightarrow> bool \<Rightarrow> 't \<Rightarrow> (unit poll outcome \<times> bool \<times> 't) option" where
  "stopped_poll rt p rx awaiting t =
    (if \<not> awaiting \<and> \<not> should_continue p (watch_borrow rt rx t) then Some (Ret (Ready ()), False, t)
     else (case watch_changed rt rx t of
         (Ready (Inr u), t') \<Rightarrow> stopped_poll rt p rx False t'
       | (Ready (Inl e), t') \<Rightarrow> Some (Panic recv_unwrap, True, t')
       | (Pending, t') \<Rightarrow> Some (Ret Pending, True, t')))"

text \<open>A poll of \<open>select!\<close>: the branches in the order the macro draws, the first that is ready decides.\<close>

definition poll_stopped_branch ::
    "'t rt \<Rightarrow> 'f until_fut \<times> 't \<times> 'w \<Rightarrow> (unit poll outcome \<times> 'f until_fut \<times> 't \<times> 'w) option" where
  "poll_stopped_branch rt = (\<lambda>(u, t, w). case stopped_poll rt (un_policy u) (un_rx u) (un_awaiting u) t of
      None \<Rightarrow> None
    | Some (x, aw, t') \<Rightarrow> Some (x, u\<lparr>un_awaiting := aw\<rparr>, t', w))"

definition poll_output_branch ::
    "('f \<times> 'w, 'o poll) prog \<Rightarrow> 'f until_fut \<times> 't \<times> 'w \<Rightarrow> ('o poll outcome \<times> 'f until_fut \<times> 't \<times> 'w) option" where
  "poll_output_branch fut = (\<lambda>(u, t, w). case fut (un_fut u, w) of
      (x, (f', w')) \<Rightarrow> Some (x, u\<lparr>un_fut := f'\<rparr>, t, w'))"

definition select_then ::
    "('q \<Rightarrow> ('a poll outcome \<times> 'q) option) \<Rightarrow> ('a \<Rightarrow> 'r) \<Rightarrow> ('q \<Rightarrow> ('r poll outcome \<times> 'q) option)
      \<Rightarrow> 'q \<Rightarrow> ('r poll outcome \<times> 'q) option" where
  "select_then branch g rest q = (case branch q of
      None \<Rightarrow> None
    | Some (Ret (Ready a), q') \<Rightarrow> Some (Ret (Ready (g a)), q')
    | Some (Ret Pending, q') \<Rightarrow> rest q'
    | Some (Panic m, q') \<Rightarrow> Some (Panic m, q')
    | Some (Exit n, q') \<Rightarrow> Some (Exit n, q'))"

definition until_stopped_poll ::
    "'t rt \<Rightarrow> ('f \<times> 'w, 'o poll) prog \<Rightarrow> bool \<Rightarrow> 'f until_fut \<times> 't \<times> 'w
      \<Rightarrow> ('o option poll outcome \<times> 'f until_fut \<times> 't \<times> 'w) option" where
  "until_stopped_poll rt fut output_first =
    (let output = select_then (poll_output_branch fut) Some;
         stopped = select_then (poll_stopped_branch rt) (\<lambda>u. None);
         pending = (\<lambda>q. Some (Ret Pending, q))
     in if output_first then output (stopped pending) else stopped (output pending))"

subsection \<open>Systems of a supervisor and its streams\<close>

record ('s, 't, 'w) sup_system =
  sy_sup :: supervisor
  sy_streams :: "'s stoppable_stream list"
  sy_rt :: 't
  sy_world :: 'w

text \<open>What can happen: a stream is supervised, all are stopped, one is polled, the world moves on.\<close>

datatype ('s, 'w) sup_event =
    Supervise 's stop_on_shutdown
  | StopAll exit_condition
  | PollStream nat
  | World "'w \<Rightarrow> 'w"

datatype 'a sup_reply =
    Done
  | Stopped "string + unit"
  | Polled "'a option poll outcome"

definition sup_step ::
    "'t rt \<Rightarrow> (run_state \<Rightarrow> string) \<Rightarrow> ('s \<times> 'w, 'a option poll) prog \<Rightarrow> ('s, 'w) sup_event
      \<Rightarrow> ('s, 't, 'w) sup_system \<Rightarrow> ('a sup_reply \<times> ('s, 't, 'w) sup_system) option" where
  "sup_step rt dbg inner ev sy = (case ev of
      Supervise s p \<Rightarrow> (case supervise_stream rt (sy_sup sy) s p (sy_rt sy) of
          (Ret ss, t') \<Rightarrow> Some (Done, sy\<lparr>sy_streams := sy_streams sy @ [ss], sy_rt := t'\<rparr>)
        | _ \<Rightarrow> None)
    | StopAll ec \<Rightarrow> (case stop_all rt dbg (sy_sup sy) ec (sy_rt sy) of
          (Ret r, t') \<Rightarrow> Some (Stopped r, sy\<lparr>sy_rt := t'\<rparr>)
        | _ \<Rightarrow> None)
    | PollStream i \<Rightarrow>
        if i < length (sy_streams sy)
        then (case stoppable_poll_next rt inner (sy_streams sy ! i, sy_rt sy, sy_world sy) of
            None \<Rightarrow> None
          | Some (x, (ss', t', w')) \<Rightarrow>
              Some (Polled x, sy\<lparr>sy_streams := (sy_streams sy)[i := ss'], sy_rt := t', sy_world := w'\<rparr>))
        else Some (Done, sy)
    | World f \<Rightarrow> Some (Done, sy\<lparr>sy_world := f (sy_world sy)\<rparr>))"

fun sup_run ::
    "'t rt \<Rightarrow> (run_state \<Rightarrow> string) \<Rightarrow> ('s \<times> 'w, 'a option poll) prog \<Rightarrow> ('s, 'w) sup_event list
      \<Rightarrow> ('s, 't, 'w) sup_system \<Rightarrow> ('a sup_reply list \<times> ('s, 't, 'w) sup_system) option" where
  "sup_run rt dbg inner [] sy = Some ([], sy)"
| "sup_run rt dbg inner (ev # evs) sy = (case sup_step rt dbg inner ev sy of
      None \<Rightarrow> None
    | Some (r, sy') \<Rightarrow> (case sup_run rt dbg inner evs sy' of
          None \<Rightarrow> None
        | Some (rs, sy'') \<Rightarrow> Some (r # rs, sy'')))"

subsection \<open>Specification\<close>

record ('s, 'w) asup =
  a_state :: run_state
  a_streams :: "('s \<times> stop_on_shutdown) list"
  a_world :: 'w

definition a_step ::
    "('s \<times> 'w, 'a option poll) prog \<Rightarrow> ('s, 'w) sup_event \<Rightarrow> ('s, 'w) asup \<Rightarrow> 'a sup_reply \<times> ('s, 'w) asup" where
  "a_step inner ev a = (case ev of
      Supervise s p \<Rightarrow> (Done, a\<lparr>a_streams := a_streams a @ [(s, p)]\<rparr>)
    | StopAll ec \<Rightarrow> (Stopped (Inr ()), a\<lparr>a_state := Some ec\<rparr>)
    | PollStream i \<Rightarrow>
        if i < length (a_streams a)
        then (case a_streams a ! i of (s, p) \<Rightarrow>
          if should_continue p (a_state a)
          then (case inner (s, a_world a) of
              (x, (s', w')) \<Rightarrow> (Polled x, a\<lparr>a_streams := (a_streams a)[i := (s', p)], a_world := w'\<rparr>))
          else (Polled (Ret (Ready None)), a))
        else (Done, a)
    | World f \<Rightarrow> (Done, a\<lparr>a_world := f (a_world a)\<rparr>))"

fun a_run ::
    "('s \<times> 'w, 'a option poll) prog \<Rightarrow> ('s, 'w) sup_event list \<Rightarrow> ('s, 'w) asup \<Rightarrow> 'a sup_reply list \<times> ('s, 'w) asup" where
  "a_run inner [] a = ([], a)"
| "a_run inner (ev # evs) a = (case a_step inner ev a of
      (r, a') \<Rightarrow> (case a_run inner evs a' of (rs, a'') \<Rightarrow> (r # rs, a'')))"

definition abs_stream :: "'s stoppable_stream \<Rightarrow> 's \<times> stop_on_shutdown" where
  "abs_stream ss = (ss_stream ss, ss_policy ss)"

text \<open>The receiver of a stream is on channel \<open>c\<close>, whose value is \<open>st\<close>; a stream that has seen it knows it.\<close>

definition synced :: "watch_view \<Rightarrow> nat \<Rightarrow> run_state \<Rightarrow> 's stoppable_stream \<Rightarrow> bool" where
  "synced v c st ss \<longleftrightarrow> (case receivers v (ss_rx ss) of
      None \<Rightarrow> False
    | Some (c', u) \<Rightarrow> c' = c \<and> (u \<or> ss_state ss = st))"

definition sup_rel :: "('t \<Rightarrow> watch_view) \<Rightarrow> ('s, 't, 'w) sup_system \<Rightarrow> ('s, 'w) asup \<Rightarrow> bool" where
  "sup_rel view sy a \<longleftrightarrow> (\<exists>c u. senders (view (sy_rt sy)) (sup_tx (sy_sup sy)) = Some c
    \<and> receivers (view (sy_rt sy)) (sup_rx (sy_sup sy)) = Some (c, u)
    \<and> chan_value (view (sy_rt sy)) c = Some (a_state a)
    \<and> distinct (sup_rx (sy_sup sy) # map ss_rx (sy_streams sy))
    \<and> (\<forall>ss\<in>set (sy_streams sy). synced (view (sy_rt sy)) c (a_state a) ss)
    \<and> a_streams a = map abs_stream (sy_streams sy) \<and> a_world a = sy_world sy)"

lemma sup_relI:
  assumes "senders (view (sy_rt sy)) (sup_tx (sy_sup sy)) = Some c"
    and "receivers (view (sy_rt sy)) (sup_rx (sy_sup sy)) = Some (c, u)"
    and "chan_value (view (sy_rt sy)) c = Some (a_state a)" and "distinct (sup_rx (sy_sup sy) # map ss_rx (sy_streams sy))"
    and "\<forall>ss\<in>set (sy_streams sy). synced (view (sy_rt sy)) c (a_state a) ss"
    and "a_streams a = map abs_stream (sy_streams sy)" and "a_world a = sy_world sy"
  shows "sup_rel view sy a"
  unfolding sup_rel_def using assms by blast

lemma sup_relE:
  assumes "sup_rel view sy a"
  obtains c u where "senders (view (sy_rt sy)) (sup_tx (sy_sup sy)) = Some c"
    and "receivers (view (sy_rt sy)) (sup_rx (sy_sup sy)) = Some (c, u)"
    and "chan_value (view (sy_rt sy)) c = Some (a_state a)" and "distinct (sup_rx (sy_sup sy) # map ss_rx (sy_streams sy))"
    and "\<forall>ss\<in>set (sy_streams sy). synced (view (sy_rt sy)) c (a_state a) ss"
    and "a_streams a = map abs_stream (sy_streams sy)" and "a_world a = sy_world sy"
  using assms unfolding sup_rel_def by blast

lemma synced_see: "synced v c st ss \<Longrightarrow> ss_rx ss \<noteq> h \<Longrightarrow> synced (see h c v) c st ss"
  by (simp add: synced_def see_def)

subsection \<open>Polling a channel\<close>

lemma see_seen [simp]: "receivers v h = Some (c, False) \<Longrightarrow> see h c v = v"
  by (simp add: see_def fun_upd_idem)

context watch_runtime
begin

lemma drain_seen:
  assumes "receivers (view t) rx = Some (c, False)"
  obtains t' where "drain rt rx st t = Some (st, t')" and "view t' = view t"
proof -
  obtain t' where "watch_next rt rx t = (if has_sender (view t) c then Pending else Ready None, t')"
    "view t' = view t" using next_seen [OF assms] by blast
  then show thesis using that [of t'] by (simp add: drain.simps split: if_splits)
qed

lemma drain_run:
  assumes "receivers (view t) rx = Some (c, u)" and "chan_value (view t) c = Some s"
  obtains t' where "drain rt rx st t = Some (if u then s else st, t')" and "view t' = see rx c (view t)"
proof (cases u)
  case False
  then have rx: "receivers (view t) rx = Some (c, False)" using assms(1) by simp
  with False show thesis using that drain_seen [OF rx, of st thesis] by simp
next
  case True
  then have "receivers (view t) rx = Some (c, True)" using assms(1) by simp
  then obtain t1 where t1: "watch_next rt rx t = (Ready (Some s), t1)" "view t1 = see rx c (view t)"
    using next_unseen [OF _ assms(2)] by blast
  then have "receivers (view t1) rx = Some (c, False)" by (simp add: see_def)
  then obtain t2 where "drain rt rx s t1 = Some (s, t2)" "view t2 = view t1" using drain_seen by blast
  then show thesis using that [of t2] t1 True by (simp add: drain.simps [of rt rx st t])
qed

lemma stoppable_poll:
  assumes "chan_value (view t) c = Some st" and "synced (view t) c st ss"
  obtains t' where "stoppable_poll_next rt inner (ss, t, w) = Some (
      if should_continue (ss_policy ss) st
      then (case inner (ss_stream ss, w) of (x, (s', w')) \<Rightarrow> (x, (ss\<lparr>ss_state := st, ss_stream := s'\<rparr>, t', w')))
      else (Ret (Ready None), (ss\<lparr>ss_state := st\<rparr>, t', w)))"
    and "view t' = see (ss_rx ss) c (view t)"
proof -
  obtain u where u: "receivers (view t) (ss_rx ss) = Some (c, u)" "u \<or> ss_state ss = st"
    using assms(2) by (auto simp: synced_def split: option.splits)
  obtain t' where "drain rt (ss_rx ss) (ss_state ss) t = Some (if u then st else ss_state ss, t')"
    "view t' = see (ss_rx ss) c (view t)" using drain_run [OF u(1) assms(1)] by blast
  moreover have "(if u then st else ss_state ss) = st" using u(2) by auto
  ultimately show thesis using that [of t'] by (simp add: stoppable_poll_next_def split: prod.splits)
qed

lemma supervise_stream_run:
  assumes "receivers (view t) (sup_rx s) = Some (c, u)"
  obtains rx t' where "supervise_stream rt s stream p t = (Ret \<lparr>ss_stream = stream, ss_policy = p, ss_rx = rx, ss_state = None\<rparr>, t')"
    and "receivers (view t) rx = None"
    and "view t' = (view t)\<lparr>receivers := (receivers (view t))(rx \<mapsto> (c, True))\<rparr>"
proof -
  obtain rx t1 where t1: "watch_clone rt (sup_rx s) t = (rx, t1)" by fastforce
  note new = clone_new [OF assms t1]
  then have "receivers (view t1) rx = Some (c, u)" by simp
  then have "view (watch_stream rt rx t1) = (view t)\<lparr>receivers := (receivers (view t))(rx \<mapsto> (c, True))\<rparr>"
    using stream_first new by simp
  then show thesis using that t1 new by (simp add: supervise_stream_def stoppable_stream_new_def)
qed

lemma supervise_refines:
  assumes "sup_rel view sy a"
  shows "\<exists>sy'. sup_step rt dbg inner (Supervise s p) sy = Some (Done, sy')
    \<and> sup_rel view sy' (a\<lparr>a_streams := a_streams a @ [(s, p)]\<rparr>)"
  using assms
proof (rule sup_relE)
  fix c u
  assume c: "senders (view (sy_rt sy)) (sup_tx (sy_sup sy)) = Some c"
    "receivers (view (sy_rt sy)) (sup_rx (sy_sup sy)) = Some (c, u)"
    "chan_value (view (sy_rt sy)) c = Some (a_state a)" "distinct (sup_rx (sy_sup sy) # map ss_rx (sy_streams sy))"
    and str: "\<forall>ss\<in>set (sy_streams sy). synced (view (sy_rt sy)) c (a_state a) ss"
    and eq: "a_streams a = map abs_stream (sy_streams sy)" "a_world a = sy_world sy"
  obtain rx t' where t': "supervise_stream rt (sy_sup sy) s p (sy_rt sy) = (Ret \<lparr>ss_stream = s, ss_policy = p, ss_rx = rx, ss_state = None\<rparr>, t')"
    and new: "receivers (view (sy_rt sy)) rx = None"
    and v: "view t' = (view (sy_rt sy))\<lparr>receivers := (receivers (view (sy_rt sy)))(rx \<mapsto> (c, True))\<rparr>"
    by (rule supervise_stream_run [OF c(2), of s p])
  have old: "ss_rx ss \<noteq> rx" if "ss \<in> set (sy_streams sy)" for ss using str that new by (auto simp: synced_def)
  have str': "\<forall>ss\<in>set (sy_streams sy). synced (view t') c (a_state a) ss"
    using str old v by (simp add: synced_def)
  have ne: "sup_rx (sy_sup sy) \<noteq> rx" "rx \<notin> ss_rx ` set (sy_streams sy)" using c(2) new old by auto
  show ?thesis
  proof (intro exI conjI)
    show "sup_step rt dbg inner (Supervise s p) sy = Some (Done, sy\<lparr>sy_streams := sy_streams sy @
        [\<lparr>ss_stream = s, ss_policy = p, ss_rx = rx, ss_state = None\<rparr>], sy_rt := t'\<rparr>)" using t' by (simp add: sup_step_def)
    show "sup_rel view (sy\<lparr>sy_streams := sy_streams sy @
        [\<lparr>ss_stream = s, ss_policy = p, ss_rx = rx, ss_state = None\<rparr>], sy_rt := t'\<rparr>) (a\<lparr>a_streams := a_streams a @ [(s, p)]\<rparr>)"
      by (rule sup_relI [where c = c and u = u]) (use c eq ne v str' in \<open>simp_all add: abs_stream_def synced_def\<close>)
  qed
qed

lemma stop_all_refines:
  assumes "sup_rel view sy a"
  shows "\<exists>sy'. sup_step rt dbg inner (StopAll ec) sy = Some (Stopped (Inr ()), sy') \<and> sup_rel view sy' (a\<lparr>a_state := Some ec\<rparr>)"
  using assms
proof (rule sup_relE)
  fix c u
  assume c: "senders (view (sy_rt sy)) (sup_tx (sy_sup sy)) = Some c"
    "receivers (view (sy_rt sy)) (sup_rx (sy_sup sy)) = Some (c, u)"
    "chan_value (view (sy_rt sy)) c = Some (a_state a)" "distinct (sup_rx (sy_sup sy) # map ss_rx (sy_streams sy))"
    and str: "\<forall>ss\<in>set (sy_streams sy). synced (view (sy_rt sy)) c (a_state a) ss"
    and eq: "a_streams a = map abs_stream (sy_streams sy)" "a_world a = sy_world sy"
  obtain t' where t': "watch_send rt (sup_tx (sy_sup sy)) (Some ec) (sy_rt sy) = (Inr (), t')"
    and v: "view t' = (view (sy_rt sy))\<lparr>receivers := mark_unseen c (receivers (view (sy_rt sy))),
      chan_value := (chan_value (view (sy_rt sy)))(c \<mapsto> Some ec)\<rparr>"
    using send_ok [OF c(1,2)] by blast
  have str': "\<forall>ss\<in>set (sy_streams sy). synced (view t') c (Some ec) ss"
    using str v by (auto simp: synced_def mark_unseen_def split: option.splits)
  have "sup_rel view (sy\<lparr>sy_rt := t'\<rparr>) (a\<lparr>a_state := Some ec\<rparr>)"
    by (rule sup_relI [where c = c and u = True]) (use c eq v str' in \<open>simp_all add: mark_unseen_def\<close>)
  then show ?thesis using t' by (auto simp: sup_step_def stop_all_def)
qed

lemma poll_refines:
  assumes "sup_rel view sy a" and "i < length (sy_streams sy)"
    and "ss = sy_streams sy ! i" and "inner (ss_stream ss, sy_world sy) = (x, (s', w'))"
    and "res = (if should_continue (ss_policy ss) (a_state a) then (x, s', w')
      else (Ret (Ready None), ss_stream ss, sy_world sy))"
  shows "\<exists>sy'. sup_step rt dbg inner (PollStream i) sy = Some (Polled (fst res), sy')
    \<and> sup_rel view sy' (a\<lparr>a_streams := (a_streams a)[i := (fst (snd res), ss_policy ss)], a_world := snd (snd res)\<rparr>)"
  using assms(1)
proof (rule sup_relE)
  fix c u
  assume c: "senders (view (sy_rt sy)) (sup_tx (sy_sup sy)) = Some c"
    "receivers (view (sy_rt sy)) (sup_rx (sy_sup sy)) = Some (c, u)"
    "chan_value (view (sy_rt sy)) c = Some (a_state a)" "distinct (sup_rx (sy_sup sy) # map ss_rx (sy_streams sy))"
    and str: "\<forall>ss\<in>set (sy_streams sy). synced (view (sy_rt sy)) c (a_state a) ss"
    and eq: "a_streams a = map abs_stream (sy_streams sy)" "a_world a = sy_world sy"
  have ss: "synced (view (sy_rt sy)) c (a_state a) ss" using str assms(2,3) by simp
  obtain t' where run: "stoppable_poll_next rt inner (ss, sy_rt sy, sy_world sy) = Some (
      if should_continue (ss_policy ss) (a_state a)
      then (case inner (ss_stream ss, sy_world sy) of (x, (s', w')) \<Rightarrow> (x, (ss\<lparr>ss_state := a_state a, ss_stream := s'\<rparr>, t', w')))
      else (Ret (Ready None), (ss\<lparr>ss_state := a_state a\<rparr>, t', sy_world sy)))"
    and v: "view t' = see (ss_rx ss) c (view (sy_rt sy))"
    by (rule stoppable_poll [OF c(3) ss, of inner "sy_world sy"])
  have t': "stoppable_poll_next rt inner (ss, sy_rt sy, sy_world sy)
      = Some (fst res, (ss\<lparr>ss_state := a_state a, ss_stream := fst (snd res)\<rparr>, t', snd (snd res)))"
    using run assms(4,5) by simp
  let ?ss' = "ss\<lparr>ss_state := a_state a, ss_stream := fst (snd res)\<rparr>"
  have same: "map ss_rx ((sy_streams sy)[i := ?ss']) = map ss_rx (sy_streams sy)"
    using assms(2,3) by (simp add: map_update list_update_same_conv)
  have "synced (view t') c (a_state a) y" if "y \<in> set ((sy_streams sy)[i := ?ss'])" for y
  proof (cases "ss_rx y = ss_rx ss")
    case True
    obtain j where j: "j < length (sy_streams sy)" "y = (sy_streams sy)[i := ?ss'] ! j"
      using \<open>y \<in> _\<close> by (metis in_set_conv_nth length_list_update)
    have "j = i"
    proof (rule ccontr)
      assume "j \<noteq> i"
      then have "map ss_rx (sy_streams sy) ! j = map ss_rx (sy_streams sy) ! i" using True j assms(2,3) by simp
      then show False using c(4) j(1) assms(2) \<open>j \<noteq> i\<close> by (simp add: nth_eq_iff_index_eq del: nth_map)
    qed
    then show ?thesis using j assms(2) v by (simp add: synced_def see_def)
  next
    case False
    then have "y \<in> set (sy_streams sy)" using that set_update_subset_insert [of "sy_streams sy" i ?ss'] by auto
    then show ?thesis using str False v by (simp add: synced_see)
  qed
  moreover have "\<exists>u. receivers (view t') (sup_rx (sy_sup sy)) = Some (c, u)" using c(2) v by (auto simp: see_def)
  ultimately have "sup_rel view (sy\<lparr>sy_streams := (sy_streams sy)[i := ?ss'], sy_rt := t', sy_world := snd (snd res)\<rparr>)
      (a\<lparr>a_streams := (a_streams a)[i := (fst (snd res), ss_policy ss)], a_world := snd (snd res)\<rparr>)"
    unfolding sup_rel_def using c v same assms(2) eq by (auto simp: see_def map_update abs_stream_def)
  then show ?thesis using t' assms(2,3) by (simp add: sup_step_def)
qed

lemma step_refines:
  assumes "sup_rel view sy a"
  shows "\<exists>sy'. sup_step rt dbg inner ev sy = Some (fst (a_step inner ev a), sy') \<and> sup_rel view sy' (snd (a_step inner ev a))"
proof (cases ev)
  case (World f)
  then show ?thesis using assms by (auto simp: sup_step_def a_step_def sup_rel_def)
next
  case (Supervise s p)
  then show ?thesis using supervise_refines [OF assms] by (simp add: a_step_def)
next
  case (StopAll ec)
  then show ?thesis using stop_all_refines [OF assms] by (simp add: a_step_def)
next
  case (PollStream i)
  have eq: "a_streams a = map abs_stream (sy_streams sy)" "a_world a = sy_world sy" using assms by (auto simp: sup_rel_def)
  show ?thesis
  proof (cases "i < length (sy_streams sy)")
    case True
    let ?ss = "sy_streams sy ! i"
    obtain x s' w' where inner: "inner (ss_stream ?ss, sy_world sy) = (x, (s', w'))"
      by (cases "inner (ss_stream ?ss, sy_world sy)") auto
    have idle: "a\<lparr>a_streams := (a_streams a)[i := (ss_stream ?ss, ss_policy ?ss)], a_world := sy_world sy\<rparr> = a"
      using True eq by (cases a) (simp add: list_update_same_conv abs_stream_def)
    show ?thesis using poll_refines [of sy a i ?ss inner x s' w' _ dbg, OF assms True refl inner refl] PollStream True eq inner idle
      by (simp add: a_step_def abs_stream_def split: if_splits)
  qed (use assms eq PollStream in \<open>auto simp: sup_step_def a_step_def\<close>)
qed

lemma run_refines:
  assumes "sup_rel view sy a"
  shows "\<exists>sy'. sup_run rt dbg inner evs sy = Some (fst (a_run inner evs a), sy') \<and> sup_rel view sy' (snd (a_run inner evs a))"
  using assms
proof (induction evs arbitrary: sy a)
  case (Cons ev evs)
  obtain r a1 where a1: "a_step inner ev a = (r, a1)" by fastforce
  obtain sy1 where sy1: "sup_step rt dbg inner ev sy = Some (r, sy1)" "sup_rel view sy1 a1"
    using step_refines [OF Cons.prems, of dbg inner ev] a1 by auto
  obtain sy2 where "sup_run rt dbg inner evs sy1 = Some (fst (a_run inner evs a1), sy2)"
    "sup_rel view sy2 (snd (a_run inner evs a1))" using Cons.IH [OF sy1(2)] by blast
  then show ?case using sy1(1) a1 by (cases "a_run inner evs a1") simp
qed simp

lemma new_supervisor:
  obtains s t' where "supervisor_new rt t = (Ret s, t')"
    and "sup_rel view \<lparr>sy_sup = s, sy_streams = [], sy_rt = t', sy_world = w\<rparr> \<lparr>a_state = None, a_streams = [], a_world = w\<rparr>"
proof -
  obtain tx rx t' where t': "watch_channel rt None t = ((tx, rx), t')" by (metis surj_pair)
  then show thesis using that channel_new [OF t'] by (force simp: supervisor_new_def sup_rel_def)
qed

lemma new_run_refines:
  fixes inner :: "('s \<times> 'w, 'a option poll) prog"
  shows "\<exists>s t' sy'. supervisor_new rt t = (Ret s, t')
    \<and> sup_run rt dbg inner evs \<lparr>sy_sup = s, sy_streams = [], sy_rt = t', sy_world = w\<rparr>
      = Some (fst (a_run inner evs \<lparr>a_state = None, a_streams = [], a_world = w\<rparr>), sy')"
proof (rule new_supervisor [of t w])
  fix s t' assume "supervisor_new rt t = (Ret s, t')"
    and "sup_rel view \<lparr>sy_sup = s, sy_streams = [] :: 's stoppable_stream list, sy_rt = t', sy_world = w\<rparr>
      \<lparr>a_state = None, a_streams = [], a_world = w\<rparr>"
  then show ?thesis using run_refines by blast
qed

end

subsection \<open>Properties: supervised streams\<close>

text \<open>
  C8. A supervisor and its streams implement the specification without channels: from a new supervisor,
  for every sequence of supervising, stopping, polling and changes of the world, and every inner
  stream, all operations return and their replies are the ones of one shared run state: a stop always succeeds, a
  poll gives the inner stream's answer while the policy of the stream lets it continue and the end of
  the stream otherwise.
\<close>

theorem supervision_refines:
  assumes "watch_runtime rt view"
  shows "\<exists>s t' sy'. supervisor_new rt t = (Ret s, t')
    \<and> sup_run rt dbg inner evs \<lparr>sy_sup = s, sy_streams = [], sy_rt = t', sy_world = w\<rparr>
      = Some (fst (a_run inner evs \<lparr>a_state = None, a_streams = [], a_world = w\<rparr>), sy')"
  by (rule watch_runtime.new_run_refines [OF assms])

text \<open>The policies of the streams that the events create.\<close>

fun policies :: "('s, 'w) sup_event list \<Rightarrow> stop_on_shutdown list" where
  "policies [] = []"
| "policies (Supervise s p # evs) = p # policies evs"
| "policies (_ # evs) = policies evs"

fun is_stop :: "('s, 'w) sup_event \<Rightarrow> bool" where
  "is_stop (StopAll ec) = True"
| "is_stop _ = False"

lemma policies_append [simp]: "policies (xs @ ys) = policies xs @ policies ys"
  by (induction xs rule: policies.induct) auto

lemma a_run_append:
  "a_run inner (xs @ ys) a = (case a_run inner xs a of (rs, a') \<Rightarrow> case a_run inner ys a' of (rs', a'') \<Rightarrow> (rs @ rs', a''))"
  by (induction xs arbitrary: a) (auto split: prod.splits)

lemma snd_a_run_Cons [simp]: "snd (a_run inner (ev # evs) a) = snd (a_run inner evs (snd (a_step inner ev a)))"
  by (simp split: prod.splits)

lemma snd_a_run_append: "snd (a_run inner (xs @ ys) a) = snd (a_run inner ys (snd (a_run inner xs a)))"
  by (simp add: a_run_append split: prod.splits)

lemma a_step_policies:
  "map snd (a_streams (snd (a_step inner ev a))) = map snd (a_streams a) @ policies [ev]"
  by (cases ev) (auto simp: a_step_def map_update list_update_same_conv split: prod.splits)

lemma a_run_policies: "map snd (a_streams (snd (a_run inner evs a))) = map snd (a_streams a) @ policies evs"
proof (induction evs arbitrary: a)
  case (Cons ev evs)
  have "policies (ev # evs) = policies [ev] @ policies evs" by (cases ev) auto
  then show ?case using Cons a_step_policies [of inner ev a] by (simp del: a_run.simps)
qed simp

lemma a_step_state: "\<not> is_stop ev \<Longrightarrow> a_state (snd (a_step inner ev a)) = a_state a"
  by (cases ev) (auto simp: a_step_def split: prod.splits)

lemma a_run_state: "\<forall>ev\<in>set evs. \<not> is_stop ev \<Longrightarrow> a_state (snd (a_run inner evs a)) = a_state a"
proof (induction evs arbitrary: a)
  case (Cons ev evs)
  then show ?case using a_step_state [of ev inner a] by (simp del: a_run.simps)
qed simp

text \<open>The same events on bare streams, with no supervisor at all: a poll is a poll of the stream, a stop does nothing.\<close>

definition bare_step ::
    "('s \<times> 'w, 'a option poll) prog \<Rightarrow> ('s, 'w) sup_event \<Rightarrow> 's list \<times> 'w \<Rightarrow> 'a sup_reply \<times> 's list \<times> 'w" where
  "bare_step inner ev = (\<lambda>(ss, w). case ev of
      Supervise s p \<Rightarrow> (Done, (ss @ [s], w))
    | StopAll ec \<Rightarrow> (Stopped (Inr ()), (ss, w))
    | PollStream i \<Rightarrow>
        if i < length ss then (case inner (ss ! i, w) of (x, (s', w')) \<Rightarrow> (Polled x, (ss[i := s'], w')))
        else (Done, (ss, w))
    | World f \<Rightarrow> (Done, (ss, f w)))"

fun bare_run ::
    "('s \<times> 'w, 'a option poll) prog \<Rightarrow> ('s, 'w) sup_event list \<Rightarrow> 's list \<times> 'w \<Rightarrow> 'a sup_reply list \<times> 's list \<times> 'w" where
  "bare_run inner [] q = ([], q)"
| "bare_run inner (ev # evs) q = (case bare_step inner ev q of
      (r, q') \<Rightarrow> (case bare_run inner evs q' of (rs, q'') \<Rightarrow> (r # rs, q'')))"

text \<open>Events that stop no stream: there is no stop, or no stop for an upgrade and every stream may continue after the others.\<close>

definition undisturbed :: "('s, 'w) sup_event list \<Rightarrow> bool" where
  "undisturbed evs \<longleftrightarrow> (\<forall>ev\<in>set evs. \<not> is_stop ev) \<or> StopAll Upgrade \<notin> set evs \<and> set (policies evs) \<subseteq> {No}"

definition asup_runs :: "('s, 'w) asup \<Rightarrow> bool" where
  "asup_runs a \<longleftrightarrow> (\<forall>x\<in>set (a_streams a). should_continue (snd x) (a_state a))"

lemma a_step_bare:
  assumes "asup_runs a"
  shows "bare_step inner ev (map fst (a_streams a), a_world a) = (case a_step inner ev a of
      (r, a') \<Rightarrow> (r, (map fst (a_streams a'), a_world a')))"
proof (cases ev)
  case (PollStream i)
  have "i < length (a_streams a) \<Longrightarrow> should_continue (snd (a_streams a ! i)) (a_state a)"
    using assms nth_mem by (auto simp: asup_runs_def)
  then show ?thesis using PollStream by (auto simp: bare_step_def a_step_def map_update split: prod.splits)
qed (simp_all add: bare_step_def a_step_def)

lemma a_run_bare:
  assumes "\<And>pre post. evs = pre @ post \<Longrightarrow> asup_runs (snd (a_run inner pre a))"
  shows "bare_run inner evs (map fst (a_streams a), a_world a) = (case a_run inner evs a of
      (rs, a') \<Rightarrow> (rs, (map fst (a_streams a'), a_world a')))"
  using assms
proof (induction evs arbitrary: a)
  case (Cons ev evs)
  obtain r a1 where a1: "a_step inner ev a = (r, a1)" by fastforce
  have "asup_runs a" using Cons.prems [of "[]"] by simp
  then have "bare_step inner ev (map fst (a_streams a), a_world a) = (r, (map fst (a_streams a1), a_world a1))"
    using a_step_bare [of a inner ev] a1 by simp
  moreover have "asup_runs (snd (a_run inner pre a1))" if "evs = pre @ post" for pre post
    using Cons.prems [of "ev # pre" post] that a1 by (simp del: a_run.simps)
  ultimately show ?case using Cons.IH [of a1] a1 by (simp split: prod.splits)
qed simp

lemma a_run_state_stops:
  "a_state (snd (a_run inner evs a)) \<noteq> a_state a \<Longrightarrow> \<exists>ec. a_state (snd (a_run inner evs a)) = Some ec \<and> StopAll ec \<in> set evs"
proof (induction evs arbitrary: a)
  case (Cons ev evs)
  show ?case
  proof (cases "is_stop ev")
    case True
    then obtain ec where ev: "ev = StopAll ec" by (cases ev) auto
    then have "a_state (snd (a_step inner ev a)) = Some ec" by (simp add: a_step_def)
    then show ?thesis using Cons.IH [of "snd (a_step inner ev a)"] ev
      by (cases "a_state (snd (a_run inner evs (snd (a_step inner ev a)))) = Some ec") (auto simp del: a_run.simps)
  next
    case False
    then show ?thesis using Cons.IH [of "snd (a_step inner ev a)"] Cons.prems a_step_state [OF False, of inner a]
      by (auto simp del: a_run.simps)
  qed
qed simp

lemma undisturbed_runs:
  assumes "undisturbed evs"
  shows "asup_runs (snd (a_run inner evs \<lparr>a_state = None, a_streams = [], a_world = w\<rparr>))"
proof -
  let ?a = "snd (a_run inner evs \<lparr>a_state = None, a_streams = [], a_world = w\<rparr>)"
  have p: "map snd (a_streams ?a) = policies evs" by (simp add: a_run_policies)
  show ?thesis
  proof (cases "\<exists>ec. a_state ?a = Some ec \<and> StopAll ec \<in> set evs")
    case True
    then obtain ec where ec: "a_state ?a = Some ec" "StopAll ec \<in> set evs" by blast
    then have "ec \<noteq> Upgrade" "set (policies evs) \<subseteq> {No}" using assms by (force simp: undisturbed_def)+
    then have "snd x = No" if "x \<in> set (a_streams ?a)" for x
      using that p by (metis image_eqI insertE set_map subsetD empty_iff)
    then have "should_continue (snd x) (a_state ?a)" if "x \<in> set (a_streams ?a)" for x
      using that ec(1) \<open>ec \<noteq> Upgrade\<close> by (cases ec) simp_all
    then show ?thesis by (simp add: asup_runs_def)
  next
    case False
    then have "a_state ?a = a_state \<lparr>a_state = None, a_streams = [] :: ('a \<times> stop_on_shutdown) list, a_world = w\<rparr>"
      using a_run_state_stops by blast
    then show ?thesis by (simp add: asup_runs_def)
  qed
qed

lemma policies_prefix: "evs = pre @ post \<Longrightarrow> undisturbed evs \<Longrightarrow> undisturbed pre"
  by (auto simp: undisturbed_def)

text \<open>
  C9. Supervision is invisible until it stops something. As long as nothing stops a stream (there is no stop
  at all, or every stream has the policy \<open>No\<close> and no stop is for an upgrade), a new supervisor
  and its streams answer every sequence of events as the bare streams do with no supervisor, and leave the
  streams and the world as the bare run does.
\<close>

theorem supervision_transparent:
  fixes inner :: "('s \<times> 'w, 'a option poll) prog"
  assumes "watch_runtime rt view" and "undisturbed evs"
  shows "\<exists>s t' rs sy'. supervisor_new rt t = (Ret s, t')
    \<and> sup_run rt dbg inner evs \<lparr>sy_sup = s, sy_streams = [], sy_rt = t', sy_world = w\<rparr> = Some (rs, sy')
    \<and> bare_run inner evs ([], w) = (rs, (map ss_stream (sy_streams sy'), sy_world sy'))"
proof (rule watch_runtime.new_supervisor [OF assms(1), of t w])
  let ?a = "\<lparr>a_state = None, a_streams = [], a_world = w\<rparr> :: ('s, 'w) asup"
  fix s t'
  assume new: "supervisor_new rt t = (Ret s, t')" and rel: "sup_rel view \<lparr>sy_sup = s, sy_streams = [], sy_rt = t', sy_world = w\<rparr> ?a"
  obtain rs a' where a': "a_run inner evs ?a = (rs, a')" by fastforce
  obtain sy' where run: "sup_run rt dbg inner evs \<lparr>sy_sup = s, sy_streams = [], sy_rt = t', sy_world = w\<rparr> = Some (rs, sy')"
    and rel': "sup_rel view sy' a'"
    using watch_runtime.run_refines [OF assms(1) rel, of dbg inner evs] a' by auto
  have "bare_run inner evs (map fst (a_streams ?a), a_world ?a) = (rs, (map fst (a_streams a'), a_world a'))"
    using a_run_bare [of evs inner ?a] undisturbed_runs policies_prefix assms(2) a' by (metis case_prod_conv)
  moreover have "map fst (a_streams a') = map ss_stream (sy_streams sy')" "a_world a' = sy_world sy'"
    using rel' by (auto simp: sup_rel_def abs_stream_def)
  ultimately show ?thesis using new run by simp
qed

text \<open>
  C19. After \<open>stop_all\<close> every stream whose policy does not let it continue ends, whether it was
  supervised before the stop or after it, and it stays ended: whatever happens before and after, a poll
  returns the end of the stream, until a later stop. For an upgrade these are all streams, for a stop or a partial stop those with
  \<open>StopOnShutdown::Yes\<close>.
\<close>

theorem stopped_streams_end:
  assumes "watch_runtime rt view" and "\<forall>ev\<in>set evs'. \<not> is_stop ev"
    and "i < length (policies (evs @ evs'))" and "\<not> should_continue (policies (evs @ evs') ! i) (Some ec)"
  shows "\<exists>s t' rs sy'. supervisor_new rt t = (Ret s, t')
    \<and> sup_run rt dbg inner (evs @ StopAll ec # evs' @ [PollStream i])
        \<lparr>sy_sup = s, sy_streams = [], sy_rt = t', sy_world = w\<rparr> = Some (rs @ [Polled (Ret (Ready None))], sy')"
proof -
  let ?a0 = "\<lparr>a_state = None, a_streams = [], a_world = w\<rparr>"
  obtain rs1 a1 where a1: "a_run inner (evs @ StopAll ec # evs') ?a0 = (rs1, a1)" by fastforce
  have "a_state a1 = Some ec"
    using a_run_state [OF assms(2), of inner] snd_a_run_append [of inner evs "StopAll ec # evs'" ?a0] a1
    by (simp add: a_step_def del: a_run.simps)
  moreover have "map snd (a_streams a1) = policies (evs @ evs')"
    using a_run_policies [of inner "evs @ StopAll ec # evs'" ?a0] a1 by simp
  moreover from this have "i < length (a_streams a1)" "snd (a_streams a1 ! i) = policies (evs @ evs') ! i"
    using assms(3) by (metis length_map, metis assms(3) length_map nth_map)
  ultimately have "a_step inner (PollStream i) a1 = (Polled (Ret (Ready None)), a1)"
    using assms(4) by (cases "a_streams a1 ! i") (simp add: a_step_def)
  then have "fst (a_run inner (evs @ StopAll ec # evs' @ [PollStream i]) ?a0) = rs1 @ [Polled (Ret (Ready None))]"
    using a1 a_run_append [of inner "evs @ StopAll ec # evs'" "[PollStream i]" ?a0] by simp
  then show ?thesis
    using watch_runtime.new_run_refines [OF assms(1), of t dbg inner "evs @ StopAll ec # evs' @ [PollStream i]" w] by metis
qed

subsection \<open>Properties: until_stopped\<close>

text \<open>The future is on channel \<open>c\<close> of value \<open>st\<close>; while it waits it has seen a value that lets it continue, or there
  is an unseen one.\<close>

definition until_synced :: "watch_view \<Rightarrow> nat \<Rightarrow> run_state \<Rightarrow> 'f until_fut \<Rightarrow> bool" where
  "until_synced v c st u \<longleftrightarrow> (case receivers v (un_rx u) of
      None \<Rightarrow> False
    | Some (c', unseen) \<Rightarrow> c' = c \<and> (unseen \<or> \<not> un_awaiting u \<or> should_continue (un_policy u) st))"

text \<open>What a poll answers while the sender is alive, by the branch polled first, the run state and the answer of the
  operation's future.\<close>

definition until_answer :: "bool \<Rightarrow> bool \<Rightarrow> 'o poll outcome \<Rightarrow> 'o option poll outcome" where
  "until_answer output_first continues x =
    (if \<not> continues \<and> (\<not> output_first \<or> x = Ret Pending) then Ret (Ready None)
     else (case x of
        Ret (Ready y) \<Rightarrow> Ret (Ready (Some y))
      | Ret Pending \<Rightarrow> Ret Pending
      | Panic m \<Rightarrow> Panic m
      | Exit n \<Rightarrow> Exit n))"

lemma until_synced_fut [simp]: "until_synced v c st (u\<lparr>un_fut := f\<rparr>) = until_synced v c st u"
  by (simp add: until_synced_def split: option.splits)

context watch_runtime
begin

lemma stopped_poll_stop:
  assumes "receivers (view t) rx = Some (c, unseen)" and "chan_value (view t) c = Some st"
    and "\<not> should_continue p st" and "unseen \<or> \<not> aw"
  obtains t' where "stopped_poll rt p rx aw t = Some (Ret (Ready ()), False, t')"
    and "view t' = view t \<or> view t' = see rx c (view t)"
proof (cases aw)
  case False
  then show thesis using that [of t] assms(3) borrow_value [OF assms(1,2)] by (simp add: stopped_poll.simps)
next
  case True
  then have rx: "receivers (view t) rx = Some (c, True)" using assms(1,4) by simp
  obtain t1 where t1: "watch_changed rt rx t = (Ready (Inr ()), t1)" "view t1 = see rx c (view t)"
    using changed_unseen [OF rx] by blast
  then have "watch_borrow rt rx t1 = st" using borrow_value [of t1 rx c False st] assms(2) by (simp add: see_def)
  then have "stopped_poll rt p rx False t1 = Some (Ret (Ready ()), False, t1)"
    using assms(3) by (simp add: stopped_poll.simps)
  then show thesis using that [of t1] t1 True by (simp add: stopped_poll.simps [of rt p rx True t])
qed

lemma stopped_poll_seen:
  assumes "receivers (view t) rx = Some (c, False)" and "chan_value (view t) c = Some st" and "should_continue p st"
  obtains t' where "stopped_poll rt p rx aw t = Some (if has_sender (view t) c then Ret Pending
      else Panic recv_unwrap, True, t')" and "view t' = view t"
proof -
  obtain t' where "watch_changed rt rx t = (if has_sender (view t) c then Pending else Ready (Inl ()), t')"
    "view t' = view t" using changed_seen [OF assms(1)] by blast
  then show thesis using that [of t'] assms(3) borrow_value [OF assms(1,2)]
    by (cases "has_sender (view t) c") (simp_all add: stopped_poll.simps)
qed

lemma stopped_poll_continue:
  assumes "receivers (view t) rx = Some (c, unseen)" and "chan_value (view t) c = Some st" and "should_continue p st"
  obtains t' where "stopped_poll rt p rx aw t = Some (if has_sender (view t) c then Ret Pending
      else Panic recv_unwrap, True, t')" and "view t' = see rx c (view t)"
proof (cases unseen)
  case False
  then have rx: "receivers (view t) rx = Some (c, False)" using assms(1) by simp
  then show thesis using that stopped_poll_seen [OF rx assms(2,3), of aw thesis] by simp
next
  case True
  then have rx: "receivers (view t) rx = Some (c, True)" using assms(1) by simp
  obtain t1 where t1: "watch_changed rt rx t = (Ready (Inr ()), t1)" "view t1 = see rx c (view t)"
    using changed_unseen [OF rx] by blast
  have seen: "receivers (view t1) rx = Some (c, False)" "chan_value (view t1) c = Some st"
    "has_sender (view t1) c = has_sender (view t) c"
    using t1(2) assms(2) by (simp_all add: see_def has_sender_def)
  have "stopped_poll rt p rx aw t = stopped_poll rt p rx False t1"
    using t1(1) assms(3) borrow_value [OF assms(1,2)] by (simp add: stopped_poll.simps [of rt p rx aw t])
  then show thesis using that stopped_poll_seen [OF seen(1,2) assms(3), of False thesis] seen(3) t1(2) by simp
qed

lemma until_stopped_branch:
  assumes "chan_value (view t) c = Some st" and "until_synced (view t) c st u"
  shows "\<exists>aw t'. poll_stopped_branch rt (u, t, w) = Some (
      if \<not> should_continue (un_policy u) st then Ret (Ready ())
      else if has_sender (view t) c then Ret Pending else Panic recv_unwrap, u\<lparr>un_awaiting := aw\<rparr>, t', w)
    \<and> until_synced (view t') c st (u\<lparr>un_awaiting := aw\<rparr>) \<and> chan_value (view t') c = Some st"
proof -
  obtain unseen where rx: "receivers (view t) (un_rx u) = Some (c, unseen)"
    and ok: "unseen \<or> \<not> un_awaiting u \<or> should_continue (un_policy u) st"
    using assms(2) by (auto simp: until_synced_def split: option.splits)
  show ?thesis
  proof (cases "should_continue (un_policy u) st")
    case True
    then obtain t' where "stopped_poll rt (un_policy u) (un_rx u) (un_awaiting u) t
        = Some (if has_sender (view t) c then Ret Pending
          else Panic recv_unwrap, True, t')"
      "view t' = see (un_rx u) c (view t)"
      using stopped_poll_continue [OF rx assms(1)] by blast
    then show ?thesis using True assms(1)
      by (intro exI [of _ True] exI [of _ t']) (simp add: poll_stopped_branch_def until_synced_def see_def)
  next
    case False
    then obtain t' where t': "stopped_poll rt (un_policy u) (un_rx u) (un_awaiting u) t = Some (Ret (Ready ()), False, t')"
      "view t' = view t \<or> view t' = see (un_rx u) c (view t)"
      using stopped_poll_stop [OF rx assms(1) False] ok by blast
    then have "until_synced (view t') c st (u\<lparr>un_awaiting := False\<rparr>)" "chan_value (view t') c = Some st"
      using rx assms(1) by (auto simp: until_synced_def see_def)
    then show ?thesis using False t'(1)
      by (intro exI [of _ False] exI [of _ t']) (simp add: poll_stopped_branch_def)
  qed
qed

lemma until_poll:
  assumes "chan_value (view t) c = Some st" and "until_synced (view t) c st u"
    and "has_sender (view t) c" and "fut (un_fut u, w) = (x, (f', w'))"
  shows "\<exists>u' t' w''. until_stopped_poll rt fut output_first (u, t, w)
      = Some (until_answer output_first (should_continue (un_policy u) st) x, u', t', w'')
    \<and> until_synced (view t') c st u' \<and> chan_value (view t') c = Some st"
proof -
  let ?u = "u\<lparr>un_fut := f'\<rparr>"
  have sync: "until_synced (view t) c st ?u" using assms(2) by simp
  have "\<exists>aw t'. poll_stopped_branch rt (u, t, w) = Some (
      if \<not> should_continue (un_policy u) st then Ret (Ready ()) else Ret Pending, u\<lparr>un_awaiting := aw\<rparr>, t', w)
    \<and> until_synced (view t') c st (u\<lparr>un_awaiting := aw\<rparr>) \<and> chan_value (view t') c = Some st"
    using until_stopped_branch [OF assms(1,2), of w] assms(3) by (cases "should_continue (un_policy u) st") simp_all
  then obtain aw t' where one: "poll_stopped_branch rt (u, t, w) = Some (
      if \<not> should_continue (un_policy u) st then Ret (Ready ()) else Ret Pending, u\<lparr>un_awaiting := aw\<rparr>, t', w)"
    "until_synced (view t') c st (u\<lparr>un_awaiting := aw\<rparr>)" "chan_value (view t') c = Some st" by blast
  have "\<exists>aw t'. poll_stopped_branch rt (?u, t, w') = Some (
      if \<not> should_continue (un_policy u) st then Ret (Ready ()) else Ret Pending, ?u\<lparr>un_awaiting := aw\<rparr>, t', w')
    \<and> until_synced (view t') c st (?u\<lparr>un_awaiting := aw\<rparr>) \<and> chan_value (view t') c = Some st"
    using until_stopped_branch [OF assms(1) sync, of w'] assms(3) by (cases "should_continue (un_policy u) st") simp_all
  then obtain aw2 t2 where two: "poll_stopped_branch rt (?u, t, w') = Some (
      if \<not> should_continue (un_policy u) st then Ret (Ready ()) else Ret Pending, ?u\<lparr>un_awaiting := aw2\<rparr>, t2, w')"
    "until_synced (view t2) c st (?u\<lparr>un_awaiting := aw2\<rparr>)" "chan_value (view t2) c = Some st" by blast
  have sync': "until_synced (view t') c st (u\<lparr>un_awaiting := aw, un_fut := f'\<rparr>)"
    using one(2) by simp
  show ?thesis
    by (cases output_first; cases "should_continue (un_policy u) st"; cases x rule: outcome.exhaust)
      (use one two sync sync' assms(1,4) in \<open>auto simp: until_stopped_poll_def select_then_def
        poll_output_branch_def until_answer_def split: poll.splits\<close>)
qed

end

text \<open>
  C25. \<open>until_stopped\<close>, while the supervisor lives, whichever branch is polled first: once the run state
  stops it, the poll is ready, with the output if that branch came first and had it, and otherwise with
  \<open>None\<close>; as long as the run state lets it continue, the poll is the one of the operation. The poll
  returns, and the future stays in step with the channel.
\<close>

theorem until_stopped_follows_state:
  assumes "watch_runtime rt view" and "chan_value (view t) c = Some st" and "until_synced (view t) c st u"
    and "has_sender (view t) c" and "fut (un_fut u, w) = (x, (f', w'))"
  shows "\<exists>u' t' w''. until_stopped_poll rt fut output_first (u, t, w)
      = Some (until_answer output_first (should_continue (un_policy u) st) x, u', t', w'')
    \<and> until_synced (view t') c st u' \<and> chan_value (view t') c = Some st"
  by (rule watch_runtime.until_poll [OF assms(1-4), of fut w x f' w', OF assms(5)])

text \<open>
  When the supervisor is gone while \<open>until_stopped\<close> may continue (no stop was sent, or a stop that
  does not concern it), the next poll that reaches the stop branch panics: \<open>changed()\<close> fails and its
  result is unwrapped.
\<close>

theorem until_stopped_panics_without_supervisor:
  assumes "watch_runtime rt view" and "chan_value (view t) c = Some st" and "until_synced (view t) c st u"
    and "\<not> has_sender (view t) c" and "should_continue (un_policy u) st"
    and "fut (un_fut u, w) = (Ret Pending, (f', w'))"
  shows "\<exists>m q. until_stopped_poll rt fut output_first (u, t, w) = Some (Panic m, q)"
proof -
  have sync: "until_synced (view t) c st (u\<lparr>un_fut := f'\<rparr>)" using assms(3) by simp
  have "\<exists>q. poll_stopped_branch rt (u, t, w) = Some (Panic recv_unwrap, q)"
    using watch_runtime.until_stopped_branch [OF assms(1-3), of w] assms(4,5) by auto
  moreover have "\<exists>q. poll_stopped_branch rt (u\<lparr>un_fut := f'\<rparr>, t, w') = Some (Panic recv_unwrap, q)"
    using watch_runtime.until_stopped_branch [OF assms(1,2) sync, of w'] assms(4,5) by auto
  ultimately obtain q q' where "poll_stopped_branch rt (u, t, w) = Some (Panic recv_unwrap, q)"
    "poll_stopped_branch rt (u\<lparr>un_fut := f'\<rparr>, t, w') = Some (Panic recv_unwrap, q')" by blast
  then show ?thesis using assms(6)
    by (cases output_first; cases q; cases q') (simp_all add: until_stopped_poll_def select_then_def poll_output_branch_def)
qed

subsection \<open>Concrete runs\<close>

text \<open>A runtime with one receiver on one channel, the value unseen, the sender alive or not; an inner stream that counts;
  an operation that never ends.\<close>

definition sup_ex_rt :: "run_state \<Rightarrow> bool \<Rightarrow> tokio_rt" where
  "sup_ex_rt st alive = t0\<lparr>t_rx := [(1, (1, True))], t_tx := (if alive then [(1, 1)] else []), t_val := [(1, st)]\<rparr>"

definition sup_ex_inner :: "(unit \<times> nat, nat option poll) prog" where
  "sup_ex_inner = (\<lambda>(s, w). (Ret (Ready (Some w)), (s, Suc w)))"

definition sup_ex_fut :: "(unit \<times> nat, nat poll) prog" where
  "sup_ex_fut = (\<lambda>(s, w). (Ret Pending, (s, w)))"

definition sup_ex_until :: "unit until_fut" where
  "sup_ex_until = \<lparr>un_rx = 1, un_policy = Yes, un_awaiting = True, un_fut = ()\<rparr>"

lemma sup_ex_view:
  "receivers (trt_view (sup_ex_rt st alive)) 1 = Some (1, True)" "chan_value (trt_view (sup_ex_rt st alive)) 1 = Some st"
  "has_sender (trt_view (sup_ex_rt st alive)) 1 = alive" "until_synced (trt_view (sup_ex_rt st alive)) 1 st sup_ex_until"
  by (simp_all add: sup_ex_rt_def trt_view_def has_sender_def until_synced_def sup_ex_until_def)

theorem supervision_refines_witness:
  "\<exists>s t' sy'. supervisor_new trt t0 = (Ret s, t')
    \<and> sup_run trt (\<lambda>e. ''SendError'') sup_ex_inner
        [Supervise () Yes, Supervise () No, PollStream 0, StopAll Stop, PollStream 0, PollStream 1]
        \<lparr>sy_sup = s, sy_streams = [], sy_rt = t', sy_world = 7\<rparr>
      = Some ([Done, Done, Polled (Ret (Ready (Some 7))), Stopped (Inr ()), Polled (Ret (Ready None)),
          Polled (Ret (Ready (Some 8)))], sy')"
  using supervision_refines [OF trt.watch_runtime_axioms, of t0 "\<lambda>e. ''SendError''" sup_ex_inner
      "[Supervise () Yes, Supervise () No, PollStream 0, StopAll Stop, PollStream 0, PollStream 1]" 7]
  by (simp add: a_step_def sup_ex_inner_def)

theorem supervision_transparent_witness:
  "\<exists>s t' rs sy'. supervisor_new trt t0 = (Ret s, t')
    \<and> sup_run trt (\<lambda>e. ''SendError'') sup_ex_inner [Supervise () No, PollStream 0, StopAll Stop, PollStream 0]
        \<lparr>sy_sup = s, sy_streams = [], sy_rt = t', sy_world = 7\<rparr>
      = Some ([Done, Polled (Ret (Ready (Some 7))), Stopped (Inr ()), Polled (Ret (Ready (Some 8)))], sy')"
proof -
  have "undisturbed [Supervise () No, PollStream 0, StopAll Stop, PollStream 0 :: (unit, nat) sup_event]"
    by (simp add: undisturbed_def)
  from supervision_transparent [OF trt.watch_runtime_axioms this, of t0 "\<lambda>e. ''SendError''" sup_ex_inner 7] show ?thesis
    by (auto simp: bare_step_def sup_ex_inner_def)
qed

theorem stopped_streams_end_witness:
  "\<exists>s t' rs sy'. supervisor_new trt t0 = (Ret s, t')
    \<and> sup_run trt (\<lambda>e. ''SendError'') sup_ex_inner
        ([Supervise () Yes] @ StopAll PartialStop # [Supervise () Yes, PollStream 0] @ [PollStream 1])
        \<lparr>sy_sup = s, sy_streams = [], sy_rt = t', sy_world = 7\<rparr> = Some (rs @ [Polled (Ret (Ready None))], sy')"
  by (rule stopped_streams_end [OF trt.watch_runtime_axioms]) simp_all

theorem until_stopped_follows_state_witness:
  "\<exists>u' t' w'. until_stopped_poll trt sup_ex_fut True (sup_ex_until, sup_ex_rt (Some Stop) True, 0)
    = Some (Ret (Ready None), u', t', w')"
proof -
  have "sup_ex_fut (un_fut sup_ex_until, 0) = (Ret Pending, ((), 0))" by (simp add: sup_ex_fut_def)
  moreover have "has_sender (trt_view (sup_ex_rt (Some Stop) True)) 1" unfolding sup_ex_view ..
  ultimately show ?thesis
    using until_stopped_follows_state [OF trt.watch_runtime_axioms sup_ex_view(2,4), of "Some Stop" True sup_ex_fut 0 "Ret Pending" "()" 0 True]
    by (auto simp: until_answer_def sup_ex_until_def)
qed

theorem until_stopped_panics_without_supervisor_witness:
  "\<exists>m q. until_stopped_poll trt sup_ex_fut True (sup_ex_until, sup_ex_rt None False, 0) = Some (Panic m, q)"
proof -
  have "sup_ex_fut (un_fut sup_ex_until, 0) = (Ret Pending, ((), 0))" by (simp add: sup_ex_fut_def)
  moreover have "\<not> has_sender (trt_view (sup_ex_rt None False)) 1" unfolding sup_ex_view by (rule not_False_eq_True [THEN iffD2, OF TrueI])
  ultimately show ?thesis
    using until_stopped_panics_without_supervisor
      [OF trt.watch_runtime_axioms sup_ex_view(2,4), of None False sup_ex_fut 0 "()" 0 True]
    by (auto simp: sup_ex_until_def)
qed

end
