(* ===== verification/Rust_Text.thy ===== *)
theory Rust_Text
  imports Prelude
begin

text \<open>
  The parts of Rust's standard library on text that the sources use: \<open>format!("{}", n)\<close> on
  integers, \<open>str::parse::<i32>\<close>, \<open>str::split(':')\<close> and
  \<open>[String]::join\<close>. A \<open>string\<close> is the UTF-8 byte sequence of a Rust string. The
  parser is the checked loop of \<open>i32::from_str_radix(_, 10)\<close>, with its error kinds; formatting
  followed by parsing is the identity on \<open>i32\<close>.
\<close>

subsection \<open>Printing integers\<close>

definition digit_char :: "nat \<Rightarrow> char" where
  "digit_char d = char_of (48 + d)"

fun show_nat :: "nat \<Rightarrow> string" where
  "show_nat n = (if n < 10 then [digit_char n] else show_nat (n div 10) @ [digit_char (n mod 10)])"

declare show_nat.simps [simp del]

definition show_int :: "int \<Rightarrow> string" where
  "show_int i = (if i < 0 then CHR ''-'' # show_nat (nat (- i)) else show_nat (nat i))"

subsection \<open>Parsing an i32\<close>

definition i32_min :: int where "i32_min = - 2147483648"

definition i32_max :: int where "i32_max = 2147483647"

definition is_i32 :: "int \<Rightarrow> bool" where
  "is_i32 n \<longleftrightarrow> i32_min \<le> n \<and> n \<le> i32_max"

datatype parse_int_error = EmptyInput | InvalidDigit | PosOverflow | NegOverflow

definition to_digit :: "char \<Rightarrow> nat option" where
  "to_digit c = (let k = of_char c in if 48 \<le> k \<and> k \<le> (57::nat) then Some (k - 48) else None)"

text \<open>The loop: multiply, read the digit, then report the overflow of the product, then add (or,
  for a negative number, subtract) with a check.\<close>

fun parse_digits :: "bool \<Rightarrow> int \<Rightarrow> string \<Rightarrow> parse_int_error + int" where
  "parse_digits neg acc [] = Inr acc"
| "parse_digits neg acc (c # cs) =
    (case to_digit c of
       None \<Rightarrow> Inl InvalidDigit
     | Some d \<Rightarrow>
         (let ovf = (if neg then NegOverflow else PosOverflow); m = acc * 10;
              r = (if neg then m - int d else m + int d)
          in if \<not> is_i32 m then Inl ovf
             else if \<not> is_i32 r then Inl ovf
             else parse_digits neg r cs))"

definition parse_i32 :: "string \<Rightarrow> parse_int_error + int" where
  "parse_i32 s =
    (case s of
       [] \<Rightarrow> Inl EmptyInput
     | c # cs \<Rightarrow>
         if cs = [] \<and> (c = CHR ''+'' \<or> c = CHR ''-'') then Inl InvalidDigit
         else if c = CHR ''+'' then parse_digits False 0 cs
         else if c = CHR ''-'' then parse_digits True 0 cs
         else parse_digits False 0 s)"

subsection \<open>Splitting and joining\<close>

text \<open>\<open>split(sep)\<close> yields at least one piece, empty pieces included.\<close>

fun split_char :: "char \<Rightarrow> string \<Rightarrow> string list" where
  "split_char sep [] = [[]]"
| "split_char sep (c # cs) =
    (if c = sep then [] # split_char sep cs
     else (case split_char sep cs of p # ps \<Rightarrow> (c # p) # ps | [] \<Rightarrow> [[c]]))"

fun join_with :: "string \<Rightarrow> string list \<Rightarrow> string" where
  "join_with sep [] = []"
| "join_with sep [x] = x"
| "join_with sep (x # y # xs) = x @ sep @ join_with sep (y # xs)"

subsection \<open>Facts\<close>

lemma to_digit_digit_char [simp]: "d < 10 \<Longrightarrow> to_digit (digit_char d) = Some d"
  by (simp add: to_digit_def digit_char_def)

lemma digit_char_not_sign:
  "d < 10 \<Longrightarrow> digit_char d \<noteq> CHR ''+''" "d < 10 \<Longrightarrow> digit_char d \<noteq> CHR ''-''"
proof -
  have "to_digit (CHR ''+'') = None" "to_digit (CHR ''-'') = None"
    by (simp_all add: to_digit_def)
  then show "d < 10 \<Longrightarrow> digit_char d \<noteq> CHR ''+''" "d < 10 \<Longrightarrow> digit_char d \<noteq> CHR ''-''"
    by (metis option.distinct(1) to_digit_digit_char)+
qed

lemma show_nat_hd: "\<exists>d cs. show_nat n = digit_char d # cs \<and> d < 10"
proof (induction n rule: show_nat.induct)
  case (1 n)
  then show ?case
    by (cases "n < 10") (auto simp: show_nat.simps [of n])
qed

lemma parse_digits_append:
  "parse_digits neg acc (xs @ ys) =
    (case parse_digits neg acc xs of Inl e \<Rightarrow> Inl e | Inr a \<Rightarrow> parse_digits neg a ys)"
  by (induction neg acc xs rule: parse_digits.induct) (auto simp: Let_def split: option.splits)

text \<open>What the loop computes on a printed number, in either direction.\<close>

lemma parse_digits_show_nat:
  assumes "is_i32 (if neg then - int n else int n)"
  shows "parse_digits neg 0 (show_nat n) = Inr (if neg then - int n else int n)"
  using assms
proof (induction n rule: show_nat.induct)
  case (1 n)
  show ?case
  proof (cases "n < 10")
    case True
    then show ?thesis
      by (auto simp: show_nat.simps [of n] is_i32_def i32_min_def i32_max_def Let_def)
  next
    case False
    let ?q = "n div 10" and ?s = "\<lambda>k::nat. if neg then - int k else int k"
    have n: "int n = int ?q * 10 + int (n mod 10)"
      by (metis div_mult_mod_eq of_nat_add of_nat_mult of_nat_numeral)
    have "is_i32 (?s ?q)" and m: "is_i32 (?s ?q * 10)"
      using "1.prems" n by (auto simp: is_i32_def i32_min_def i32_max_def split: if_splits)
    then have "parse_digits neg 0 (show_nat ?q) = Inr (?s ?q)"
      using "1.IH" False by blast
    moreover have "(if neg then ?s ?q * 10 - int (n mod 10) else ?s ?q * 10 + int (n mod 10)) = ?s n"
      using n by simp
    ultimately show ?thesis
      using False "1.prems" m
      by (simp add: show_nat.simps [of n] parse_digits_append Let_def)
  qed
qed

lemma parse_digits_range: "is_i32 acc \<Longrightarrow> parse_digits neg acc s = Inr n \<Longrightarrow> is_i32 n"
  by (induction neg acc s rule: parse_digits.induct)
    (auto simp: Let_def split: option.splits if_splits)

lemma parse_i32_range: "parse_i32 s = Inr n \<Longrightarrow> is_i32 n"
  using parse_digits_range [of 0]
  by (auto simp: parse_i32_def is_i32_def i32_min_def i32_max_def
      simp del: parse_digits.simps split: list.splits if_splits)

lemma parse_i32_show_int: "is_i32 n \<Longrightarrow> parse_i32 (show_int n) = Inr n"
proof (cases "n < 0")
  case True
  assume n: "is_i32 n"
  obtain d cs where s: "show_nat (nat (- n)) = digit_char d # cs" using show_nat_hd by blast
  have "parse_digits True 0 (show_nat (nat (- n))) = Inr n"
    using True n parse_digits_show_nat [of True "nat (- n)"] by simp
  then show ?thesis using True s by (simp add: parse_i32_def show_int_def)
next
  case False
  assume n: "is_i32 n"
  obtain d cs where s: "show_nat (nat n) = digit_char d # cs" and d: "d < 10"
    using show_nat_hd by blast
  have "parse_digits False 0 (show_nat (nat n)) = Inr n"
    using False n parse_digits_show_nat [of False "nat n"] by simp
  then show ?thesis
    using False s digit_char_not_sign [OF d] by (simp add: parse_i32_def show_int_def)
qed

lemma split_char_Nil [simp]: "split_char sep cs \<noteq> []"
  by (induction cs) (auto split: list.splits)

lemma split_char_no_sep: "sep \<notin> set p \<Longrightarrow> split_char sep p = [p]"
  by (induction p) auto

lemma split_char_append:
  "sep \<notin> set p \<Longrightarrow> split_char sep (p @ sep # q) = p # split_char sep q"
  by (induction p) auto

lemma split_join:
  assumes "xs \<noteq> []" and "\<forall>x\<in>set xs. sep \<notin> set x"
  shows "split_char sep (join_with [sep] xs) = xs"
  using assms
  by (induction "[sep]" xs rule: join_with.induct)
    (auto simp: split_char_no_sep split_char_append)

end
