(* ===== verification/Kernel.thy ===== *)
theory Kernel
  imports Rust_Text "HOL-Library.Word"
begin

text \<open>
  What the program asks of code outside the repository: the system calls behind \<open>nix\<close>,
  \<open>os_pipe\<close>, \<open>socket2\<close>, \<open>tempfile\<close>, \<open>tokio\<close> and the
  system-dependent part of the standard library. They are the fields of the record \<open>os\<close>, over a
  world \<open>'w\<close> of which the model knows nothing; every definition of the development that reaches
  the system takes such a record.

  What the code relies on is stated as laws of locales over an \<open>os\<close> and a view of the world:
  \<open>posix_fds\<close> (the descriptor table of a process: \<open>fcntl(2)\<close>,
  \<open>close(2)\<close>), \<open>posix_sockets\<close> (which calls create descriptors),
  \<open>posix_files\<close> (temporary files and rename). The predicates the locales define are the named
  hypotheses of the properties. \<open>kern\<close> is an executable kernel with a descriptor table, a limit
  on open files, bound names and a file system; it satisfies every law, and the concrete runs of the
  development evaluate on it.
\<close>

subsection \<open>Data\<close>

text \<open>\<open>std::net::SocketAddr\<close>; equality compares every field.\<close>

datatype socket_addr =
    SockV4 (ip4: "32 word") (port4: "16 word")
  | SockV6 (ip6: "128 word") (port6: "16 word") (flowinfo: "32 word") (scope_id: "32 word")

datatype sock_domain = DomainIPV4 | DomainIPV6

datatype sock_type = STREAM | DGRAM

text \<open>\<open>socket2::Domain::for_address\<close>.\<close>

fun domain_for_address :: "socket_addr \<Rightarrow> sock_domain" where
  "domain_for_address (SockV4 _ _) = DomainIPV4"
| "domain_for_address (SockV6 _ _ _ _) = DomainIPV6"

text \<open>An entry of a descriptor table: the close-on-exec flag and the open file description it
  refers to. Descriptors that share a description are the same socket.\<close>

record fdesc =
  cloexec :: bool
  ofd :: nat

type_synonym fdtable = "fd \<rightharpoonup> fdesc"

definition ofds :: "fdtable \<Rightarrow> nat set" where
  "ofds t = ofd ` ran t"

text \<open>A call created one descriptor, on a new description, with close-on-exec set.\<close>

definition opens_fresh :: "fdtable \<Rightarrow> fd \<Rightarrow> fdtable \<Rightarrow> bool" where
  "opens_fresh t fd t' \<longleftrightarrow>
    t fd = None \<and> (\<exists>k. k \<notin> ofds t \<and> t' = t(fd \<mapsto> \<lparr>cloexec = True, ofd = k\<rparr>))"

text \<open>\<open>execve(2)\<close> closes the descriptors whose flag is set.\<close>

definition exec_fdtable :: "fdtable \<Rightarrow> fdtable" where
  "exec_fdtable t = (\<lambda>fd. case t fd of None \<Rightarrow> None | Some d \<Rightarrow> if cloexec d then None else Some d)"

text \<open>The environment of a process: values need not be Unicode.\<close>

datatype env_value = EnvText string | EnvNotUnicode

type_synonym environment = "string \<rightharpoonup> env_value"

subsection \<open>The operations\<close>

record 'w os =
  sys_getfd :: "fd \<Rightarrow> 'w \<Rightarrow> int + int"
  sys_setfd :: "fd \<Rightarrow> int \<Rightarrow> 'w \<Rightarrow> (int + unit) \<times> 'w"
  sys_dupfd_cloexec :: "fd \<Rightarrow> fd \<Rightarrow> 'w \<Rightarrow> (int + fd) \<times> 'w"
  sys_close :: "fd \<Rightarrow> 'w \<Rightarrow> (int + unit) \<times> 'w"
  sys_getpid :: "'w \<Rightarrow> int"
  tempfile_in :: "path \<Rightarrow> 'w \<Rightarrow> (io_error + path) \<times> 'w"
  tempfile_write_all :: "path \<Rightarrow> string \<Rightarrow> 'w \<Rightarrow> (io_error + unit) \<times> 'w"
  tempfile_persist :: "path \<Rightarrow> path \<Rightarrow> 'w \<Rightarrow> (io_error + unit) \<times> 'w"
  tempfile_drop :: "path \<Rightarrow> 'w \<Rightarrow> 'w"
  unix_bind :: "path \<Rightarrow> 'w \<Rightarrow> (io_error + fd) \<times> 'w"
  seqpacket_bind :: "path \<Rightarrow> 'w \<Rightarrow> (io_error + fd) \<times> 'w"
  seqpacket_from_raw_fd :: "fd \<Rightarrow> 'w \<Rightarrow> (io_error + fd) \<times> 'w"
  socket_new :: "sock_domain \<Rightarrow> sock_type \<Rightarrow> 'w \<Rightarrow> (io_error + fd) \<times> 'w"
  socket_bind :: "fd \<Rightarrow> socket_addr \<Rightarrow> 'w \<Rightarrow> (io_error + unit) \<times> 'w"
  socket_listen :: "fd \<Rightarrow> int \<Rightarrow> 'w \<Rightarrow> (io_error + unit) \<times> 'w"
  inet_local_addr :: "fd \<Rightarrow> 'w \<Rightarrow> io_error + socket_addr"
  unix_local_pathname :: "fd \<Rightarrow> 'w \<Rightarrow> io_error + path option"
  seqpacket_local_addr :: "fd \<Rightarrow> 'w \<Rightarrow> io_error + path"
  datagram_pair :: "'w \<Rightarrow> (io_error + fd \<times> fd) \<times> 'w"
  os_pipe :: "'w \<Rightarrow> (io_error + fd \<times> fd) \<times> 'w"
  pipe_recv :: "fd \<Rightarrow> 'w \<Rightarrow> (io_error + string) \<times> 'w"
  pipe_write_all :: "fd \<Rightarrow> string \<Rightarrow> 'w \<Rightarrow> (io_error + unit) \<times> 'w"
  sys_getfl :: "fd \<Rightarrow> 'w \<Rightarrow> int + int"
  sys_setfl :: "fd \<Rightarrow> int \<Rightarrow> 'w \<Rightarrow> (int + unit) \<times> 'w"
  oflag_from_bits :: "int \<Rightarrow> int option"
  std_set_nonblocking :: "fd \<Rightarrow> bool \<Rightarrow> 'w \<Rightarrow> (io_error + unit) \<times> 'w"
  tokio_from_std :: "fd \<Rightarrow> 'w \<Rightarrow> (io_error + unit) \<times> 'w"
  current_dir :: "'w \<Rightarrow> io_error + path"
  sys_fork :: "'w \<Rightarrow> (io_error + int \<times> 'w) \<times> 'w"
  sys_execve :: "string \<Rightarrow> string list \<Rightarrow> path \<Rightarrow> environment \<Rightarrow> 'w \<Rightarrow> (io_error + unit) \<times> 'w"
  fmt_io_debug :: "io_error \<Rightarrow> string"
  fmt_io_display :: "io_error \<Rightarrow> string"
  dgram_unbound :: "'w \<Rightarrow> (io_error + fd) \<times> 'w"
  dgram_connect :: "fd \<Rightarrow> path \<Rightarrow> 'w \<Rightarrow> (io_error + unit) \<times> 'w"
  dgram_send :: "fd \<Rightarrow> string \<Rightarrow> 'w \<Rightarrow> (io_error + unit) \<times> 'w"
  clock_monotonic :: "'w \<Rightarrow> int + nat \<times> nat"
  remove_file :: "path \<Rightarrow> 'w \<Rightarrow> (io_error + unit) \<times> 'w"
  uds_next :: "fd \<Rightarrow> 'w \<Rightarrow> (io_error + fd) option poll \<times> 'w"
  socket_set_only_v6 :: "fd \<Rightarrow> bool \<Rightarrow> 'w \<Rightarrow> (io_error + unit) \<times> 'w"
  socket_set_reuse_address :: "fd \<Rightarrow> bool \<Rightarrow> 'w \<Rightarrow> (io_error + unit) \<times> 'w"

subsection \<open>Laws: the descriptor table\<close>

locale posix_fds =
  fixes os :: "'w os"
    and fdt :: "'w \<Rightarrow> fdtable"
  assumes fd_range: "fdt w fd = Some d \<Longrightarrow> 0 \<le> fd \<and> is_i32 fd"
    and getfd_open: "fdt w fd = Some d \<Longrightarrow> sys_getfd os fd w = Inr (if cloexec d then 1 else 0)"
    and getfd_closed: "fdt w fd = None \<Longrightarrow> \<exists>e. sys_getfd os fd w = Inl e"
    and setfd_open: "fdt w fd = Some d \<Longrightarrow>
      \<exists>w'. sys_setfd os fd n w = (Inr (), w') \<and> fdt w' = (fdt w)(fd \<mapsto> d\<lparr>cloexec := odd n\<rparr>)"
    and dup_ok: "sys_dupfd_cloexec os fd m w = (Inr n, w') \<Longrightarrow>
      m \<le> n \<and> fdt w n = None \<and> (\<exists>d. fdt w fd = Some d \<and> fdt w' = (fdt w)(n \<mapsto> d\<lparr>cloexec := True\<rparr>))"
    and dup_err: "sys_dupfd_cloexec os fd m w = (Inl e, w') \<Longrightarrow> fdt w' = fdt w"
    and close_gone: "fdt (snd (sys_close os fd w)) = (fdt w)(fd := None)"

subsection \<open>Laws: calls that create descriptors\<close>

locale posix_sockets = posix_fds +
  assumes unix_bind_ok: "unix_bind os p w = (Inr fd, w') \<Longrightarrow> opens_fresh (fdt w) fd (fdt w')"
    and unix_bind_err: "unix_bind os p w = (Inl e, w') \<Longrightarrow> fdt w' = fdt w"
    and seqpacket_bind_ok:
      "seqpacket_bind os p w = (Inr fd, w') \<Longrightarrow> opens_fresh (fdt w) fd (fdt w')"
    and seqpacket_bind_err: "seqpacket_bind os p w = (Inl e, w') \<Longrightarrow> fdt w' = fdt w"
    and socket_new_ok: "socket_new os dm ty w = (Inr fd, w') \<Longrightarrow> opens_fresh (fdt w) fd (fdt w')"
    and socket_new_err: "socket_new os dm ty w = (Inl e, w') \<Longrightarrow> fdt w' = fdt w"
    and socket_bind_fds: "fdt (snd (socket_bind os fd a w)) = fdt w"
    and set_only_v6_fds: "fdt (snd (socket_set_only_v6 os fd bl w)) = fdt w"
    and set_reuse_fds: "fdt (snd (socket_set_reuse_address os fd bl w)) = fdt w"
    and socket_listen_fds: "fdt (snd (socket_listen os fd n w)) = fdt w"
    and datagram_pair_ok: "datagram_pair os w = (Inr (fd1, fd2), w') \<Longrightarrow>
      \<exists>t. opens_fresh (fdt w) fd1 t \<and> opens_fresh t fd2 (fdt w')"
    and datagram_pair_err: "datagram_pair os w = (Inl e, w') \<Longrightarrow> fdt w' = fdt w"
    and pipe_ok: "os_pipe os w = (Inr (fd1, fd2), w') \<Longrightarrow>
      \<exists>t. opens_fresh (fdt w) fd1 t \<and> opens_fresh t fd2 (fdt w')"
    and pipe_err: "os_pipe os w = (Inl e, w') \<Longrightarrow> fdt w' = fdt w"
    and pipe_recv_fds: "fdt (snd (pipe_recv os fd w)) = fdt w"
    and pipe_write_fds: "fdt (snd (pipe_write_all os fd b w)) = fdt w"
    and setfl_fds: "fdt (snd (sys_setfl os fd n w)) = fdt w"
    and set_nonblocking_fds: "fdt (snd (std_set_nonblocking os fd bl w)) = fdt w"
    and from_std_fds: "fdt (snd (tokio_from_std os fd w)) = fdt w"
    and seqpacket_raw_ok: "seqpacket_from_raw_fd os fd w = (Inr fd', w') \<Longrightarrow> fd' = fd \<and> fdt w' = fdt w"
    and dgram_unbound_ok: "dgram_unbound os w = (Inr fd, w') \<Longrightarrow> opens_fresh (fdt w) fd (fdt w')"
    and dgram_unbound_err: "dgram_unbound os w = (Inl e, w') \<Longrightarrow> fdt w' = fdt w"
    and dgram_connect_fds: "fdt (snd (dgram_connect os fd p w)) = fdt w"
    and dgram_send_fds: "fdt (snd (dgram_send os fd b w)) = fdt w"
    and remove_file_fds: "fdt (snd (remove_file os p w)) = fdt w"
    and uds_next_conn: "uds_next os fd w = (Ready (Some (Inr c)), w') \<Longrightarrow> opens_fresh (fdt w) c (fdt w')"
    and uds_next_none: "uds_next os fd w = (pr, w') \<Longrightarrow> \<forall>c. pr \<noteq> Ready (Some (Inr c)) \<Longrightarrow> fdt w' = fdt w"
    and seqpacket_raw_err: "seqpacket_from_raw_fd os fd w = (Inl e, w') \<Longrightarrow> fdt w' = (fdt w)(fd := None)"

subsection \<open>Laws: processes\<close>

text \<open>\<open>fork(2)\<close> copies the descriptor table, \<open>execve(2)\<close> closes what is close-on-exec. A failed
  \<open>execve\<close> leaves the table as it is.\<close>

locale posix_process = posix_fds +
  assumes fork_ok: "sys_fork os w = (Inr (pid, cw), w') \<Longrightarrow> fdt cw = fdt w \<and> fdt w' = fdt w"
    and fork_err: "sys_fork os w = (Inl e, w') \<Longrightarrow> fdt w' = fdt w"
    and execve_ok: "sys_execve os prog args dir env w = (Inr (), w') \<Longrightarrow> fdt w' = exec_fdtable (fdt w)"

locale posix = posix_sockets + posix_process

subsection \<open>Laws: temporary files\<close>

text \<open>\<open>tempfile_in\<close> creates an empty file under an unused name, \<open>write_all\<close> touches that file
  only, \<open>persist\<close> is a rename that either happens or changes nothing, and dropping the handle
  removes the file.\<close>

locale posix_files =
  fixes os :: "'w os"
    and fs :: "'w \<Rightarrow> path \<rightharpoonup> string"
  assumes tempfile_ok: "tempfile_in os dir w = (Inr p, w') \<Longrightarrow> fs w p = None \<and> fs w' = (fs w)(p \<mapsto> [])"
    and tempfile_err: "tempfile_in os dir w = (Inl e, w') \<Longrightarrow> fs w' = fs w"
    and write_ok: "tempfile_write_all os p b w = (Inr (), w') \<Longrightarrow> fs w p = Some c \<Longrightarrow>
      fs w' = (fs w)(p \<mapsto> c @ b)"
    and write_err: "tempfile_write_all os p b w = (Inl e, w') \<Longrightarrow> \<exists>c. fs w' = (fs w)(p := c)"
    and persist_ok: "tempfile_persist os p q w = (Inr (), w') \<Longrightarrow>
      fs w' = (fs w)(p := None, q := fs w p)"
    and persist_err: "tempfile_persist os p q w = (Inl e, w') \<Longrightarrow> fs w' = fs w"
    and drop_gone: "fs (tempfile_drop os p w) = (fs w)(p := None)"
    and close_files: "fs (snd (sys_close os fd w)) = fs w"

subsection \<open>Facts on descriptor tables\<close>

lemma opens_freshD:
  assumes "opens_fresh t fd t'"
  shows "t fd = None" and "\<exists>k. t' fd = Some \<lparr>cloexec = True, ofd = k\<rparr> \<and> k \<notin> ofds t"
    and "fd' \<noteq> fd \<Longrightarrow> t' fd' = t fd'" and "t'(fd := None) = t"
  using assms by (auto simp: opens_fresh_def fun_upd_idem)

lemma exec_fdtable_Some_iff [simp]:
  "exec_fdtable t fd = Some d \<longleftrightarrow> t fd = Some d \<and> \<not> cloexec d"
  by (auto simp: exec_fdtable_def split: option.splits)

lemma ofds_new_entry [simp]: "t fd = None \<Longrightarrow> ofds (t(fd \<mapsto> d)) = insert (ofd d) (ofds t)"
  by (simp add: ofds_def)

lemma ofd_in_ofds: "t fd = Some d \<Longrightarrow> ofd d \<in> ofds t"
  by (auto simp: ofds_def ran_def)

subsection \<open>An executable kernel\<close>

text \<open>The descriptor table is a list of entries, newest first; descriptors outside
  \<open>0 .. 65535\<close> do not exist. A bound name keeps its description. \<open>k_full\<close> makes writes fail, as a
  full disk does. Port 0 is replaced by a free port, as \<open>bind(2)\<close> does.\<close>

datatype kname = KPath path | KInet socket_addr

record kworld =
  k_fds :: "(fd \<times> fdesc) list"
  k_nofile :: int
  k_pid :: int
  k_names :: "(nat \<times> kname) list"
  k_files :: "(path \<times> string) list"
  k_full :: bool
  k_inbox :: "(fd \<times> string) list"
  k_outbox :: "(fd \<times> string) list"

definition EBADF :: int where "EBADF = 9"
definition EMFILE :: int where "EMFILE = 24"
definition EADDRINUSE :: int where "EADDRINUSE = 98"
definition EINVAL :: int where "EINVAL = 22"
definition ENOSPC :: int where "ENOSPC = 28"
definition ENOENT :: int where "ENOENT = 2"

definition k_fdt :: "kworld \<Rightarrow> fdtable" where
  "k_fdt w = (\<lambda>fd. if 0 \<le> fd \<and> fd < 65536 then map_of (k_fds w) fd else None)"

definition k_put :: "fd \<Rightarrow> fdesc \<Rightarrow> kworld \<Rightarrow> kworld" where
  "k_put fd d w = w\<lparr>k_fds := (fd, d) # filter (\<lambda>e. fst e \<noteq> fd) (k_fds w)\<rparr>"

definition k_free :: "kworld \<Rightarrow> fd \<Rightarrow> fd option" where
  "k_free w m = find (\<lambda>i. k_fdt w i = None) [max 0 m..min (k_nofile w) 65536 - 1]"

definition k_new_ofd :: "kworld \<Rightarrow> nat" where
  "k_new_ofd w = Suc (fold max (map (ofd \<circ> snd) (k_fds w) @ map fst (k_names w)) 0)"

definition k_getfd :: "fd \<Rightarrow> kworld \<Rightarrow> int + int" where
  "k_getfd fd w = (case k_fdt w fd of None \<Rightarrow> Inl EBADF | Some d \<Rightarrow> Inr (if cloexec d then 1 else 0))"

definition k_setfd :: "fd \<Rightarrow> int \<Rightarrow> kworld \<Rightarrow> (int + unit) \<times> kworld" where
  "k_setfd fd n w = (case k_fdt w fd of
      None \<Rightarrow> (Inl EBADF, w)
    | Some d \<Rightarrow> (Inr (), k_put fd (d\<lparr>cloexec := odd n\<rparr>) w))"

definition k_dup :: "fd \<Rightarrow> fd \<Rightarrow> kworld \<Rightarrow> (int + fd) \<times> kworld" where
  "k_dup fd m w = (case k_fdt w fd of
      None \<Rightarrow> (Inl EBADF, w)
    | Some d \<Rightarrow> (case k_free w m of
          None \<Rightarrow> (Inl EMFILE, w)
        | Some n \<Rightarrow> (Inr n, k_put n (d\<lparr>cloexec := True\<rparr>) w)))"

definition k_close :: "fd \<Rightarrow> kworld \<Rightarrow> (int + unit) \<times> kworld" where
  "k_close fd w = (case k_fdt w fd of
      None \<Rightarrow> (Inl EBADF, w)
    | Some d \<Rightarrow> (Inr (), w\<lparr>k_fds := filter (\<lambda>e. fst e \<noteq> fd) (k_fds w)\<rparr>))"

definition k_open :: "kworld \<Rightarrow> (io_error + fd) \<times> kworld" where
  "k_open w = (case k_free w 0 of
      None \<Rightarrow> (Inl (OsError EMFILE), w)
    | Some n \<Rightarrow> (Inr n, k_put n \<lparr>cloexec = True, ofd = k_new_ofd w\<rparr> w))"

definition k_open2 :: "kworld \<Rightarrow> (io_error + fd \<times> fd) \<times> kworld" where
  "k_open2 w = (case k_open w of
      (Inl e, w') \<Rightarrow> (Inl e, w)
    | (Inr a, w') \<Rightarrow> (case k_open w' of
          (Inl e, w'') \<Rightarrow> (Inl e, w)
        | (Inr b, w'') \<Rightarrow> (Inr (a, b), w'')))"

definition k_name_of :: "kworld \<Rightarrow> fd \<Rightarrow> kname option" where
  "k_name_of w fd = (case k_fdt w fd of None \<Rightarrow> None | Some d \<Rightarrow> map_of (k_names w) (ofd d))"

definition k_path_bind :: "path \<Rightarrow> kworld \<Rightarrow> (io_error + fd) \<times> kworld" where
  "k_path_bind p w = (if KPath p \<in> snd ` set (k_names w) then (Inl (OsError EADDRINUSE), w)
     else (case k_open w of
        (Inl e, w') \<Rightarrow> (Inl e, w')
      | (Inr fd, w') \<Rightarrow> (Inr fd, w'\<lparr>k_names := (k_new_ofd w, KPath p) # k_names w'\<rparr>)))"

fun k_with_port :: "16 word \<Rightarrow> socket_addr \<Rightarrow> socket_addr" where
  "k_with_port n (SockV4 ip q) = SockV4 ip (if q = 0 then n else q)"
| "k_with_port n (SockV6 ip q f s) = SockV6 ip (if q = 0 then n else q) f s"

definition k_inet_bind :: "fd \<Rightarrow> socket_addr \<Rightarrow> kworld \<Rightarrow> (io_error + unit) \<times> kworld" where
  "k_inet_bind fd a w = (case k_fdt w fd of
      None \<Rightarrow> (Inl (OsError EBADF), w)
    | Some d \<Rightarrow>
        (let b = k_with_port (40000 + of_nat (length (k_names w))) a
         in if KInet b \<in> snd ` set (k_names w) then (Inl (OsError EADDRINUSE), w)
            else (Inr (), w\<lparr>k_names := (ofd d, KInet b) # k_names w\<rparr>)))"

definition k_listen :: "fd \<Rightarrow> int \<Rightarrow> kworld \<Rightarrow> (io_error + unit) \<times> kworld" where
  "k_listen fd n w = (case k_fdt w fd of None \<Rightarrow> (Inl (OsError EBADF), w) | Some d \<Rightarrow> (Inr (), w))"

definition k_inet_name :: "fd \<Rightarrow> kworld \<Rightarrow> io_error + socket_addr" where
  "k_inet_name fd w =
    (case k_name_of w fd of Some (KInet a) \<Rightarrow> Inr a | _ \<Rightarrow> Inl (OsError EINVAL))"

definition k_path_name :: "fd \<Rightarrow> kworld \<Rightarrow> io_error + path" where
  "k_path_name fd w =
    (case k_name_of w fd of Some (KPath p) \<Rightarrow> Inr p | _ \<Rightarrow> Inl (OsError EINVAL))"

definition k_unix_name :: "fd \<Rightarrow> kworld \<Rightarrow> io_error + path option" where
  "k_unix_name fd w = (case k_fdt w fd of
      None \<Rightarrow> Inl (OsError EBADF)
    | Some d \<Rightarrow> (case k_name_of w fd of Some (KPath p) \<Rightarrow> Inr (Some p) | _ \<Rightarrow> Inr None))"

definition k_fs :: "kworld \<Rightarrow> path \<rightharpoonup> string" where
  "k_fs w = map_of (k_files w)"

definition k_tempfile :: "path \<Rightarrow> kworld \<Rightarrow> (io_error + path) \<times> kworld" where
  "k_tempfile dir w =
    (let p = dir @ ''/.tmp'' @ concat (map (\<lambda>e. CHR ''x'' # fst e) (k_files w))
     in if k_fs w p = None then (Inr p, w\<lparr>k_files := (p, []) # k_files w\<rparr>)
        else (Inl (OsError EADDRINUSE), w))"

definition k_write :: "path \<Rightarrow> string \<Rightarrow> kworld \<Rightarrow> (io_error + unit) \<times> kworld" where
  "k_write p b w =
    (if k_full w then (Inl (OsError ENOSPC), w)
     else (case k_fs w p of
         None \<Rightarrow> (Inl (OsError EBADF), w)
       | Some c \<Rightarrow> (Inr (), w\<lparr>k_files := (p, c @ b) # k_files w\<rparr>)))"

definition k_unlink :: "path \<Rightarrow> kworld \<Rightarrow> kworld" where
  "k_unlink p w = w\<lparr>k_files := filter (\<lambda>e. fst e \<noteq> p) (k_files w)\<rparr>"

definition k_remove :: "path \<Rightarrow> kworld \<Rightarrow> (io_error + unit) \<times> kworld" where
  "k_remove p w = (case k_fs w p of None \<Rightarrow> (Inl (OsError ENOENT), w) | Some c \<Rightarrow> (Inr (), k_unlink p w))"

definition k_rename :: "path \<Rightarrow> path \<Rightarrow> kworld \<Rightarrow> (io_error + unit) \<times> kworld" where
  "k_rename p q w = (case k_fs w p of
      None \<Rightarrow> (Inl (OsError ENOENT), w)
    | Some c \<Rightarrow> if p = q then (Inl (OsError EINVAL), w)
        else (Inr (), (k_unlink p w)\<lparr>k_files := (q, c) # k_files (k_unlink p w)\<rparr>))"

definition k_recv :: "fd \<Rightarrow> kworld \<Rightarrow> (io_error + string) \<times> kworld" where
  "k_recv fd w = (case k_fdt w fd of
      None \<Rightarrow> (Inl (OsError EBADF), w)
    | Some d \<Rightarrow> (case map_of (k_inbox w) fd of
          None \<Rightarrow> (Inr [], w)
        | Some b \<Rightarrow> (Inr b, w\<lparr>k_inbox := filter (\<lambda>e. fst e \<noteq> fd) (k_inbox w)\<rparr>)))"

definition k_send :: "fd \<Rightarrow> string \<Rightarrow> kworld \<Rightarrow> (io_error + unit) \<times> kworld" where
  "k_send fd b w = (case k_fdt w fd of
      None \<Rightarrow> (Inl (OsError EBADF), w)
    | Some d \<Rightarrow> (Inr (), w\<lparr>k_outbox := k_outbox w @ [(fd, b)]\<rparr>))"

text \<open>A connection waits on a listener whose inbox is not empty.\<close>

definition k_accept :: "fd \<Rightarrow> kworld \<Rightarrow> (io_error + fd) option poll \<times> kworld" where
  "k_accept fd w = (case map_of (k_inbox w) fd of
      None \<Rightarrow> (Pending, w)
    | Some b \<Rightarrow> (case k_open w of
          (Inl e, w') \<Rightarrow> (Ready (Some (Inl e)), w)
        | (Inr c, w') \<Rightarrow> (Ready (Some (Inr c)), w'\<lparr>k_inbox := filter (\<lambda>e. fst e \<noteq> fd) (k_inbox w')\<rparr>)))"

definition k_getfl :: "fd \<Rightarrow> kworld \<Rightarrow> int + int" where
  "k_getfl fd w = (case k_fdt w fd of None \<Rightarrow> Inl EBADF | Some d \<Rightarrow> Inr 2)"

definition k_touch :: "fd \<Rightarrow> kworld \<Rightarrow> (io_error + unit) \<times> kworld" where
  "k_touch fd w = (case k_fdt w fd of None \<Rightarrow> (Inl (OsError EBADF), w) | Some d \<Rightarrow> (Inr (), w))"

definition k_setfl :: "fd \<Rightarrow> int \<Rightarrow> kworld \<Rightarrow> (int + unit) \<times> kworld" where
  "k_setfl fd n w = (case k_fdt w fd of None \<Rightarrow> (Inl EBADF, w) | Some d \<Rightarrow> (Inr (), w))"

definition k_fork :: "kworld \<Rightarrow> (io_error + int \<times> kworld) \<times> kworld" where
  "k_fork w = (Inr (k_pid w + 1, w\<lparr>k_pid := k_pid w + 1\<rparr>), w)"

definition k_exec :: "kworld \<Rightarrow> kworld" where
  "k_exec w = w\<lparr>k_fds := filter (\<lambda>e. exec_fdtable (k_fdt w) (fst e) \<noteq> None) (k_fds w)\<rparr>"

definition kern :: "kworld os" where
  "kern = \<lparr>sys_getfd = k_getfd, sys_setfd = k_setfd, sys_dupfd_cloexec = k_dup, sys_close = k_close,
     sys_getpid = k_pid, tempfile_in = k_tempfile, tempfile_write_all = k_write,
     tempfile_persist = k_rename, tempfile_drop = k_unlink,
     unix_bind = k_path_bind, seqpacket_bind = k_path_bind,
     seqpacket_from_raw_fd = (\<lambda>fd w. (Inr fd, w)),
     socket_new = (\<lambda>_ _. k_open), socket_bind = k_inet_bind, socket_listen = k_listen,
     inet_local_addr = k_inet_name, unix_local_pathname = k_unix_name,
     seqpacket_local_addr = k_path_name, datagram_pair = k_open2, os_pipe = k_open2,
     pipe_recv = k_recv, pipe_write_all = k_send, sys_getfl = k_getfl, sys_setfl = k_setfl,
     oflag_from_bits = Some, std_set_nonblocking = (\<lambda>fd b. k_touch fd), tokio_from_std = k_touch,
     current_dir = (\<lambda>w. Inr ''/srv''), sys_fork = k_fork,
     sys_execve = (\<lambda>prog args dir env w. (Inr (), k_exec w)), fmt_io_debug = (\<lambda>e. ''io error''),
     fmt_io_display = (\<lambda>e. ''io error''), dgram_unbound = k_open, dgram_connect = (\<lambda>fd p. k_touch fd),
     dgram_send = k_send, clock_monotonic = (\<lambda>w. Inr (7, 5000)), remove_file = k_remove,
     uds_next = k_accept, socket_set_only_v6 = (\<lambda>fd b. k_touch fd), socket_set_reuse_address = (\<lambda>fd b. k_touch fd)\<rparr>"

text \<open>Unfolding the kernel in a concrete run.\<close>

lemmas kern_eval =
  kern_def k_getfd_def k_setfd_def k_dup_def k_close_def k_open_def k_open2_def k_name_of_def
  k_path_bind_def k_inet_bind_def k_listen_def k_inet_name_def k_path_name_def k_unix_name_def
  k_fdt_def k_put_def k_free_def k_new_ofd_def k_fs_def k_tempfile_def k_write_def k_unlink_def
  k_rename_def k_remove_def k_accept_def k_recv_def k_send_def k_getfl_def k_setfl_def k_touch_def k_fork_def k_exec_def EBADF_def EMFILE_def EADDRINUSE_def EINVAL_def ENOSPC_def ENOENT_def

subsection \<open>The kernel satisfies the laws\<close>

lemma map_of_filter_key: "map_of (filter (\<lambda>e. fst e \<noteq> k) xs) = (map_of xs)(k := None)"
  by (induction xs) (auto simp: fun_eq_iff)

lemma map_of_filter_keys:
  "map_of (filter (\<lambda>e. Q (fst e)) xs) k = (if Q k then map_of xs k else None)"
  by (induction xs) auto

lemma k_fdt_put: "0 \<le> fd \<Longrightarrow> fd < 65536 \<Longrightarrow> k_fdt (k_put fd d w) = (k_fdt w)(fd \<mapsto> d)"
  by (auto simp: k_fdt_def k_put_def fun_eq_iff map_of_filter_key)

lemma k_fdt_SomeD: "k_fdt w fd = Some d \<Longrightarrow> 0 \<le> fd \<and> fd < 65536"
  by (auto simp: k_fdt_def split: if_splits)

lemma find_SomeD: "find P xs = Some x \<Longrightarrow> x \<in> set xs \<and> P x"
  by (induction xs) (auto split: if_splits)

lemma k_freeD:
  "k_free w m = Some n \<Longrightarrow> m \<le> n \<and> 0 \<le> n \<and> n < 65536 \<and> k_fdt w n = None"
  by (auto simp: k_free_def dest!: find_SomeD)

lemma k_new_ofd_fresh: "k_new_ofd w \<notin> ofds (k_fdt w)"
proof
  assume "k_new_ofd w \<in> ofds (k_fdt w)"
  then obtain fd d where "k_fdt w fd = Some d" and d: "ofd d = k_new_ofd w"
    by (auto simp: ofds_def ran_def)
  then have "(fd, d) \<in> set (k_fds w)" by (auto simp: k_fdt_def dest: map_of_SomeD split: if_splits)
  then have "ofd d \<in> set (map (ofd \<circ> snd) (k_fds w) @ map fst (k_names w))" by force
  then have "ofd d < k_new_ofd w" unfolding k_new_ofd_def by (metis fold_max_ge le_imp_less_Suc)
  with d show False by simp
qed

lemma k_open_ok: "k_open w = (Inr fd, w') \<Longrightarrow> opens_fresh (k_fdt w) fd (k_fdt w')"
  using k_new_ofd_fresh [of w] k_freeD [of w 0 fd]
  by (auto simp: k_open_def opens_fresh_def k_fdt_put split: option.splits)

lemma k_open_err: "k_open w = (Inl e, w') \<Longrightarrow> k_fdt w' = k_fdt w"
  by (auto simp: k_open_def split: option.splits)

lemma k_open2_ok: "k_open2 w = (Inr (a, b), w') \<Longrightarrow>
    \<exists>t. opens_fresh (k_fdt w) a t \<and> opens_fresh t b (k_fdt w')"
  by (auto simp: k_open2_def split: prod.splits sum.splits dest!: k_open_ok)

lemma k_open2_err: "k_open2 w = (Inl e, w') \<Longrightarrow> k_fdt w' = k_fdt w"
  by (auto simp: k_open2_def split: prod.splits sum.splits)

lemma k_fdt_names [simp]: "k_fdt (w\<lparr>k_names := ns\<rparr>) = k_fdt w"
  by (simp add: k_fdt_def fun_eq_iff)

lemma k_path_bind_ok: "k_path_bind p w = (Inr fd, w') \<Longrightarrow> opens_fresh (k_fdt w) fd (k_fdt w')"
  by (auto simp: k_path_bind_def split: prod.splits sum.splits if_splits dest: k_open_ok)

lemma k_path_bind_err: "k_path_bind p w = (Inl e, w') \<Longrightarrow> k_fdt w' = k_fdt w"
  by (auto simp: k_path_bind_def split: prod.splits sum.splits if_splits dest: k_open_err)

interpretation kern_fds: posix_fds kern k_fdt
proof unfold_locales
  fix w fd d assume "k_fdt w fd = Some d"
  then show "0 \<le> fd \<and> is_i32 fd"
    by (auto dest!: k_fdt_SomeD simp: is_i32_def i32_min_def i32_max_def)
next
  fix w fd d n assume "k_fdt w fd = Some d"
  then show "\<exists>w'. sys_setfd kern fd n w = (Inr (), w') \<and>
      k_fdt w' = (k_fdt w)(fd \<mapsto> d\<lparr>cloexec := odd n\<rparr>)"
    using k_fdt_SomeD [of w fd d] by (simp add: kern_def k_setfd_def k_fdt_put)
next
  fix fd m w n w' assume "sys_dupfd_cloexec kern fd m w = (Inr n, w')"
  then show "m \<le> n \<and> k_fdt w n = None \<and>
      (\<exists>d. k_fdt w fd = Some d \<and> k_fdt w' = (k_fdt w)(n \<mapsto> d\<lparr>cloexec := True\<rparr>))"
    using k_freeD [of w m n] by (auto simp: kern_def k_dup_def k_fdt_put split: option.splits)
qed (auto simp: kern_def k_getfd_def k_setfd_def k_dup_def k_close_def k_fdt_put k_fdt_def
    map_of_filter_key fun_eq_iff dest: k_fdt_SomeD split: option.splits if_splits)

lemma k_fdt_boxes [simp]:
  "k_fdt (w\<lparr>k_inbox := b\<rparr>) = k_fdt w" "k_fdt (w\<lparr>k_outbox := b\<rparr>) = k_fdt w"
  "k_fdt (w\<lparr>k_pid := n\<rparr>) = k_fdt w"
  by (simp_all add: k_fdt_def fun_eq_iff)

lemma k_fdt_exec: "k_fdt (k_exec w) = exec_fdtable (k_fdt w)"
proof
  fix fd
  show "k_fdt (k_exec w) fd = exec_fdtable (k_fdt w) fd"
    using map_of_filter_keys [of "\<lambda>k. exec_fdtable (k_fdt w) k \<noteq> None" "k_fds w" fd]
    by (auto simp: k_fdt_def k_exec_def exec_fdtable_def split: option.splits if_splits)
qed

interpretation kern_process: posix_process kern k_fdt
  by unfold_locales (auto simp: kern_def k_fork_def k_fdt_exec)

lemma k_fdt_files [simp]: "k_fdt (w\<lparr>k_files := fs\<rparr>) = k_fdt w"
  by (simp add: k_fdt_def fun_eq_iff)

interpretation kern_sockets: posix_sockets kern k_fdt
  by unfold_locales
    (auto simp: kern_def k_remove_def k_unlink_def k_accept_def k_inet_bind_def k_listen_def k_recv_def k_send_def k_setfl_def k_touch_def
      Let_def split: option.splits prod.splits sum.splits
      dest: k_open_ok k_open_err k_open2_ok k_open2_err k_path_bind_ok k_path_bind_err)

interpretation kern: posix kern k_fdt
  by unfold_locales

interpretation kern_files: posix_files kern k_fs
  by unfold_locales
    (auto simp: kern_def k_tempfile_def k_write_def k_rename_def k_unlink_def k_close_def k_fs_def Let_def
      map_of_filter_key fun_eq_iff split: option.splits if_splits)

subsection \<open>A world to run in\<close>

text \<open>A process with its three standard descriptors, started with pid 42 and at most 16 open files.\<close>

definition kw0 :: kworld where
  "kw0 = \<lparr>k_fds = [(0, \<lparr>cloexec = False, ofd = 0\<rparr>), (1, \<lparr>cloexec = False, ofd = 1\<rparr>),
       (2, \<lparr>cloexec = False, ofd = 2\<rparr>)],
     k_nofile = 16, k_pid = 42, k_names = [], k_files = [], k_full = False,
     k_inbox = [], k_outbox = []\<rparr>"

end
