(* ===== verification/Utils.thy ===== *)
theory Utils
  imports Kernel
begin

text \<open>
  \<open>src/utils.rs\<close>: the environment variable names, the descriptor helpers
  (\<open>set_cloexec\<close>, \<open>unset_cloexec\<close>, \<open>clone_fd\<close>,
  \<open>close_fd_quiet\<close>) and \<open>write_pid_file\<close>. Every \<open>expect\<close> and
  \<open>unwrap\<close> is a panic branch. Under \<open>posix_fds\<close> each helper changes exactly the
  table entry it is about; under \<open>posix_files\<close> the pid file is replaced atomically and no
  temporary file stays behind, on every branch.
\<close>

definition ENV_UPGRADE :: string where "ENV_UPGRADE = ''ECDYSIS_RUST_UPGRADE''"
definition ENV_PIPE_READY :: string where "ENV_PIPE_READY = ''ECDYSIS_RUST_PIPE_READY''"
definition ENV_PIPE_FDS :: string where "ENV_PIPE_FDS = ''ECDYSIS_RUST_PIPE_FDS''"
definition UPGRADE_TRUE_VAL :: string where "UPGRADE_TRUE_VAL = ''yes''"

subsection \<open>Descriptor flags\<close>

text \<open>\<open>nix::fcntl::FdFlag\<close> has one flag, \<open>FD_CLOEXEC\<close>, the value 1; \<open>from_bits\<close> rejects other bits.\<close>

definition fdflag_from_bits :: "int \<Rightarrow> int option" where
  "fdflag_from_bits n = (if n = 0 \<or> n = 1 then Some n else None)"

definition set_cloexec :: "'w os \<Rightarrow> fd \<Rightarrow> ('w, unit) prog" where
  "set_cloexec os fd = (\<lambda>w.
    case sys_getfd os fd w of
      Inl e \<Rightarrow> (Panic ''Failed to get info for file descriptor'', w)
    | Inr bits \<Rightarrow>
        (case fdflag_from_bits bits of
           None \<Rightarrow> (Panic ''unknown fd flags'', w)
         | Some flags \<Rightarrow> (Ret (), snd (sys_setfd os fd (or flags 1) w))))"

definition unset_cloexec :: "'w os \<Rightarrow> fd \<Rightarrow> ('w, unit) prog" where
  "unset_cloexec os fd = (\<lambda>w.
    case sys_getfd os fd w of
      Inl e \<Rightarrow> (Panic ''Failed to get info for file descriptor'', w)
    | Inr bits \<Rightarrow>
        (case fdflag_from_bits bits of
           None \<Rightarrow> (Panic ''called `Option::unwrap()` on a `None` value'', w)
         | Some flags \<Rightarrow>
             (case sys_setfd os fd (and flags (not 1)) w of
                (Inl e, w') \<Rightarrow> (Panic ''Unset failed!'', w')
              | (Inr u, w') \<Rightarrow> (Ret (), w'))))"

definition clone_fd :: "'w os \<Rightarrow> fd \<Rightarrow> ('w, io_error + fd) prog" where
  "clone_fd os to_clone = (\<lambda>w.
    case sys_dupfd_cloexec os to_clone to_clone w of
      (Inl errno, w') \<Rightarrow> (Ret (Inl (OsError errno)), w')
    | (Inr n, w') \<Rightarrow> (Ret (Inr n), w'))"

definition close_fd_quiet :: "'w os \<Rightarrow> fd \<Rightarrow> ('w, unit) prog" where
  "close_fd_quiet os fd = (\<lambda>w. (Ret (), snd (sys_close os fd w)))"

subsection \<open>The pid file\<close>

text \<open>\<open>std::path::Path::parent\<close> on Unix, through \<open>components\<close>: repeated separators and inner
  \<open>.\<close> components are skipped, a leading \<open>.\<close> counts. \<open>None\<close> for the empty path and the root.\<close>

definition path_components :: "path \<Rightarrow> string list" where
  "path_components p =
    (let ps = split_char (CHR ''/'') p; body = filter (\<lambda>s. s \<noteq> [] \<and> s \<noteq> ''.'') ps
     in if hd ps = ''.'' then ''.'' # body else body)"

definition path_parent :: "path \<Rightarrow> path option" where
  "path_parent p =
    (let cs = path_components p; root = (if p \<noteq> [] \<and> hd p = CHR ''/'' then ''/'' else [])
     in if cs = [] then None else Some (root @ join_with ''/'' (butlast cs)))"

definition write_pid_file :: "'w os \<Rightarrow> path \<Rightarrow> ('w, io_error + unit) prog" where
  "write_pid_file os pid_file = (\<lambda>w.
    let pid = sys_getpid os w in
    case path_parent pid_file of
      None \<Rightarrow> (Panic ''invalid path to pidfile'', w)
    | Some dir \<Rightarrow>
        (case tempfile_in os dir w of
           (Inl e, w1) \<Rightarrow> (Panic ''cannot create pidfile!'', w1)
         | (Inr tmp, w1) \<Rightarrow>
             (case tempfile_write_all os tmp (show_int pid) w1 of
                (Inl e, w2) \<Rightarrow> (Panic ''cannot write pidfile!'', tempfile_drop os tmp w2)
              | (Inr u, w2) \<Rightarrow>
                  (case tempfile_persist os tmp pid_file w2 of
                     (Inl e, w3) \<Rightarrow> (Panic ''cannot write pidfile!'', tempfile_drop os tmp w3)
                   | (Inr v, w3) \<Rightarrow> (Ret (Inr ()), w3)))))"

subsection \<open>What the helpers do to the descriptor table\<close>

lemma or_flags_1 [simp]: "n = 0 \<or> n = 1 \<Longrightarrow> or n 1 = (1::int)"
  by auto

lemma and_flags_not_1 [simp]: "n = 0 \<or> n = 1 \<Longrightarrow> and n (not 1) = (0::int)"
  by auto

context posix_fds
begin

lemma set_cloexec_open:
  assumes "fdt w fd = Some d"
  obtains w' where "set_cloexec os fd w = (Ret (), w')"
    and "fdt w' = (fdt w)(fd \<mapsto> d\<lparr>cloexec := True\<rparr>)"
proof -
  obtain w' where "sys_setfd os fd 1 w = (Inr (), w')"
    and "fdt w' = (fdt w)(fd \<mapsto> d\<lparr>cloexec := odd (1::int)\<rparr>)"
    using setfd_open [OF assms] by blast
  then show thesis
    using that getfd_open [OF assms] by (simp add: set_cloexec_def fdflag_from_bits_def)
qed

lemma set_cloexec_closed:
  "fdt w fd = None \<Longrightarrow>
    set_cloexec os fd w = (Panic ''Failed to get info for file descriptor'', w)"
  using getfd_closed [of w fd] by (auto simp: set_cloexec_def)

lemma unset_cloexec_open:
  assumes "fdt w fd = Some d"
  obtains w' where "unset_cloexec os fd w = (Ret (), w')"
    and "fdt w' = (fdt w)(fd \<mapsto> d\<lparr>cloexec := False\<rparr>)"
proof -
  obtain w' where "sys_setfd os fd 0 w = (Inr (), w')"
    and "fdt w' = (fdt w)(fd \<mapsto> d\<lparr>cloexec := odd (0::int)\<rparr>)"
    using setfd_open [OF assms] by blast
  then show thesis
    using that getfd_open [OF assms] by (simp add: unset_cloexec_def fdflag_from_bits_def)
qed

lemma unset_cloexec_closed:
  "fdt w fd = None \<Longrightarrow>
    unset_cloexec os fd w = (Panic ''Failed to get info for file descriptor'', w)"
  using getfd_closed [of w fd] by (auto simp: unset_cloexec_def)

lemma clone_fd_cases:
  obtains (ok) n d w' where "clone_fd os fd w = (Ret (Inr n), w')" and "fd < n"
      and "fdt w fd = Some d" and "fdt w n = None"
      and "fdt w' = (fdt w)(n \<mapsto> d\<lparr>cloexec := True\<rparr>)"
  | (err) e w' where "clone_fd os fd w = (Ret (Inl e), w')" and "fdt w' = fdt w"
proof -
  obtain r w' where "sys_dupfd_cloexec os fd fd w = (r, w')" by fastforce
  then show thesis
    using ok err dup_ok [of fd fd w _ w'] dup_err [of fd fd w _ w']
    by (cases r) (fastforce simp: clone_fd_def order_le_less)+
qed

lemma close_fd_quiet_run:
  obtains w' where "close_fd_quiet os fd w = (Ret (), w')" and "fdt w' = (fdt w)(fd := None)"
  using close_gone by (simp add: close_fd_quiet_def)

end

subsection \<open>The pid file is replaced atomically\<close>

context posix_files
begin

text \<open>The three outcomes after the temporary file exists, in the world seen from before it.\<close>

lemma persist_stage:
  assumes "fs w p = None" and "fs w2 = (fs w)(p \<mapsto> c)" and "tempfile_persist os p q w2 = (y, w3)"
  shows "y = Inl e \<Longrightarrow> fs (tempfile_drop os p w3) = fs w"
    and "y = Inr () \<Longrightarrow> fs w3 = (fs w)(q \<mapsto> c)"
  using assms persist_err [of p q w2 _ w3] persist_ok [of p q w2 w3]
  by (auto simp: drop_gone fun_eq_iff)

lemma write_stage:
  assumes "tempfile_in os dir w = (Inr p, w1)" and "tempfile_write_all os p b w1 = (x, w2)"
  shows "x = Inl e \<Longrightarrow> fs (tempfile_drop os p w2) = fs w"
    and "x = Inr () \<Longrightarrow> fs w p = None \<and> fs w2 = (fs w)(p \<mapsto> b)"
  using tempfile_ok [OF assms(1)] assms(2) write_err [of p b w1 _ w2] write_ok [of p b w1 w2 "[]"]
  by (auto simp: drop_gone fun_eq_iff)

lemma write_pid_file_cases:
  assumes "write_pid_file os pf w = (r, w')"
  obtains (ok) "r = Ret (Inr ())" and "fs w' = (fs w)(pf \<mapsto> show_int (sys_getpid os w))"
  | (panic) m where "r = Panic m" and "fs w' = fs w"
proof (cases "path_parent pf")
  case None
  then show thesis using assms panic by (auto simp: write_pid_file_def)
next
  case (Some dir)
  obtain t w1 where t: "tempfile_in os dir w = (t, w1)" by fastforce
  show thesis
  proof (cases t)
    case (Inl e)
    then show thesis using assms Some t panic tempfile_err by (auto simp: write_pid_file_def)
  next
    case (Inr tmp)
    obtain x w2 where x: "tempfile_write_all os tmp (show_int (sys_getpid os w)) w1 = (x, w2)"
      by fastforce
    obtain y w3 where y: "tempfile_persist os tmp pf w2 = (y, w3)" by fastforce
    note st = write_stage [OF t [unfolded Inr] x] persist_stage [OF _ _ y]
    show thesis
      using assms Some t Inr x y st panic ok
      by (cases x; cases y) (auto simp: write_pid_file_def Let_def)
  qed
qed

end

subsection \<open>Properties\<close>

text \<open>
  \<open>write_pid_file\<close> is atomic and leaves nothing behind: either it succeeds and the only change
  of the file system is that the pid file holds the pid in decimal, or it panics and the file system is
  what it was. It never returns an error: a caller that discards its result does not survive a failure.
\<close>

theorem write_pid_file_atomic:
  assumes "posix_files os fs"
  shows "case write_pid_file os pf w of
      (Ret (Inr u), w') \<Rightarrow> fs w' = (fs w)(pf \<mapsto> show_int (sys_getpid os w))
    | (Ret (Inl e), w') \<Rightarrow> False
    | (Panic m, w') \<Rightarrow> fs w' = fs w
    | (Exit n, w') \<Rightarrow> False"
proof -
  obtain r w' where run: "write_pid_file os pf w = (r, w')" by fastforce
  show ?thesis
    by (rule posix_files.write_pid_file_cases [OF assms run]) (simp_all add: run)
qed

text \<open>A directory that can be written, and a full disk.\<close>

lemma pid_ex_ok: "is_ok (fst (write_pid_file kern ''/run/srv.pid'' kw0))"
  by code_simp

lemma pid_ex_full: "fst (write_pid_file kern ''/run/srv.pid'' (kw0\<lparr>k_full := True\<rparr>)) = Panic ''cannot write pidfile!''"
  by code_simp

theorem write_pid_file_atomic_witness:
  "(\<exists>w'. write_pid_file kern ''/run/srv.pid'' kw0 = (Ret (Inr ()), w') \<and> k_fs w' = [''/run/srv.pid'' \<mapsto> show_int 42])
    \<and> (\<exists>m w'. write_pid_file kern ''/run/srv.pid'' (kw0\<lparr>k_full := True\<rparr>) = (Panic m, w') \<and> k_fs w' = Map.empty)"
proof -
  have k: "k_fs kw0 = Map.empty" "k_fs (kw0\<lparr>k_full := True\<rparr>) = Map.empty" "sys_getpid kern kw0 = 42"
    by (simp_all add: k_fs_def kw0_def kern_def)
  obtain w1 where r1: "write_pid_file kern ''/run/srv.pid'' kw0 = (Ret (Inr ()), w1)" using is_okD [OF pid_ex_ok] by auto
  obtain w2 where r2: "write_pid_file kern ''/run/srv.pid'' (kw0\<lparr>k_full := True\<rparr>) = (Panic ''cannot write pidfile!'', w2)"
    using pid_ex_full by (metis prod.collapse)
  show ?thesis
    using write_pid_file_atomic [OF kern_files.posix_files_axioms, of kw0 "''/run/srv.pid''"]
      write_pid_file_atomic [OF kern_files.posix_files_axioms, of "kw0\<lparr>k_full := True\<rparr>" "''/run/srv.pid''"] r1 r2 k
    by simp
qed

end
