(* ===== verification/Registry.thy ===== *)
theory Registry
  imports Utils
begin

text \<open>
  \<open>src/registry.rs\<close>: \<open>SockInfo\<close>, \<open>ListenerInfo\<close> and
  \<open>ListenerRegistry\<close> with all its operations. The state of an operation is a registry and a
  world. A \<open>std::sync::Mutex\<close> is its data and its poison flag: \<open>lock().expect(..)\<close>
  panics on a poisoned mutex, and \<open>take\<close>, the only operation that can panic while it holds a
  guard, poisons the mutex of the inherited list.

  The invariant \<open>reg_inv\<close> says that the registry owns its descriptors: they are pairwise distinct
  and open, and those in use are close-on-exec. \<open>abs_reg\<close> forgets descriptor numbers and keeps,
  per entry, the key and the socket; \<open>abs_take\<close>, \<open>abs_inherit\<close> and
  \<open>abs_add\<close> are what the operations promise on that level.
\<close>

subsection \<open>Data\<close>

datatype sock_info =
    Unix "path option"
  | Tcp socket_addr
  | Udp socket_addr
  | UnboundUnixDatagram string
  | UnixSeqpacket "path option"

record listener_info =
  li_fd :: fd
  li_sock :: sock_info

text \<open>\<open>PathBuf\<close> equality compares components, so the derived equality of \<open>SockInfo\<close> does.\<close>

definition path_eq :: "path \<Rightarrow> path \<Rightarrow> bool" where
  "path_eq p q \<longleftrightarrow>
    (p \<noteq> [] \<and> hd p = CHR ''/'') = (q \<noteq> [] \<and> hd q = CHR ''/'') \<and> path_components p = path_components q"

fun path_option_eq :: "path option \<Rightarrow> path option \<Rightarrow> bool" where
  "path_option_eq None None = True"
| "path_option_eq (Some p) (Some q) = path_eq p q"
| "path_option_eq _ _ = False"

fun sock_info_eq :: "sock_info \<Rightarrow> sock_info \<Rightarrow> bool" where
  "sock_info_eq (Unix p) (Unix q) = path_option_eq p q"
| "sock_info_eq (Tcp a) (Tcp b) = (a = b)"
| "sock_info_eq (Udp a) (Udp b) = (a = b)"
| "sock_info_eq (UnboundUnixDatagram a) (UnboundUnixDatagram b) = (a = b)"
| "sock_info_eq (UnixSeqpacket p) (UnixSeqpacket q) = path_option_eq p q"
| "sock_info_eq _ _ = False"

record 'a mutex =
  m_data :: 'a
  m_poisoned :: bool

record registry =
  inherited_fds :: "listener_info list mutex"
  used_fds :: "listener_info list mutex"

type_synonym 'w rstate = "registry \<times> 'w"

subsection \<open>Operations\<close>

definition mutex_new :: "'a \<Rightarrow> 'a mutex" where
  "mutex_new x = \<lparr>m_data = x, m_poisoned = False\<rparr>"

definition registry_new :: registry where
  "registry_new = \<lparr>inherited_fds = mutex_new [], used_fds = mutex_new []\<rparr>"

definition from_inherited :: "listener_info list \<Rightarrow> registry" where
  "from_inherited inherited = \<lparr>inherited_fds = mutex_new inherited, used_fds = mutex_new []\<rparr>"

definition take_fd :: "'w os \<Rightarrow> sock_info \<Rightarrow> ('w rstate, fd option) prog" where
  "take_fd os si = (\<lambda>(r, w).
    let m = inherited_fds r; fds = m_data m in
    if m_poisoned m then (Panic ''Cannot take lock on FdRegistry'', (r, w))
    else case position (\<lambda>li. sock_info_eq (li_sock li) si) fds of
      None \<Rightarrow> (Ret None, (r, w))
    | Some p \<Rightarrow>
        let fd = li_fd (fds ! p); rest = remove_at p fds in
        (case set_cloexec os fd w of
           (Ret u, w') \<Rightarrow> (Ret (Some fd), (r\<lparr>inherited_fds := m\<lparr>m_data := rest\<rparr>\<rparr>, w'))
         | (Panic e, w') \<Rightarrow>
             (Panic e, (r\<lparr>inherited_fds := \<lparr>m_data = rest, m_poisoned = True\<rparr>\<rparr>, w'))
         | (Exit n, w') \<Rightarrow> (Exit n, (r\<lparr>inherited_fds := m\<lparr>m_data := rest\<rparr>\<rparr>, w'))))"

definition add :: "'w os \<Rightarrow> listener_info \<Rightarrow> ('w rstate, io_error + unit) prog" where
  "add os item = (\<lambda>(r, w).
    let m = used_fds r in
    if m_poisoned m then (Panic ''Cannot take lock on FdRegisry!'', (r, w))
    else tryP (onSnd (clone_fd os (li_fd item)))
      (\<lambda>new_fd (r', w'). (Ret (Inr ()),
         (r'\<lparr>used_fds := m\<lparr>m_data := m_data m @ [item\<lparr>li_fd := new_fd\<rparr>]\<rparr>\<rparr>, w'))) (r, w))"

definition inherit :: "'w os \<Rightarrow> sock_info \<Rightarrow> ('w rstate, fd option) prog" where
  "inherit os si = bindP (take_fd os si) (\<lambda>found. case found of
      None \<Rightarrow> returnP None
    | Some fd \<Rightarrow> bindP (add os \<lparr>li_fd = fd, li_sock = si\<rparr>) (\<lambda>added. case added of
          Inl e \<Rightarrow> returnP None
        | Inr u \<Rightarrow> returnP (Some fd)))"

fun close_each :: "'w os \<Rightarrow> listener_info list \<Rightarrow> ('w, unit) prog" where
  "close_each os [] = returnP ()"
| "close_each os (li # lis) = bindP (close_fd_quiet os (li_fd li)) (\<lambda>u. close_each os lis)"

definition close_used :: "'w os \<Rightarrow> ('w rstate, unit) prog" where
  "close_used os = (\<lambda>(r, w).
    let m = used_fds r in
    if m_poisoned m then (Panic ''Cannot take lock on FdRegisry!'', (r, w))
    else bindP (onSnd (close_each os (m_data m)))
      (\<lambda>u (r', w'). (Ret (), (r'\<lparr>used_fds := m\<lparr>m_data := []\<rparr>\<rparr>, w'))) (r, w))"

definition close_inherited :: "'w os \<Rightarrow> ('w rstate, unit) prog" where
  "close_inherited os = (\<lambda>(r, w).
    let m = inherited_fds r in
    if m_poisoned m then (Panic ''Cannot take lock on FdRegisry!'', (r, w))
    else bindP (onSnd (close_each os (m_data m)))
      (\<lambda>u (r', w'). (Ret (), (r'\<lparr>inherited_fds := m\<lparr>m_data := []\<rparr>\<rparr>, w'))) (r, w))"

definition get_fds_for_child :: "('w rstate, listener_info list) prog" where
  "get_fds_for_child = (\<lambda>(r, w).
    if m_poisoned (used_fds r) then (Panic ''Cannot take lock on FdRegistry'', (r, w))
    else (Ret (m_data (used_fds r)), (r, w)))"

text \<open>\<open>impl Drop for ListenerRegistry\<close>.\<close>

definition drop_registry :: "'w os \<Rightarrow> ('w rstate, unit) prog" where
  "drop_registry os = bindP (close_used os) (\<lambda>u. close_inherited os)"

subsection \<open>Invariant and abstraction\<close>

abbreviation inherited_list :: "registry \<Rightarrow> listener_info list" where
  "inherited_list r \<equiv> m_data (inherited_fds r)"

abbreviation used_list :: "registry \<Rightarrow> listener_info list" where
  "used_list r \<equiv> m_data (used_fds r)"

abbreviation set_inherited :: "listener_info list \<Rightarrow> registry \<Rightarrow> registry" where
  "set_inherited lis r \<equiv> r\<lparr>inherited_fds := (inherited_fds r)\<lparr>m_data := lis\<rparr>\<rparr>"

abbreviation set_used :: "listener_info list \<Rightarrow> registry \<Rightarrow> registry" where
  "set_used lis r \<equiv> r\<lparr>used_fds := (used_fds r)\<lparr>m_data := lis\<rparr>\<rparr>"

definition owned_fds :: "registry \<Rightarrow> fd list" where
  "owned_fds r = map li_fd (inherited_list r) @ map li_fd (used_list r)"

definition reg_inv :: "fdtable \<Rightarrow> registry \<Rightarrow> bool" where
  "reg_inv t r \<longleftrightarrow> \<not> m_poisoned (inherited_fds r) \<and> \<not> m_poisoned (used_fds r)
    \<and> distinct (owned_fds r)
    \<and> (\<forall>li\<in>set (inherited_list r). t (li_fd li) \<noteq> None)
    \<and> (\<forall>li\<in>set (used_list r). \<exists>d. t (li_fd li) = Some d \<and> cloexec d)"

text \<open>The socket behind an entry; the abstract registry is two lists of keys with sockets.\<close>

definition socket_of :: "fdtable \<Rightarrow> fd \<Rightarrow> nat option" where
  "socket_of t fd = map_option ofd (t fd)"

definition abs_list :: "fdtable \<Rightarrow> listener_info list \<Rightarrow> (sock_info \<times> nat option) list" where
  "abs_list t = map (\<lambda>li. (li_sock li, socket_of t (li_fd li)))"

record areg =
  a_inherited :: "(sock_info \<times> nat option) list"
  a_used :: "(sock_info \<times> nat option) list"

definition abs_reg :: "fdtable \<Rightarrow> registry \<Rightarrow> areg" where
  "abs_reg t r = \<lparr>a_inherited = abs_list t (inherited_list r), a_used = abs_list t (used_list r)\<rparr>"

definition abs_take :: "sock_info \<Rightarrow> areg \<Rightarrow> nat option option \<times> areg" where
  "abs_take k a = (case position (\<lambda>e. sock_info_eq (fst e) k) (a_inherited a) of
      None \<Rightarrow> (None, a)
    | Some p \<Rightarrow> (Some (snd (a_inherited a ! p)), a\<lparr>a_inherited := remove_at p (a_inherited a)\<rparr>))"

definition abs_add :: "sock_info \<Rightarrow> nat option \<Rightarrow> areg \<Rightarrow> areg" where
  "abs_add k s a = a\<lparr>a_used := a_used a @ [(k, s)]\<rparr>"

definition abs_inherit :: "sock_info \<Rightarrow> areg \<Rightarrow> nat option option \<times> areg" where
  "abs_inherit k a = (case abs_take k a of
      (None, a') \<Rightarrow> (None, a')
    | (Some s, a') \<Rightarrow> (Some s, abs_add k s a'))"

subsection \<open>Equality of keys\<close>

lemma path_eq_equiv:
  "path_eq p p" "path_eq p q \<Longrightarrow> path_eq q p" "path_eq p q \<Longrightarrow> path_eq q r \<Longrightarrow> path_eq p r"
  by (auto simp: path_eq_def)

lemma sock_info_eq_refl [simp]: "sock_info_eq k k"
proof -
  have "path_option_eq p p" for p by (cases p) (simp_all add: path_eq_equiv)
  then show ?thesis by (cases k) simp_all
qed

lemma path_option_eq_iff: "path_option_eq p q \<longleftrightarrow> rel_option path_eq p q"
  by (cases p; cases q) simp_all

lemma sock_info_eq_sym: "sock_info_eq j k \<Longrightarrow> sock_info_eq k j"
  by (induction j k rule: sock_info_eq.induct)
    (auto simp: path_option_eq_iff path_eq_def option.rel_sel)

lemma sock_info_eq_trans: "sock_info_eq i j \<Longrightarrow> sock_info_eq j k \<Longrightarrow> sock_info_eq i k"
  by (cases i; cases j; cases k) (auto simp: path_option_eq_iff path_eq_def option.rel_sel)

subsection \<open>Frame facts\<close>

lemma owned_fds_open: "reg_inv t r \<Longrightarrow> fd \<in> set (owned_fds r) \<Longrightarrow> t fd \<noteq> None"
  by (auto simp: reg_inv_def owned_fds_def)

lemma abs_list_cong:
  "(\<And>li. li \<in> set lis \<Longrightarrow> socket_of t (li_fd li) = socket_of t' (li_fd li)) \<Longrightarrow>
    abs_list t lis = abs_list t' lis"
  by (simp add: abs_list_def)

lemma abs_list_flags [simp]: "t fd = Some d \<Longrightarrow> abs_list (t(fd \<mapsto> d\<lparr>cloexec := b\<rparr>)) lis = abs_list t lis"
  by (rule abs_list_cong) (simp add: socket_of_def)

lemma abs_list_new_entry:
  assumes "reg_inv t r" and "t n = None" and "li_fd ` set lis \<subseteq> set (owned_fds r)"
  shows "abs_list (t(n \<mapsto> d)) lis = abs_list t lis"
proof -
  have "n \<notin> li_fd ` set lis" using assms owned_fds_open by blast
  then show ?thesis by (intro abs_list_cong) (auto simp: socket_of_def)
qed

lemma position_abs_list:
  "position (\<lambda>e. sock_info_eq (fst e) k) (abs_list t lis) = position (\<lambda>li. sock_info_eq (li_sock li) k) lis"
  by (induction lis) (simp_all add: abs_list_def)

lemma abs_list_remove_at: "abs_list t (remove_at p lis) = remove_at p (abs_list t lis)"
  by (simp add: abs_list_def map_remove_at)

lemma abs_list_nth: "p < length lis \<Longrightarrow> abs_list t lis ! p = (li_sock (lis ! p), socket_of t (li_fd (lis ! p)))"
  by (simp add: abs_list_def)

text \<open>The two updates of the table an operation makes: the flag of one entry, one new entry.\<close>

lemma reg_inv_set_flag:
  "reg_inv t r \<Longrightarrow> t fd = Some d \<Longrightarrow> reg_inv (t(fd \<mapsto> d\<lparr>cloexec := True\<rparr>)) r"
  by (auto simp: reg_inv_def)

lemma reg_inv_new_entry: "reg_inv t r \<Longrightarrow> t n = None \<Longrightarrow> reg_inv (t(n \<mapsto> d)) r"
  by (auto simp: reg_inv_def)

lemma reg_inv_push:
  assumes "reg_inv t r" and "t n = None"
  shows "reg_inv (t(n \<mapsto> d\<lparr>cloexec := True\<rparr>))
    (set_used (used_list r @ [item\<lparr>li_fd := n\<rparr>]) r)"
proof -
  have "n \<notin> set (owned_fds r)" using assms owned_fds_open by blast
  with assms show ?thesis by (auto simp: reg_inv_def owned_fds_def)
qed

lemma reg_inv_remove:
  assumes "reg_inv t r" and "p < length (inherited_list r)"
  shows "reg_inv t (set_inherited (remove_at p (inherited_list r)) r)"
  using assms set_remove_at_subset [of p "inherited_list r"]
    set_remove_at_subset [of p "map li_fd (inherited_list r)"]
  by (auto simp: reg_inv_def owned_fds_def map_remove_at distinct_remove_at)

lemma removed_not_owned:
  assumes "reg_inv t r" and "p < length (inherited_list r)"
  shows "li_fd (inherited_list r ! p) \<notin>
    set (owned_fds (set_inherited (remove_at p (inherited_list r)) r))"
proof -
  let ?fds = "map li_fd (inherited_list r)"
  have "distinct ?fds" and "?fds ! p \<notin> set (map li_fd (used_list r))"
    using assms by (auto simp: reg_inv_def owned_fds_def nth_mem disjoint_iff)
  then show ?thesis
    using assms(2) set_remove_at_distinct [of ?fds p] by (auto simp: owned_fds_def map_remove_at)
qed

subsection \<open>Behaviour of each operation\<close>

context posix_fds
begin

lemma take_fd_cases:
  assumes "reg_inv (fdt w) r"
  obtains (absent) "\<forall>li\<in>set (inherited_list r). \<not> sock_info_eq (li_sock li) k"
      and "take_fd os k (r, w) = (Ret None, (r, w))"
  | (found) p d w' where "position (\<lambda>li. sock_info_eq (li_sock li) k) (inherited_list r) = Some p"
      and "p < length (inherited_list r)" and "fdt w (li_fd (inherited_list r ! p)) = Some d"
      and "fdt w' = (fdt w)(li_fd (inherited_list r ! p) \<mapsto> d\<lparr>cloexec := True\<rparr>)"
      and "take_fd os k (r, w) = (Ret (Some (li_fd (inherited_list r ! p))),
        (set_inherited (remove_at p (inherited_list r)) r, w'))"
proof (cases "position (\<lambda>li. sock_info_eq (li_sock li) k) (inherited_list r)")
  case None
  then show thesis using assms absent None [unfolded position_None_iff] by (simp add: take_fd_def reg_inv_def Let_def)
next
  case (Some p)
  have p: "p < length (inherited_list r)" using position_SomeD [OF Some] by simp
  then obtain d where d: "fdt w (li_fd (inherited_list r ! p)) = Some d"
    using assms nth_mem [OF p] by (fastforce simp: reg_inv_def)
  obtain w' where "set_cloexec os (li_fd (inherited_list r ! p)) w = (Ret (), w')"
    and "fdt w' = (fdt w)(li_fd (inherited_list r ! p) \<mapsto> d\<lparr>cloexec := True\<rparr>)"
    using set_cloexec_open [OF d] by blast
  then show thesis using found [OF Some p d] Some assms by (simp add: take_fd_def reg_inv_def Let_def)
qed

lemma add_cases:
  assumes "\<not> m_poisoned (used_fds r)"
  obtains (ok) n d w' where "fdt w (li_fd item) = Some d" and "fdt w n = None" and "li_fd item < n"
      and "fdt w' = (fdt w)(n \<mapsto> d\<lparr>cloexec := True\<rparr>)"
      and "add os item (r, w) = (Ret (Inr ()),
        (set_used (used_list r @ [item\<lparr>li_fd := n\<rparr>]) r, w'))"
  | (err) e w' where "fdt w' = fdt w" and "add os item (r, w) = (Ret (Inl e), (r, w'))"
proof (cases rule: clone_fd_cases [of "li_fd item" w])
  case (ok n d w')
  then show thesis using assms that(1) by (simp add: add_def Let_def)
next
  case (err e w')
  then show thesis using assms that(2) by (simp add: add_def Let_def)
qed

lemma close_each_run:
  obtains w' where "close_each os lis w = (Ret (), w')"
    and "fdt w' = (fdt w) |` (- set (map li_fd lis))"
proof (induction lis arbitrary: w thesis)
  case Nil
  then show ?case by simp
next
  case (Cons li lis)
  obtain w1 where w1: "close_fd_quiet os (li_fd li) w = (Ret (), w1)"
    "fdt w1 = (fdt w)(li_fd li := None)" by (rule close_fd_quiet_run)
  obtain w2 where "close_each os lis w1 = (Ret (), w2)"
    "fdt w2 = (fdt w1) |` (- set (map li_fd lis))" by (rule Cons.IH)
  with w1 show ?case
    by (intro Cons.prems [of w2]) (auto simp: restrict_map_def fun_eq_iff)
qed

lemma close_used_run:
  assumes "\<not> m_poisoned (used_fds r)"
  obtains w' where "close_used os (r, w) = (Ret (), (set_used [] r, w'))"
    and "fdt w' = (fdt w) |` (- set (map li_fd (used_list r)))"
proof -
  obtain w' where "close_each os (used_list r) w = (Ret (), w')"
    and "fdt w' = (fdt w) |` (- set (map li_fd (used_list r)))" by (rule close_each_run)
  then show thesis using assms that by (simp add: close_used_def Let_def)
qed

lemma close_inherited_run:
  assumes "\<not> m_poisoned (inherited_fds r)"
  obtains w' where
    "close_inherited os (r, w) = (Ret (), (set_inherited [] r, w'))"
    and "fdt w' = (fdt w) |` (- set (map li_fd (inherited_list r)))"
proof -
  obtain w' where "close_each os (inherited_list r) w = (Ret (), w')"
    and "fdt w' = (fdt w) |` (- set (map li_fd (inherited_list r)))" by (rule close_each_run)
  then show thesis using assms that by (simp add: close_inherited_def Let_def)
qed

lemma inherit_cases:
  assumes "reg_inv (fdt w) r"
  obtains (absent) "\<forall>li\<in>set (inherited_list r). \<not> sock_info_eq (li_sock li) k"
      and "inherit os k (r, w) = (Ret None, (r, w))"
  | (found) p fd d n w' where
      "position (\<lambda>li. sock_info_eq (li_sock li) k) (inherited_list r) = Some p"
      and "p < length (inherited_list r)" and "fd = li_fd (inherited_list r ! p)"
      and "fdt w fd = Some d" and "fdt w n = None" and "fd < n"
      and "fdt w' = (fdt w)(fd \<mapsto> d\<lparr>cloexec := True\<rparr>, n \<mapsto> d\<lparr>cloexec := True\<rparr>)"
      and "inherit os k (r, w) = (Ret (Some fd),
        (set_used (used_list r @ [\<lparr>li_fd = n, li_sock = k\<rparr>])
          (set_inherited (remove_at p (inherited_list r)) r), w'))"
  | (lost) p fd d w' where
      "position (\<lambda>li. sock_info_eq (li_sock li) k) (inherited_list r) = Some p"
      and "p < length (inherited_list r)" and "fd = li_fd (inherited_list r ! p)"
      and "fdt w fd = Some d" and "fdt w' = (fdt w)(fd \<mapsto> d\<lparr>cloexec := True\<rparr>)"
      and "inherit os k (r, w) = (Ret None, (set_inherited (remove_at p (inherited_list r)) r, w'))"
  using assms
proof (cases rule: take_fd_cases [of w r k])
  case absent
  then show thesis using that(1) by (simp add: inherit_def)
next
  case (found p d w1)
  let ?fd = "li_fd (inherited_list r ! p)" and ?r = "set_inherited (remove_at p (inherited_list r)) r"
  have "\<not> m_poisoned (used_fds ?r)" using assms by (simp add: reg_inv_def)
  then show thesis
  proof (cases rule: add_cases [of ?r w1 "\<lparr>li_fd = ?fd, li_sock = k\<rparr>"])
    case (ok n e w2)
    then have "e = d\<lparr>cloexec := True\<rparr>" and "fdt w n = None" and "?fd < n"
      using found(4) by (auto split: if_splits)
    then show thesis
      using that(2) [of p ?fd d n w2] found ok by (simp add: inherit_def)
  next
    case (err e w2)
    then show thesis using that(3) [of p ?fd d w2] found by (simp add: inherit_def)
  qed
qed

subsection \<open>Preservation\<close>

lemma take_fd_inv:
  assumes "reg_inv (fdt w) r" and "take_fd os k (r, w) = (x, (r', w'))"
  shows "reg_inv (fdt w') r' \<and> (\<exists>y. x = Ret y)"
  using assms(1)
  by (cases rule: take_fd_cases [of w r k])
    (use assms in \<open>auto intro!: reg_inv_set_flag reg_inv_remove\<close>)

lemma add_inv:
  assumes "reg_inv (fdt w) r" and "add os item (r, w) = (x, (r', w'))"
  shows "reg_inv (fdt w') r' \<and> (\<exists>y. x = Ret y)"
proof -
  have "\<not> m_poisoned (used_fds r)" using assms(1) by (simp add: reg_inv_def)
  then show ?thesis
    by (cases rule: add_cases [of r w item]) (use assms in \<open>auto intro!: reg_inv_push\<close>)
qed

lemma inherit_inv:
  assumes "reg_inv (fdt w) r" and "inherit os k (r, w) = (x, (r', w'))"
  shows "reg_inv (fdt w') r' \<and> (\<exists>y. x = Ret y)"
  using assms(1)
proof (cases rule: inherit_cases [of w r k])
  case absent
  then show ?thesis using assms by simp
next
  case (found p fd d n w2)
  let ?r = "set_inherited (remove_at p (inherited_list r)) r"
  have "reg_inv ((fdt w)(fd \<mapsto> d\<lparr>cloexec := True\<rparr>)) ?r"
    using found assms(1) by (intro reg_inv_set_flag reg_inv_remove) auto
  then show ?thesis
    using found assms(2) reg_inv_push [of _ ?r n d "\<lparr>li_fd = fd, li_sock = k\<rparr>"] by auto
next
  case (lost p fd d w2)
  then show ?thesis using assms by (auto intro!: reg_inv_set_flag reg_inv_remove)
qed

text \<open>The descriptor handed out is no longer the registry's.\<close>

lemma inherit_not_owned:
  assumes "reg_inv (fdt w) r" and "inherit os k (r, w) = (Ret (Some fd), (r', w'))"
  shows "fd \<notin> set (owned_fds r')"
  using assms(1)
proof (cases rule: inherit_cases [of w r k])
  case (found p fd' d n w2)
  then have "fd \<noteq> n" "fd = li_fd (inherited_list r ! p)" using assms(2) by auto
  then show ?thesis
    using found(2,8) assms removed_not_owned [OF assms(1) found(2)] by (auto simp: owned_fds_def)
qed (use assms in auto)

lemma reg_inv_drop_used:
  "reg_inv t r \<Longrightarrow> reg_inv (t |` (- set (map li_fd (used_list r)))) (set_used [] r)"
  by (auto simp: reg_inv_def owned_fds_def restrict_map_def)

lemma reg_inv_drop_inherited:
  "reg_inv t r \<Longrightarrow> reg_inv (t |` (- set (map li_fd (inherited_list r)))) (set_inherited [] r)"
  by (fastforce simp: reg_inv_def owned_fds_def restrict_map_def)

lemma close_used_inv:
  assumes "reg_inv (fdt w) r" and "close_used os (r, w) = (x, (r', w'))"
  shows "reg_inv (fdt w') r' \<and> x = Ret ()"
proof -
  have "\<not> m_poisoned (used_fds r)" using assms(1) by (simp add: reg_inv_def)
  then obtain w2 where "close_used os (r, w) = (Ret (), (set_used [] r, w2))"
    and "fdt w2 = (fdt w) |` (- set (map li_fd (used_list r)))" by (rule close_used_run)
  then show ?thesis using assms reg_inv_drop_used by simp
qed

lemma close_inherited_inv:
  assumes "reg_inv (fdt w) r" and "close_inherited os (r, w) = (x, (r', w'))"
  shows "reg_inv (fdt w') r' \<and> x = Ret ()"
proof -
  have "\<not> m_poisoned (inherited_fds r)" using assms(1) by (simp add: reg_inv_def)
  then obtain w2 where "close_inherited os (r, w) = (Ret (), (set_inherited [] r, w2))"
    and "fdt w2 = (fdt w) |` (- set (map li_fd (inherited_list r)))" by (rule close_inherited_run)
  then show ?thesis using assms reg_inv_drop_inherited by simp
qed

end

subsection \<open>Runs of a registry\<close>

text \<open>Any sequence of operations, from any number of threads (each operation holds a lock while it
  works), interleaved with steps of the rest of the process that leave the descriptors of the registry
  alone. A run starts from \<open>new\<close>, or from a list of distinct open descriptors.\<close>

inductive reg_step :: "'w os \<Rightarrow> ('w \<Rightarrow> fdtable) \<Rightarrow> 'w rstate \<Rightarrow> 'w rstate \<Rightarrow> bool"
  for os :: "'w os" and fdt :: "'w \<Rightarrow> fdtable" where
  step_take: "take_fd os k s = (x, s') \<Longrightarrow> reg_step os fdt s s'"
| step_inherit: "inherit os k s = (x, s') \<Longrightarrow> reg_step os fdt s s'"
| step_add: "add os item s = (x, s') \<Longrightarrow> reg_step os fdt s s'"
| step_close_used: "close_used os s = (x, s') \<Longrightarrow> reg_step os fdt s s'"
| step_close_inherited: "close_inherited os s = (x, s') \<Longrightarrow> reg_step os fdt s s'"
| step_drop: "drop_registry os s = (x, s') \<Longrightarrow> reg_step os fdt s s'"
| step_process: "(\<And>fd. fd \<in> set (owned_fds r) \<Longrightarrow> fdt w' fd = fdt w fd) \<Longrightarrow>
    reg_step os fdt (r, w) (r, w')"

inductive reg_reachable :: "'w os \<Rightarrow> ('w \<Rightarrow> fdtable) \<Rightarrow> 'w rstate \<Rightarrow> bool"
  for os :: "'w os" and fdt :: "'w \<Rightarrow> fdtable" where
  start_new: "reg_reachable os fdt (registry_new, w)"
| start_inherited: "distinct (map li_fd lis) \<Longrightarrow> (\<And>li. li \<in> set lis \<Longrightarrow> fdt w (li_fd li) \<noteq> None) \<Longrightarrow>
    reg_reachable os fdt (from_inherited lis, w)"
| step: "reg_reachable os fdt s \<Longrightarrow> reg_step os fdt s s' \<Longrightarrow> reg_reachable os fdt s'"

lemma reg_inv_frame:
  "reg_inv t r \<Longrightarrow> (\<And>fd. fd \<in> set (owned_fds r) \<Longrightarrow> t' fd = t fd) \<Longrightarrow> reg_inv t' r"
  by (auto simp: reg_inv_def owned_fds_def)

lemma reg_inv_start:
  "reg_inv t registry_new"
  "distinct (map li_fd lis) \<Longrightarrow> (\<And>li. li \<in> set lis \<Longrightarrow> t (li_fd li) \<noteq> None) \<Longrightarrow>
    reg_inv t (from_inherited lis)"
  by (auto simp: reg_inv_def registry_new_def from_inherited_def mutex_new_def owned_fds_def)

context posix_fds
begin

lemma drop_registry_inv:
  assumes "reg_inv (fdt w) r" and "drop_registry os (r, w) = (x, (r', w'))"
  shows "reg_inv (fdt w') r' \<and> x = Ret ()"
proof -
  obtain y r1 w1 where y: "close_used os (r, w) = (y, (r1, w1))" by (metis surj_pair)
  with assms(1) have "reg_inv (fdt w1) r1" and "y = Ret ()" using close_used_inv by blast+
  with y assms(2) show ?thesis using close_inherited_inv by (simp add: drop_registry_def)
qed

lemmas op_inv = take_fd_inv inherit_inv add_inv close_used_inv close_inherited_inv drop_registry_inv

lemma reg_step_inv:
  assumes "reg_step os fdt s s'" and "reg_inv (fdt (snd s)) (fst s)"
  shows "reg_inv (fdt (snd s')) (fst s')"
proof -
  obtain r w r' w' where s: "s = (r, w)" "s' = (r', w')" by fastforce
  show ?thesis using assms
    by (cases rule: reg_step.cases) (auto simp: s dest: op_inv intro: reg_inv_frame)
qed

lemma reg_reachable_inv: "reg_reachable os fdt s \<Longrightarrow> reg_inv (fdt (snd s)) (fst s)"
  by (induction rule: reg_reachable.induct) (auto intro: reg_inv_start reg_step_inv)

lemma ops_return:
  assumes "reg_inv (fdt w) r"
  shows "\<exists>y. fst (take_fd os k (r, w)) = Ret y" "\<exists>y. fst (inherit os k (r, w)) = Ret y"
    "\<exists>y. fst (add os item (r, w)) = Ret y" "fst (close_used os (r, w)) = Ret ()"
    "fst (close_inherited os (r, w)) = Ret ()" "fst (drop_registry os (r, w)) = Ret ()"
  using take_fd_inv [OF assms] inherit_inv [OF assms] add_inv [OF assms]
    close_used_inv [OF assms] close_inherited_inv [OF assms] drop_registry_inv [OF assms]
  by (metis fst_conv prod.exhaust)+

lemma reachable_safe:
  assumes "reg_reachable os fdt (r, w)"
  shows "reg_inv (fdt w) r
    \<and> (\<exists>y. fst (take_fd os k (r, w)) = Ret y) \<and> (\<exists>y. fst (inherit os k (r, w)) = Ret y)
    \<and> (\<exists>y. fst (add os item (r, w)) = Ret y) \<and> fst (close_used os (r, w)) = Ret ()
    \<and> fst (close_inherited os (r, w)) = Ret () \<and> fst (drop_registry os (r, w)) = Ret ()"
proof -
  have "reg_inv (fdt w) r" using reg_reachable_inv [OF assms] by simp
  then show ?thesis using ops_return by blast
qed

lemma inherit_abs:
  assumes "reg_inv (fdt w) r" and "inherit os k (r, w) = (Ret (Some fd), (r', w'))"
  shows "abs_inherit k (abs_reg (fdt w) r) = (Some (socket_of (fdt w') fd), abs_reg (fdt w') r')
    \<and> fd \<notin> set (owned_fds r') \<and> (\<exists>d. fdt w' fd = Some d \<and> cloexec d)"
  using assms(1)
proof (cases rule: inherit_cases [of w r k])
  case absent
  then show ?thesis using assms(2) by simp
next
  case (found p fd' d n w2)
  let ?r = "set_inherited (remove_at p (inherited_list r)) r"
    and ?t = "(fdt w)(fd' \<mapsto> d\<lparr>cloexec := True\<rparr>)"
  have eq: "fd' = fd" "w2 = w'" "r' = set_used (used_list r @ [\<lparr>li_fd = n, li_sock = k\<rparr>]) ?r"
    using found(8) assms(2) by auto
  have "reg_inv ?t r" and n: "?t n = None" using found assms(1) by (auto intro: reg_inv_set_flag)
  then have fresh: "abs_list (?t(n \<mapsto> d')) lis = abs_list ?t lis"
    if "li_fd ` set lis \<subseteq> set (owned_fds r)" for lis d'
    using that by (rule abs_list_new_entry)
  have "fd \<notin> set (owned_fds ?r)"
    using removed_not_owned [OF assms(1) found(2)] found(3) eq by simp
  then have "fd \<notin> set (owned_fds r')" using found(6) eq by (auto simp: owned_fds_def)
  moreover have "abs_list (fdt w') (inherited_list r) = abs_list (fdt w) (inherited_list r)"
    and "abs_list (fdt w') (used_list r) = abs_list (fdt w) (used_list r)"
    using fresh found eq by (auto simp: owned_fds_def)
  moreover have "socket_of (fdt w') fd = socket_of (fdt w) fd" "socket_of (fdt w') n = socket_of (fdt w) fd"
    using found eq by (auto simp: socket_of_def)
  ultimately show ?thesis
    using found eq
    by (auto simp: abs_inherit_def abs_take_def abs_add_def abs_reg_def position_abs_list
        abs_list_nth abs_list_remove_at) (simp add: abs_list_def)
next
  case (lost p fd' d w2)
  then show ?thesis using assms(2) by simp
qed

lemma inherit_lost:
  assumes "reg_inv (fdt w) r" and "\<exists>li\<in>set (inherited_list r). sock_info_eq (li_sock li) k"
    and "inherit os k (r, w) = (Ret None, (r', w'))"
  shows "\<exists>fd. fd \<in> set (owned_fds r) \<and> fdt w' fd \<noteq> None \<and> fd \<notin> set (owned_fds r')
    \<and> used_list r' = used_list r"
  using assms(1)
proof (cases rule: inherit_cases [of w r k])
  case absent
  then show ?thesis using assms(2) by blast
next
  case (found p fd d n w2)
  then show ?thesis using assms(3) by simp
next
  case (lost p fd d w2)
  then show ?thesis
    using assms(3) removed_not_owned [OF assms(1), of p] nth_mem [of p "inherited_list r"]
    by (intro exI [of _ fd]) (auto simp: owned_fds_def)
qed

end

subsection \<open>Properties\<close>

text \<open>
  C28. In every state a registry reaches, by any interleaving of its operations with the rest of the
  process, it owns pairwise distinct open descriptors, those in use close-on-exec, no lock is
  poisoned, and no operation panics.
\<close>

theorem registry_reachable_safe:
  assumes "posix_fds os fdt" and "reg_reachable os fdt (r, w)"
  shows "reg_inv (fdt w) r
    \<and> (\<exists>y. fst (take_fd os k (r, w)) = Ret y) \<and> (\<exists>y. fst (inherit os k (r, w)) = Ret y)
    \<and> (\<exists>y. fst (add os item (r, w)) = Ret y) \<and> fst (close_used os (r, w)) = Ret ()
    \<and> fst (close_inherited os (r, w)) = Ret () \<and> fst (drop_registry os (r, w)) = Ret ()"
  by (rule posix_fds.reachable_safe [OF assms])

text \<open>
  C29. \<open>inherit\<close> implements its contract: when it hands out a descriptor, that descriptor is the socket
  the first entry with an equal key stood for, it is close-on-exec and not owned by the registry any
  more, the entry moved from the inherited to the used list under the requested key, and every other
  entry keeps its key and its socket.
\<close>

theorem inherit_refines:
  assumes "posix_fds os fdt" and "reg_inv (fdt w) r"
    and "inherit os k (r, w) = (Ret (Some fd), (r', w'))"
  shows "abs_inherit k (abs_reg (fdt w) r) = (Some (socket_of (fdt w') fd), abs_reg (fdt w') r')
    \<and> fd \<notin> set (owned_fds r') \<and> (\<exists>d. fdt w' fd = Some d \<and> cloexec d)"
  by (rule posix_fds.inherit_abs [OF assms])

text \<open>
  C38. When an equal key is among the inherited entries and \<open>inherit\<close> still answers \<open>None\<close> (the
  duplicate for the used list could not be made), the inherited descriptor is open but in neither
  list: no later operation of the registry returns, passes on or closes it.
\<close>

theorem inherit_loses_descriptor:
  assumes "posix_fds os fdt" and "reg_inv (fdt w) r"
    and "\<exists>li\<in>set (inherited_list r). sock_info_eq (li_sock li) k"
    and "inherit os k (r, w) = (Ret None, (r', w'))"
  shows "\<exists>fd. fd \<in> set (owned_fds r) \<and> fdt w' fd \<noteq> None \<and> fd \<notin> set (owned_fds r')
    \<and> used_list r' = used_list r"
  by (rule posix_fds.inherit_lost [OF assms])

text \<open>
  An inherited entry whose descriptor is not open makes \<open>take\<close> panic with the lock held: the
  entry is gone and the mutex is poisoned, so every later \<open>take\<close>, \<open>inherit\<close> and
  \<open>close_inherited\<close> panics, and with it \<open>ready\<close> and the drop of the registry.
\<close>

theorem stale_entry_poisons:
  assumes "posix_fds os fdt" and "\<not> m_poisoned (inherited_fds r)"
    and "position (\<lambda>li. sock_info_eq (li_sock li) k) (inherited_list r) = Some p"
    and "fdt w (li_fd (inherited_list r ! p)) = None"
  shows "\<exists>m r'. take_fd os k (r, w) = (Panic m, (r', w)) \<and> length (inherited_list r') < length (inherited_list r)
    \<and> (\<forall>k' w'. (\<exists>m'. take_fd os k' (r', w') = (Panic m', (r', w')))
        \<and> (\<exists>m'. inherit os k' (r', w') = (Panic m', (r', w')))
        \<and> (\<exists>m'. close_inherited os (r', w') = (Panic m', (r', w'))))"
proof -
  have "length (inherited_list r) - 1 < length (inherited_list r)"
    using position_SomeD [OF assms(3)] by auto
  then show ?thesis
    using assms(2-4) position_SomeD [OF assms(3)] posix_fds.set_cloexec_closed [OF assms(1,4)]
    by (auto simp: take_fd_def inherit_def close_inherited_def Let_def)
qed

subsection \<open>Concrete runs\<close>

text \<open>A child that inherited a Unix listener at descriptor 5 and a TCP listener at descriptor 6.\<close>

definition reg_ex_world :: "int \<Rightarrow> kworld" where
  "reg_ex_world nofile = kw0\<lparr>k_nofile := nofile,
     k_fds := (5, \<lparr>cloexec = False, ofd = 7\<rparr>) # (6, \<lparr>cloexec = False, ofd = 8\<rparr>) # k_fds kw0\<rparr>"

definition reg_ex :: registry where
  "reg_ex = from_inherited [\<lparr>li_fd = 5, li_sock = Unix (Some ''/run/a.sock'')\<rparr>,
     \<lparr>li_fd = 6, li_sock = Tcp (SockV4 0 80)\<rparr>]"

lemmas reg_eval = reg_ex_world_def reg_ex_def from_inherited_def mutex_new_def kw0_def take_fd_def
  add_def inherit_def clone_fd_def set_cloexec_def fdflag_from_bits_def path_eq_def
  path_components_def onSnd_def tryP_def bindP_def remove_at_def Let_def

lemma reg_ex_inv: "reg_inv (k_fdt (reg_ex_world n)) reg_ex"
  by (auto simp: reg_inv_def reg_ex_def from_inherited_def mutex_new_def owned_fds_def
      reg_ex_world_def k_fdt_def)

theorem registry_reachable_safe_witness:
  "reg_inv (k_fdt (reg_ex_world 16)) reg_ex \<and> fst (drop_registry kern (reg_ex, reg_ex_world 16)) = Ret ()"
proof -
  have "reg_reachable kern k_fdt (reg_ex, reg_ex_world 16)"
    unfolding reg_ex_def by (rule reg_reachable.start_inherited) (auto simp: reg_ex_world_def k_fdt_def)
  from registry_reachable_safe [OF kern_fds.posix_fds_axioms this] show ?thesis by blast
qed

lemma reg_ex_inherit:
  "fst (inherit kern (Tcp (SockV4 0 80)) (reg_ex, reg_ex_world 16)) = Ret (Some 6)"
  by (simp add: reg_eval kern_eval)

theorem inherit_refines_witness:
  "\<exists>r' w'. inherit kern (Tcp (SockV4 0 80)) (reg_ex, reg_ex_world 16) = (Ret (Some 6), (r', w'))
    \<and> fst (abs_inherit (Tcp (SockV4 0 80)) (abs_reg (k_fdt (reg_ex_world 16)) reg_ex)) = Some (socket_of (k_fdt w') 6)"
proof -
  obtain r' w' where run: "inherit kern (Tcp (SockV4 0 80)) (reg_ex, reg_ex_world 16) = (Ret (Some 6), (r', w'))"
    using reg_ex_inherit by (metis prod.collapse)
  from inherit_refines [OF kern_fds.posix_fds_axioms reg_ex_inv run] run show ?thesis by auto
qed

text \<open>With a limit of 6 open files the duplicate fails and descriptor 5 is lost.\<close>

lemma reg_ex_inherit_full:
  "fst (inherit kern (Unix (Some ''/run//a.sock'')) (reg_ex, reg_ex_world 6)) = Ret None"
  by (simp add: reg_eval kern_eval)

theorem inherit_loses_descriptor_witness:
  "\<exists>r' w' fd. inherit kern (Unix (Some ''/run//a.sock'')) (reg_ex, reg_ex_world 6) = (Ret None, (r', w'))
    \<and> k_fdt w' fd \<noteq> None \<and> fd \<in> set (owned_fds reg_ex) \<and> fd \<notin> set (owned_fds r')"
proof -
  obtain r' w' where run: "inherit kern (Unix (Some ''/run//a.sock'')) (reg_ex, reg_ex_world 6) = (Ret None, (r', w'))"
    using reg_ex_inherit_full by (metis prod.collapse)
  have "\<exists>li\<in>set (inherited_list reg_ex). sock_info_eq (li_sock li) (Unix (Some ''/run//a.sock''))"
    by (simp add: reg_eval)
  from inherit_loses_descriptor [OF kern_fds.posix_fds_axioms reg_ex_inv this run] run
  show ?thesis by blast
qed

theorem stale_entry_poisons_witness:
  "\<exists>m r'. take_fd kern (Tcp (SockV4 0 80)) (reg_ex, kw0) = (Panic m, (r', kw0))
    \<and> (\<exists>m'. close_inherited kern (r', kw0) = (Panic m', (r', kw0)))"
proof -
  have "position (\<lambda>li. sock_info_eq (li_sock li) (Tcp (SockV4 0 80))) (inherited_list reg_ex) = Some 1"
    by (simp add: reg_eval)
  moreover have "k_fdt kw0 (li_fd (inherited_list reg_ex ! 1)) = None"
    by (simp add: reg_eval k_fdt_def)
  moreover have "\<not> m_poisoned (inherited_fds reg_ex)" by (simp add: reg_eval)
  ultimately show ?thesis using stale_entry_poisons [OF kern_fds.posix_fds_axioms] by blast
qed

end
