(* ===== verification/Listener.thy ===== *)
theory Listener
  imports Registry
begin

text \<open>
  \<open>src/listener.rs\<close> and \<open>src/seqpacket.rs\<close>: the traits \<open>Listener\<close> (\<open>info\<close>) and
  \<open>TryFromRawFd\<close>, the stream over a seqpacket listener, and \<open>set_nonblocking\<close>. A listener object
  is its raw descriptor; the implementation of a trait is chosen by \<open>listener_kind\<close>.

  The locale \<open>socket_source\<close> is the contract of code that makes a new socket for a registry (it opens
  one fresh descriptor or none). \<open>listen_with\<close> is the shape all \<open>listen\<close> functions share, and its
  behaviour is proved once, in the locale.
\<close>

subsection \<open>The Listener and TryFromRawFd traits\<close>

datatype listener_kind = UnixListenerK | TcpListenerK | UdpSocketK | SeqpacketListenerK

definition tcp_info :: "'w os \<Rightarrow> fd \<Rightarrow> ('w, io_error + listener_info) prog" where
  "tcp_info os fd = (\<lambda>w. case inet_local_addr os fd w of
      Inl e \<Rightarrow> (Ret (Inl e), w)
    | Inr a \<Rightarrow> (Ret (Inr \<lparr>li_fd = fd, li_sock = Tcp a\<rparr>), w))"

definition udp_info :: "'w os \<Rightarrow> fd \<Rightarrow> ('w, io_error + listener_info) prog" where
  "udp_info os fd = (\<lambda>w. case inet_local_addr os fd w of
      Inl e \<Rightarrow> (Ret (Inl e), w)
    | Inr a \<Rightarrow> (Ret (Inr \<lparr>li_fd = fd, li_sock = Udp a\<rparr>), w))"

definition unix_info :: "'w os \<Rightarrow> fd \<Rightarrow> ('w, io_error + listener_info) prog" where
  "unix_info os fd = (\<lambda>w. case unix_local_pathname os fd w of
      Inl e \<Rightarrow> (Ret (Inl e), w)
    | Inr addr \<Rightarrow> (Ret (Inr \<lparr>li_fd = fd, li_sock = Unix addr\<rparr>), w))"

definition seqpacket_info :: "'w os \<Rightarrow> fd \<Rightarrow> ('w, io_error + listener_info) prog" where
  "seqpacket_info os fd = (\<lambda>w. case seqpacket_local_addr os fd w of
      Inl e \<Rightarrow> (Ret (Inl e), w)
    | Inr sockaddr \<Rightarrow> (Ret (Inr \<lparr>li_fd = fd, li_sock = UnixSeqpacket (Some sockaddr)\<rparr>), w))"

fun listener_info_of :: "'w os \<Rightarrow> listener_kind \<Rightarrow> fd \<Rightarrow> ('w, io_error + listener_info) prog" where
  "listener_info_of os UnixListenerK fd = unix_info os fd"
| "listener_info_of os TcpListenerK fd = tcp_info os fd"
| "listener_info_of os UdpSocketK fd = udp_info os fd"
| "listener_info_of os SeqpacketListenerK fd = seqpacket_info os fd"

fun try_from_raw_fd :: "'w os \<Rightarrow> listener_kind \<Rightarrow> fd \<Rightarrow> ('w, io_error + fd) prog" where
  "try_from_raw_fd os SeqpacketListenerK fd = liftP (seqpacket_from_raw_fd os fd)"
| "try_from_raw_fd os _ fd = returnP (Inr fd)"

subsection \<open>seqpacket.rs\<close>

text \<open>\<open>UnixSeqpacketListenerStream::poll_next\<close>; \<open>accept\<close> is \<open>poll_accept\<close> of the listener.\<close>

definition seqpacket_poll_next :: "('s \<Rightarrow> (io_error + 'c) poll \<times> 's) \<Rightarrow> 's \<Rightarrow> (io_error + 'c) option poll \<times> 's" where
  "seqpacket_poll_next accept s = (case accept s of (p, s') \<Rightarrow> (poll_map Some p, s'))"

definition O_NONBLOCK :: int where "O_NONBLOCK = 2048"

definition set_nonblocking :: "'w os \<Rightarrow> fd \<Rightarrow> bool \<Rightarrow> ('w, io_error + unit) prog" where
  "set_nonblocking os fd nonblocking = (\<lambda>w. case sys_getfl os fd w of
      Inl e \<Rightarrow> (Ret (Inl (OsError e)), w)
    | Inr bits \<Rightarrow> (case oflag_from_bits os bits of
          None \<Rightarrow> (Ret (Inl (io_error_other ''fcntl F_GETFL returned invalid flags'')), w)
        | Some oflags \<Rightarrow>
            (let oflags' = (if nonblocking then or oflags O_NONBLOCK else and oflags (not O_NONBLOCK))
             in case sys_setfl os fd oflags' w of
                  (Inl e, w') \<Rightarrow> (Ret (Inl (OsError e)), w')
                | (Inr u, w') \<Rightarrow> (Ret (Inr ()), w'))))"

subsection \<open>Registering a new listener\<close>

text \<open>Dropping a socket closes its descriptor.\<close>

definition drop_fd :: "'w os \<Rightarrow> fd \<Rightarrow> 'w rstate \<Rightarrow> 'w rstate" where
  "drop_fd os fd = (\<lambda>(r, w). (r, snd (sys_close os fd w)))"

text \<open>\<open>self.registry.add(listener.info()?)?; listener\<close>: the listener is dropped when either fails.\<close>

definition register_listener :: "'w os \<Rightarrow> listener_kind \<Rightarrow> fd \<Rightarrow> ('w rstate, io_error + fd) prog" where
  "register_listener os kind fd = owning (drop_fd os fd)
    (tryP (onSnd (listener_info_of os kind fd)) (\<lambda>li. tryP (add os li) (\<lambda>u. returnP (Inr fd))))"

text \<open>The shape of every listen function: adopt the inherited descriptor, or create and register.\<close>

definition listen_with ::
    "'w os \<Rightarrow> sock_info \<Rightarrow> ('w, io_error + fd) prog \<Rightarrow> listener_kind \<Rightarrow> ('w rstate, io_error + fd) prog" where
  "listen_with os k create kind = bindP (inherit os k) (\<lambda>found. case found of
      Some fd \<Rightarrow> onSnd (try_from_raw_fd os kind fd)
    | None \<Rightarrow> tryP (onSnd create) (register_listener os kind))"

subsection \<open>Behaviour\<close>

lemma listener_info_of_cases:
  obtains (ok) si where "listener_info_of os kind fd w = (Ret (Inr \<lparr>li_fd = fd, li_sock = si\<rparr>), w)"
  | (err) e where "listener_info_of os kind fd w = (Ret (Inl e), w)"
proof (cases kind)
  case UnixListenerK
  then show thesis using that by (cases "unix_local_pathname os fd w") (auto simp: unix_info_def)
next
  case TcpListenerK
  then show thesis using that by (cases "inet_local_addr os fd w") (auto simp: tcp_info_def)
next
  case UdpSocketK
  then show thesis using that by (cases "inet_local_addr os fd w") (auto simp: udp_info_def)
next
  case SeqpacketListenerK
  then show thesis using that by (cases "seqpacket_local_addr os fd w") (auto simp: seqpacket_info_def)
qed

text \<open>\<open>t\<close>, \<open>r\<close> before and \<open>t'\<close>, \<open>r'\<close> after: the caller's descriptor is open, close-on-exec and not
  the registry's, which holds a duplicate of it in a new entry. No other descriptor is new, descriptors of others are
  as they were, and whatever the registry or the caller gets was the registry's or is new; no entry in use is lost.\<close>

definition listen_outcome :: "fdtable \<Rightarrow> registry \<Rightarrow> (io_error + fd) outcome \<Rightarrow> fdtable \<Rightarrow> registry \<Rightarrow> bool" where
  "listen_outcome t r x t' r' \<longleftrightarrow>
    (\<forall>fd. t fd = None \<and> t' fd \<noteq> None \<longrightarrow> fd \<in> set (owned_fds r') \<or> x = Ret (Inr fd))
    \<and> (\<forall>fd. t fd \<noteq> None \<and> fd \<notin> set (owned_fds r) \<longrightarrow> t' fd = t fd \<and> fd \<notin> set (owned_fds r'))
    \<and> set (used_list r) \<subseteq> set (used_list r') \<and> set (inherited_list r') \<subseteq> set (inherited_list r)
    \<and> (case x of
        Ret (Inr fd) \<Rightarrow> (t fd = None \<or> fd \<in> set (owned_fds r)) \<and> fd \<notin> set (owned_fds r') \<and> (\<exists>n d si. t' fd = Some d \<and> t' n = Some d \<and> cloexec d
          \<and> used_list r' = used_list r @ [\<lparr>li_fd = n, li_sock = si\<rparr>])
      | Ret (Inl e) \<Rightarrow> True
      | _ \<Rightarrow> False)"

lemma new_socket_outcome:
  assumes "reg_inv t1 r1" and "t1 fd = None" and "t1 n = None" and "fd \<noteq> n" and "used_list r1 = used_list r"
    and "cloexec d" and "\<And>x. t1 x = None \<longleftrightarrow> t x = None"
    and "\<And>x. t x \<noteq> None \<Longrightarrow> x \<notin> set (owned_fds r) \<Longrightarrow> t1 x = t x \<and> x \<notin> set (owned_fds r1)"
    and "set (inherited_list r1) \<subseteq> set (inherited_list r)"
  shows "reg_inv (t1(fd \<mapsto> d, n \<mapsto> d)) (set_used (used_list r1 @ [\<lparr>li_fd = n, li_sock = si\<rparr>]) r1)
    \<and> listen_outcome t r (Ret (Inr fd)) (t1(fd \<mapsto> d, n \<mapsto> d)) (set_used (used_list r1 @ [\<lparr>li_fd = n, li_sock = si\<rparr>]) r1)"
proof -
  have no: "fd \<notin> set (owned_fds r1)" "n \<notin> set (owned_fds r1)" using assms(1-3) owned_fds_open by blast+
  have "d\<lparr>cloexec := True\<rparr> = d" using assms(6) by simp
  then have "reg_inv (t1(fd \<mapsto> d, n \<mapsto> d)) (set_used (used_list r1 @ [\<lparr>li_fd = n, li_sock = si\<rparr>]) r1)"
    using reg_inv_push [OF reg_inv_new_entry [OF assms(1,2), of d], of n d "\<lparr>li_fd = fd, li_sock = si\<rparr>"] assms(3,4)
    by simp
  moreover have "x = fd \<or> x = n" if "t x = None" "(t1(fd \<mapsto> d, n \<mapsto> d)) x \<noteq> None" for x
    using that assms(7) [of x] by (auto split: if_splits)
  moreover have "(t1(fd \<mapsto> d, n \<mapsto> d)) x = t x \<and> x \<notin> set (owned_fds (set_used (used_list r1 @ [\<lparr>li_fd = n, li_sock = si\<rparr>]) r1))"
    if "t x \<noteq> None" "x \<notin> set (owned_fds r)" for x
    using assms(8) [OF that] that(1) assms(2,3) assms(7) [of x] by (auto simp: owned_fds_def)
  moreover have "t fd = None" using assms(2,7) by simp
  ultimately show ?thesis using assms(1-6,9) no unfolding listen_outcome_def by (auto simp: owned_fds_def simp del: fun_upd_apply) simp_all
qed

text \<open>The interface of code that makes a new socket.\<close>

locale socket_source = posix_sockets +
  fixes create :: "('w, io_error + fd) prog"
  assumes create_ok: "create w = (Ret (Inr new), w') \<Longrightarrow> opens_fresh (fdt w) new (fdt w')"
    and create_err: "create w = (Ret (Inl e), w') \<Longrightarrow> fdt w' = fdt w"
    and create_returns: "\<exists>x. fst (create w) = Ret x"

context posix_fds
begin

lemma register_listener_cases:
  assumes "\<not> m_poisoned (used_fds r)" and "fdt w fd = Some d"
  obtains (ok) n si w' where "fdt w n = None" and "fd < n"
      and "listener_info_of os kind fd w = (Ret (Inr \<lparr>li_fd = fd, li_sock = si\<rparr>), w)"
      and "fdt w' = (fdt w)(n \<mapsto> d\<lparr>cloexec := True\<rparr>)"
      and "register_listener os kind fd (r, w) =
        (Ret (Inr fd), (set_used (used_list r @ [\<lparr>li_fd = n, li_sock = si\<rparr>]) r, w'))"
  | (err) e w' where "fdt w' = (fdt w)(fd := None)"
      and "register_listener os kind fd (r, w) = (Ret (Inl e), (r, w'))"
proof (cases rule: listener_info_of_cases [of os kind fd w])
  case info: (ok si)
  from assms(1) show thesis
  proof (cases rule: add_cases [of r w "\<lparr>li_fd = fd, li_sock = si\<rparr>"])
    case (ok n e w')
    then show thesis using info assms(2) that(1) [of n si w'] by (simp add: register_listener_def)
  next
    case (err e w')
    then show thesis
      using info that(2) [of "snd (sys_close os fd w')" e] close_gone [of fd w']
      by (simp add: register_listener_def drop_fd_def)
  qed
next
  case (err e)
  then show thesis
    using that(2) [of "snd (sys_close os fd w)" e] close_gone [of fd w]
    by (simp add: register_listener_def drop_fd_def)
qed

end

context posix_sockets
begin

lemma try_from_raw_fd_cases:
  obtains (ok) w' where "try_from_raw_fd os kind fd w = (Ret (Inr fd), w')" and "fdt w' = fdt w"
  | (err) e w' where "try_from_raw_fd os kind fd w = (Ret (Inl e), w')" and "fdt w' = (fdt w)(fd := None)"
proof (cases "kind = SeqpacketListenerK")
  case True
  obtain x w' where x: "seqpacket_from_raw_fd os fd w = (x, w')" by fastforce
  then show thesis using that True seqpacket_raw_ok [of fd w _ w'] seqpacket_raw_err [of fd w _ w']
    by (cases x) auto
next
  case False
  then show thesis using that(1) [of w] by (cases kind) auto
qed

end

context socket_source
begin

lemma create_cases:
  obtains (ok) fd w' where "create w = (Ret (Inr fd), w')" and "opens_fresh (fdt w) fd (fdt w')"
  | (err) e w' where "create w = (Ret (Inl e), w')" and "fdt w' = fdt w"
proof -
  obtain x w' where "create w = (Ret x, w')" using create_returns [of w] by (metis prod.collapse)
  then show thesis using that create_ok create_err by (cases x) auto
qed

text \<open>One new socket, held by the caller and, as a duplicate, by the registry; or an error that leaves
  table and registry as they were.\<close>

lemma create_register_cases:
  assumes "\<not> m_poisoned (used_fds r)"
  obtains (ok) fd n j si w' where "fdt w fd = None" and "fdt w n = None" and "fd < n"
      and "j \<notin> ofds (fdt w)"
      and "fdt w' = (fdt w)(fd \<mapsto> \<lparr>cloexec = True, ofd = j\<rparr>, n \<mapsto> \<lparr>cloexec = True, ofd = j\<rparr>)"
      and "tryP (onSnd create) (register_listener os kind) (r, w) =
        (Ret (Inr fd), (set_used (used_list r @ [\<lparr>li_fd = n, li_sock = si\<rparr>]) r, w'))"
  | (err) e w' where "fdt w' = fdt w"
      and "tryP (onSnd create) (register_listener os kind) (r, w) = (Ret (Inl e), (r, w'))"
proof (cases rule: create_cases [of w])
  case (err e w')
  then show thesis using that(2) [of w' e] by simp
next
  case (ok fd w1)
  note new = opens_freshD [OF ok(2)]
  obtain j where j: "fdt w1 = (fdt w)(fd \<mapsto> \<lparr>cloexec = True, ofd = j\<rparr>)" "j \<notin> ofds (fdt w)"
    using ok(2) by (auto simp: opens_fresh_def)
  have "fdt w1 fd = Some \<lparr>cloexec = True, ofd = j\<rparr>" using j by simp
  with assms show thesis
  proof (cases rule: register_listener_cases [of r w1 fd _ kind])
    case reg: (ok n si w2)
    then show thesis using that(1) [of fd n j w2 si] ok j new(1) by (auto split: if_splits)
  next
    case reg: (err e w2)
    then show thesis using that(2) [of w2 e] ok new(4) by simp
  qed
qed

lemma listen_new_cases:
  assumes "reg_inv (fdt w) r" and "\<forall>li\<in>set (inherited_list r). \<not> sock_info_eq (li_sock li) k"
  obtains (ok) fd n j si w' where "fdt w fd = None" and "fdt w n = None" and "fd < n"
      and "j \<notin> ofds (fdt w)"
      and "fdt w' = (fdt w)(fd \<mapsto> \<lparr>cloexec = True, ofd = j\<rparr>, n \<mapsto> \<lparr>cloexec = True, ofd = j\<rparr>)"
      and "listen_with os k create kind (r, w) =
        (Ret (Inr fd), (set_used (used_list r @ [\<lparr>li_fd = n, li_sock = si\<rparr>]) r, w'))"
  | (err) e w' where "fdt w' = fdt w" and "listen_with os k create kind (r, w) = (Ret (Inl e), (r, w'))"
proof -
  have inh: "inherit os k (r, w) = (Ret None, (r, w))"
    using assms by (cases rule: inherit_cases [of w r k])
      (auto simp: position_SomeD dest!: position_SomeD nth_mem)
  have "\<not> m_poisoned (used_fds r)" using assms(1) by (simp add: reg_inv_def)
  then show thesis
    by (cases rule: create_register_cases [of r w kind]) (use that inh in \<open>auto simp: listen_with_def\<close>)
qed

text \<open>A matching inherited entry and room for the duplicate: the inherited socket, nothing created.\<close>

lemma listen_inherited:
  assumes "inherit os k (r, w) = (Ret (Some fd), (r', w'))"
  obtains (ok) w'' where "listen_with os k create kind (r, w) = (Ret (Inr fd), (r', w''))" and "fdt w'' = fdt w'"
  | (err) e w'' where "listen_with os k create kind (r, w) = (Ret (Inl e), (r', w''))"
      and "fdt w'' = (fdt w')(fd := None)" and "kind = SeqpacketListenerK"
proof (cases rule: try_from_raw_fd_cases [of kind fd w'])
  case (ok w'')
  then show thesis using that(1) assms by (simp add: listen_with_def)
next
  case (err e w'')
  then have "kind = SeqpacketListenerK" by (cases kind) auto
  then show thesis using that(2) assms err by (simp add: listen_with_def)
qed

text \<open>Whatever happens, the registry keeps its invariant, and the caller and the registry hold distinct
  descriptors of one socket, or the call failed and every new descriptor is the registry's.\<close>

lemma listen_registers:
  assumes "reg_inv (fdt w) r" and "listen_with os k create kind (r, w) = (x, (r', w'))"
  shows "reg_inv (fdt w') r' \<and> listen_outcome (fdt w) r x (fdt w') r'"
  using assms(1)
proof (cases rule: inherit_cases [of w r k])
  case absent
  from assms(1) absent(1) show ?thesis
  proof (cases rule: listen_new_cases [where kind = kind])
    case (ok fd n j si w2)
    then show ?thesis using assms
        new_socket_outcome [OF assms(1) ok(1,2), of r "\<lparr>cloexec = True, ofd = j\<rparr>" "fdt w" si] by auto
  next
    case (err e w2)
    then show ?thesis using assms by (auto simp: listen_outcome_def)
  qed
next
  case (found p fd d n w1)
  let ?r1 = "set_used (used_list r @ [\<lparr>li_fd = n, li_sock = k\<rparr>]) (set_inherited (remove_at p (inherited_list r)) r)"
  have inv1: "reg_inv (fdt w1) ?r1" using inherit_inv [OF assms(1) found(8)] by simp
  have fd: "fd \<notin> set (owned_fds ?r1)" by (rule inherit_not_owned [OF assms(1) found(8)])
  have own: "fd \<in> set (owned_fds r)" using found(2,3) by (auto simp: owned_fds_def)
  have sub: "set (owned_fds ?r1) \<subseteq> insert n (set (owned_fds r))"
    using set_remove_at_subset [of p "inherited_list r"] by (auto simp: owned_fds_def)
  have new: "x \<in> set (owned_fds ?r1)" if "fdt w x = None" "(fdt w1) x \<noteq> None" for x
    using that found(4-7) by (auto simp: owned_fds_def split: if_splits)
  have frame: "fdt w1 x = fdt w x \<and> x \<noteq> fd \<and> x \<notin> set (owned_fds ?r1)" if "fdt w x \<noteq> None" "x \<notin> set (owned_fds r)" for x
    using that own sub found(5,7) by auto
  show ?thesis
    using found(8)
  proof (cases rule: listen_inherited [where kind = kind])
    case (ok w2)
    have "\<exists>d. fdt w1 fd = Some d \<and> fdt w1 n = Some d \<and> cloexec d" using found(7) by auto
    then show ?thesis using assms(2) ok inv1 fd own new frame set_remove_at_subset [of p "inherited_list r"] by (auto simp: listen_outcome_def simp del: fun_upd_apply)
  next
    case (err e w2)
    have "reg_inv ((fdt w1)(fd := None)) ?r1" using fd by (intro reg_inv_frame [OF inv1]) auto
    then show ?thesis using assms(2) err new frame set_remove_at_subset [of p "inherited_list r"]
      by (auto simp: listen_outcome_def split: if_splits)
  qed
next
  case (lost p fd d w1)
  let ?r1 = "set_inherited (remove_at p (inherited_list r)) r"
  have inv1: "reg_inv (fdt w1) ?r1" using inherit_inv [OF assms(1) lost(6)] by simp
  have run: "listen_with os k create kind (r, w) = tryP (onSnd create) (register_listener os kind) (?r1, w1)"
    using lost by (simp add: listen_with_def)
  have dom: "\<And>fd'. fdt w1 fd' = None \<longleftrightarrow> fdt w fd' = None" using lost(4,5) by auto
  have "fd \<in> set (owned_fds r)" using lost(2,3) by (auto simp: owned_fds_def)
  then have frame: "fdt w1 x = fdt w x \<and> x \<notin> set (owned_fds ?r1)" if "fdt w x \<noteq> None" "x \<notin> set (owned_fds r)" for x
    using that set_remove_at_subset [of p "inherited_list r"] lost(5) by (auto simp: owned_fds_def)
  have "\<not> m_poisoned (used_fds ?r1)" using inv1 by (simp add: reg_inv_def)
  then show ?thesis
  proof (cases rule: create_register_cases [of ?r1 w1 kind])
    case (ok fd' n j si w2)
    then show ?thesis using assms(2) run
        new_socket_outcome [OF inv1 ok(1,2), of r "\<lparr>cloexec = True, ofd = j\<rparr>" "fdt w" si] dom frame set_remove_at_subset [of p "inherited_list r"] by auto
  next
    case (err e w2)
    then show ?thesis using assms(2) run inv1 dom frame set_remove_at_subset [of p "inherited_list r"] by (auto simp: listen_outcome_def)
  qed
qed

end

end
