(* ===== verification/Wire.thy ===== *)
theory Wire
  imports Registry
begin

text \<open>
  The message with the listeners that a parent sends to its child. The sources call \<open>bincode\<close>
  (\<open>serialize_into\<close>, \<open>deserialize_from\<close>) on \<open>Vec<ListenerInfo>\<close>;
  \<open>bincode\<close> is a parameter, the record \<open>codec\<close>, and what the code relies on is the
  law of the locale \<open>bincode_laws\<close>: what was encoded decodes to the same list.
  \<open>serde\<close> writes an IPv6 socket address as address and port, so the law is about entries without
  a flow label and a scope (\<open>wire_safe\<close>).

  \<open>bincode_ref\<close> is a codec in the default format of bincode 1.3 (fixed-width little-endian
  integers, a 64-bit length before every sequence, a 32-bit number for an enum variant, one byte for an
  option), driven by the declarations of \<open>SockInfo\<close> and \<open>ListenerInfo\<close>; it satisfies
  the law and is what concrete runs use.
\<close>

subsection \<open>The codec as a parameter\<close>

datatype bincode_error = BincodeIo io_error | BincodeCustom string

record codec =
  serialize :: "listener_info list \<Rightarrow> bincode_error + string"
  deserialize :: "string \<Rightarrow> bincode_error + listener_info list"

fun addr_wire_safe :: "socket_addr \<Rightarrow> bool" where
  "addr_wire_safe (SockV4 _ _) = True"
| "addr_wire_safe (SockV6 _ _ f s) = (f = 0 \<and> s = 0)"

fun wire_safe :: "sock_info \<Rightarrow> bool" where
  "wire_safe (Tcp a) = addr_wire_safe a"
| "wire_safe (Udp a) = addr_wire_safe a"
| "wire_safe _ = True"

locale bincode_laws =
  fixes codec :: codec
  assumes round_trip: "serialize codec lis = Inr b \<Longrightarrow> \<forall>li\<in>set lis. is_i32 (li_fd li) \<and> wire_safe (li_sock li) \<Longrightarrow>
    deserialize codec b = Inr lis"

subsection \<open>Integers and byte strings\<close>

fun le_bytes :: "nat \<Rightarrow> nat \<Rightarrow> string" where
  "le_bytes 0 n = []"
| "le_bytes (Suc k) n = char_of (n mod 256) # le_bytes k (n div 256)"

fun le_value :: "string \<Rightarrow> nat" where
  "le_value [] = 0"
| "le_value (c # cs) = of_char c + 256 * le_value cs"

type_synonym 'a decoder = "string \<Rightarrow> ('a \<times> string) option"

definition get_bytes :: "nat \<Rightarrow> string decoder" where
  "get_bytes k s = (if length s < k then None else Some (take k s, drop k s))"

definition get_le :: "nat \<Rightarrow> nat decoder" where
  "get_le k s = (case get_bytes k s of None \<Rightarrow> None | Some (b, s') \<Rightarrow> Some (le_value b, s'))"

definition put_i32 :: "int \<Rightarrow> string" where
  "put_i32 n = le_bytes 4 (nat (n mod 4294967296))"

definition get_i32 :: "int decoder" where
  "get_i32 s = (case get_le 4 s of
      None \<Rightarrow> None
    | Some (n, s') \<Rightarrow> Some (if n < 2147483648 then int n else int n - 4294967296, s'))"

definition put_str :: "string \<Rightarrow> string" where
  "put_str t = le_bytes 8 (length t) @ t"

definition get_str :: "string decoder" where
  "get_str s = (case get_le 8 s of None \<Rightarrow> None | Some (n, s') \<Rightarrow> get_bytes n s')"

subsection \<open>The format of SockInfo and ListenerInfo\<close>

fun put_path_option :: "path option \<Rightarrow> string" where
  "put_path_option None = [char_of (0::nat)]"
| "put_path_option (Some p) = char_of (1::nat) # put_str p"

definition get_path_option :: "path option decoder" where
  "get_path_option s = (case get_le 1 s of
      Some (0, s') \<Rightarrow> Some (None, s')
    | Some (Suc 0, s') \<Rightarrow> (case get_str s' of None \<Rightarrow> None | Some (p, s'') \<Rightarrow> Some (Some p, s''))
    | _ \<Rightarrow> None)"

fun put_addr :: "socket_addr \<Rightarrow> string" where
  "put_addr (SockV4 ip p) = le_bytes 4 0 @ rev (le_bytes 4 (unat ip)) @ le_bytes 2 (unat p)"
| "put_addr (SockV6 ip p f s) = le_bytes 4 1 @ rev (le_bytes 16 (unat ip)) @ le_bytes 2 (unat p)"

definition get_ip_port :: "nat \<Rightarrow> (nat \<times> nat) decoder" where
  "get_ip_port k s = (case get_bytes k s of
      None \<Rightarrow> None
    | Some (b, s') \<Rightarrow> (case get_le 2 s' of None \<Rightarrow> None | Some (p, s'') \<Rightarrow> Some ((le_value (rev b), p), s'')))"

definition get_addr :: "socket_addr decoder" where
  "get_addr s = (case get_le 4 s of
      Some (0, s') \<Rightarrow> map_option (\<lambda>((ip, p), s''). (SockV4 (of_nat ip) (of_nat p), s'')) (get_ip_port 4 s')
    | Some (Suc 0, s') \<Rightarrow> map_option (\<lambda>((ip, p), s''). (SockV6 (of_nat ip) (of_nat p) 0 0, s'')) (get_ip_port 16 s')
    | _ \<Rightarrow> None)"

fun put_sock_info :: "sock_info \<Rightarrow> string" where
  "put_sock_info (Unix p) = le_bytes 4 0 @ put_path_option p"
| "put_sock_info (Tcp a) = le_bytes 4 1 @ put_addr a"
| "put_sock_info (Udp a) = le_bytes 4 2 @ put_addr a"
| "put_sock_info (UnboundUnixDatagram n) = le_bytes 4 3 @ put_str n"
| "put_sock_info (UnixSeqpacket p) = le_bytes 4 4 @ put_path_option p"

definition get_sock_info :: "sock_info decoder" where
  "get_sock_info s = (case get_le 4 s of
      None \<Rightarrow> None
    | Some (v, s') \<Rightarrow>
        if v = 0 then map_option (apfst Unix) (get_path_option s')
        else if v = 1 then map_option (apfst Tcp) (get_addr s')
        else if v = 2 then map_option (apfst Udp) (get_addr s')
        else if v = 3 then map_option (apfst UnboundUnixDatagram) (get_str s')
        else if v = 4 then map_option (apfst UnixSeqpacket) (get_path_option s')
        else None)"

definition put_listener_info :: "listener_info \<Rightarrow> string" where
  "put_listener_info li = put_i32 (li_fd li) @ put_sock_info (li_sock li)"

definition get_listener_info :: "listener_info decoder" where
  "get_listener_info s = (case get_i32 s of
      None \<Rightarrow> None
    | Some (n, s') \<Rightarrow> map_option (apfst (\<lambda>k. \<lparr>li_fd = n, li_sock = k\<rparr>)) (get_sock_info s'))"

fun get_many :: "nat \<Rightarrow> 'a decoder \<Rightarrow> 'a list decoder" where
  "get_many 0 g s = Some ([], s)"
| "get_many (Suc k) g s = (case g s of
      None \<Rightarrow> None
    | Some (x, s') \<Rightarrow> map_option (apfst (Cons x)) (get_many k g s'))"

fun sock_info_lens :: "sock_info \<Rightarrow> nat" where
  "sock_info_lens (Unix (Some p)) = length p"
| "sock_info_lens (UnixSeqpacket (Some p)) = length p"
| "sock_info_lens (UnboundUnixDatagram n) = length n"
| "sock_info_lens _ = 0"

text \<open>A length is a \<open>u64\<close>; a longer list or string does not exist in memory, and is refused.\<close>

definition ref_serialize :: "listener_info list \<Rightarrow> bincode_error + string" where
  "ref_serialize lis =
    (if length lis < 2 ^ 64 \<and> (\<forall>li\<in>set lis. sock_info_lens (li_sock li) < 2 ^ 64)
     then Inr (le_bytes 8 (length lis) @ concat (map put_listener_info lis))
     else Inl (BincodeCustom ''sequence too long''))"

definition ref_deserialize :: "string \<Rightarrow> bincode_error + listener_info list" where
  "ref_deserialize s = (case get_le 8 s of
      None \<Rightarrow> Inl (BincodeIo (io_error_other ''failed to fill whole buffer''))
    | Some (n, s') \<Rightarrow> (case get_many n get_listener_info s' of
          None \<Rightarrow> Inl (BincodeCustom ''invalid message'')
        | Some (lis, rest) \<Rightarrow> Inr lis))"

definition bincode_ref :: codec where
  "bincode_ref = \<lparr>serialize = ref_serialize, deserialize = ref_deserialize\<rparr>"

subsection \<open>Round trips\<close>

lemma length_le_bytes [simp]: "length (le_bytes k n) = k"
  by (induction k arbitrary: n) auto

lemma le_value_le_bytes: "n < 256 ^ k \<Longrightarrow> le_value (le_bytes k n) = n"
proof (induction k arbitrary: n)
  case 0
  then show ?case by simp
next
  case (Suc k)
  then have "n div 256 < 256 ^ k" by (simp add: less_mult_imp_div_less mult.commute)
  then show ?case using Suc.IH by simp
qed

lemma get_bytes_append [simp]: "length b = k \<Longrightarrow> get_bytes k (b @ s) = Some (b, s)"
  by (simp add: get_bytes_def)

lemma get_le_append: "n < 256 ^ k \<Longrightarrow> get_le k (le_bytes k n @ s) = Some (n, s)"
  by (simp add: get_le_def le_value_le_bytes)

lemma i32_mod: "is_i32 n \<Longrightarrow> n mod 4294967296 = (if n < 0 then n + 4294967296 else n)"
  using mod_pos_pos_trivial [of n 4294967296] mod_pos_pos_trivial [of "n + 4294967296" 4294967296]
  by (auto simp: is_i32_def i32_min_def i32_max_def)

lemma get_i32_append:
  assumes "is_i32 n"
  shows "get_i32 (put_i32 n @ s) = Some (n, s)"
proof -
  have "nat (n mod 4294967296) < 256 ^ 4" by (simp add: nat_less_iff)
  from get_le_append [OF this] show ?thesis
    using assms i32_mod [OF assms]
    by (simp add: get_i32_def put_i32_def is_i32_def i32_min_def i32_max_def nat_less_iff)
qed

lemma get_str_append: "length t < 2 ^ 64 \<Longrightarrow> get_str (put_str t @ s) = Some (t, s)"
  using get_le_append [of "length t" 8 "t @ s"] by (simp add: get_str_def put_str_def)

lemma get_path_option_append:
  "(\<And>q. p = Some q \<Longrightarrow> length q < 2 ^ 64) \<Longrightarrow> get_path_option (put_path_option p @ s) = Some (p, s)"
  by (cases p) (simp_all add: get_path_option_def get_le_def get_bytes_def get_str_append)

lemma unat_bound: "unat (w :: 'a::len word) < 2 ^ LENGTH('a)"
  by (rule unsigned_less)

lemma get_ip_port_append:
  "n < 256 ^ k \<Longrightarrow> p < 65536 \<Longrightarrow>
    get_ip_port k (rev (le_bytes k n) @ le_bytes 2 p @ s) = Some ((n, p), s)"
  using get_le_append [of p 2 s] by (simp add: get_ip_port_def le_value_le_bytes)

lemma get_addr_append: "addr_wire_safe a \<Longrightarrow> get_addr (put_addr a @ s) = Some (a, s)"
proof (cases a)
  case (SockV4 ip p)
  have "unat ip < 256 ^ 4" "unat p < 65536" using unat_bound [of ip] unat_bound [of p] by simp_all
  from get_ip_port_append [OF this] show ?thesis
    using SockV4 get_le_append [of 0 4] by (simp add: get_addr_def)
next
  case (SockV6 ip p f sc)
  assume "addr_wire_safe a"
  have "unat ip < 256 ^ 16" "unat p < 65536" using unat_bound [of ip] unat_bound [of p] by simp_all
  from get_ip_port_append [OF this] show ?thesis
    using SockV6 \<open>addr_wire_safe a\<close> get_le_append [of 1 4] by (simp add: get_addr_def)
qed

lemma get_sock_info_append:
  assumes "wire_safe k" and "sock_info_lens k < 2 ^ 64"
  shows "get_sock_info (put_sock_info k @ s) = Some (k, s)"
proof (cases k)
  case (Unix p)
  then show ?thesis
    using assms get_le_append [of 0 4] get_path_option_append [of p s]
    by (cases p) (auto simp: get_sock_info_def)
next
  case (UnixSeqpacket p)
  then show ?thesis
    using assms get_le_append [of 4 4] get_path_option_append [of p s]
    by (cases p) (auto simp: get_sock_info_def)
qed (use assms get_le_append [of 1 4] get_le_append [of 2 4] get_le_append [of 3 4] in
  \<open>auto simp: get_sock_info_def get_addr_append get_str_append\<close>)

lemma get_listener_info_append:
  assumes "is_i32 (li_fd li)" and "wire_safe (li_sock li)" and "sock_info_lens (li_sock li) < 2 ^ 64"
  shows "get_listener_info (put_listener_info li @ s) = Some (li, s)"
  using assms get_i32_append [of "li_fd li"] get_sock_info_append [of "li_sock li" s]
  by (simp add: get_listener_info_def put_listener_info_def)

lemma get_many_append:
  assumes "\<And>x s. x \<in> set xs \<Longrightarrow> g (f x @ s) = Some (x, s)"
  shows "get_many (length xs) g (concat (map f xs) @ s) = Some (xs, s)"
  using assms by (induction xs) simp_all

lemma ref_round_trip:
  assumes "ref_serialize lis = Inr b" and "\<forall>li\<in>set lis. is_i32 (li_fd li) \<and> wire_safe (li_sock li)"
  shows "ref_deserialize b = Inr lis"
proof -
  have lens: "length lis < 256 ^ 8" "\<forall>li\<in>set lis. sock_info_lens (li_sock li) < 2 ^ 64"
    and b: "b = le_bytes 8 (length lis) @ concat (map put_listener_info lis)"
    using assms(1) by (auto simp: ref_serialize_def split: if_splits)
  have "get_many (length lis) get_listener_info (concat (map put_listener_info lis) @ []) = Some (lis, [])"
    using assms(2) lens by (intro get_many_append get_listener_info_append) auto
  then show ?thesis using get_le_append [OF lens(1)] b by (simp add: ref_deserialize_def)
qed

interpretation wire_ref: bincode_laws bincode_ref
  by unfold_locales (simp add: bincode_ref_def ref_round_trip)

end
