(* ===== verification/Inheriter.thy ===== *)
theory Inheriter
  imports Wire
begin

text \<open>
  \<open>src/inheriter.rs\<close>: what a process reads from its environment at start. \<open>init_child\<close> tells a
  first start from an upgrade, reads the listeners from the pipe its parent left and returns them with
  the pipe for the ready message. The process environment is an argument; \<open>env_var\<close> is
  \<open>std::env::var\<close>.
\<close>

subsection \<open>The process environment\<close>

datatype var_error = NotPresent | NotUnicode

definition env_var :: "environment \<Rightarrow> string \<Rightarrow> var_error + string" where
  "env_var env k = (case env k of
      None \<Rightarrow> Inl NotPresent
    | Some (EnvText s) \<Rightarrow> Inr s
    | Some EnvNotUnicode \<Rightarrow> Inl NotUnicode)"

subsection \<open>init_child\<close>

datatype inherit_error =
    NotAnUpgrade
  | DeserializationError bincode_error
  | BadEnvironment string

definition pipe_fd_from_env :: "environment \<Rightarrow> string \<Rightarrow> inherit_error + fd" where
  "pipe_fd_from_env env name = (case env_var env name of
      Inl e \<Rightarrow> Inl (BadEnvironment (''cannot read env var '' @ name))
    | Inr s \<Rightarrow> (case parse_i32 s of
          Inl e \<Rightarrow> Inl (BadEnvironment (name @ '' is not an integer''))
        | Inr fd \<Rightarrow> Inr fd))"

text \<open>\<open>deserialize_from(reader)\<close> consumes the reader, which closes its descriptor on every path.\<close>

definition deserialize_from :: "'w os \<Rightarrow> codec \<Rightarrow> fd \<Rightarrow> ('w, bincode_error + listener_info list) prog" where
  "deserialize_from os codec fd = (\<lambda>w. case pipe_recv os fd w of
      (Inl e, w') \<Rightarrow> (Ret (Inl (BincodeIo e)), snd (sys_close os fd w'))
    | (Inr b, w') \<Rightarrow> (Ret (deserialize codec b), snd (sys_close os fd w')))"

definition init_child :: "'w os \<Rightarrow> codec \<Rightarrow> environment \<Rightarrow> ('w, inherit_error + listener_info list \<times> fd) prog" where
  "init_child os codec env = (case env_var env ENV_UPGRADE of
      Inr s \<Rightarrow>
        if s = UPGRADE_TRUE_VAL
        then tryP (returnP (pipe_fd_from_env env ENV_PIPE_FDS)) (\<lambda>inherit_fd.
             tryP (mapErrP DeserializationError (deserialize_from os codec inherit_fd)) (\<lambda>inherited_listeners.
             tryP (returnP (pipe_fd_from_env env ENV_PIPE_READY)) (\<lambda>ready_fd.
             returnP (Inr (inherited_listeners, ready_fd)))))
        else returnP (Inl (BadEnvironment (''Value of env var '' @ ENV_UPGRADE @ '' is not valid'')))
    | Inl NotPresent \<Rightarrow> returnP (Inl NotAnUpgrade)
    | Inl NotUnicode \<Rightarrow> returnP (Inl (BadEnvironment (''Value of env var '' @ ENV_UPGRADE @ '' is not valid''))))"

subsection \<open>Facts\<close>

lemma pipe_fd_from_env_show:
  "env name = Some (EnvText (show_int fd)) \<Longrightarrow> is_i32 fd \<Longrightarrow> pipe_fd_from_env env name = Inr fd"
  by (simp add: pipe_fd_from_env_def env_var_def parse_i32_show_int)

text \<open>Started by a parent: the variables are set and the pipe holds an encoded list.\<close>

lemma init_child_upgrade:
  assumes "env ENV_UPGRADE = Some (EnvText UPGRADE_TRUE_VAL)"
    and "env ENV_PIPE_FDS = Some (EnvText (show_int lfd))" and "is_i32 lfd"
    and "env ENV_PIPE_READY = Some (EnvText (show_int rfd))" and "is_i32 rfd"
    and "pipe_recv os lfd w = (Inr b, w')" and "deserialize codec b = Inr lis"
  shows "init_child os codec env w = (Ret (Inr (lis, rfd)), snd (sys_close os lfd w'))"
proof -
  have "deserialize_from os codec lfd w = (Ret (Inr lis), snd (sys_close os lfd w'))"
    using assms by (simp add: deserialize_from_def)
  then show ?thesis
    using assms pipe_fd_from_env_show [of env] by (simp add: init_child_def env_var_def)
qed

lemma init_child_first_start: "env ENV_UPGRADE = None \<Longrightarrow> init_child os codec env w = (Ret (Inl NotAnUpgrade), w)"
  by (simp add: init_child_def env_var_def)

lemma first_start_iff: "fst (init_child os codec env w) = Ret (Inl NotAnUpgrade) \<longleftrightarrow> env ENV_UPGRADE = None"
proof
  assume "env ENV_UPGRADE = None"
  then show "fst (init_child os codec env w) = Ret (Inl NotAnUpgrade)"
    by (simp add: init_child_first_start)
next
  have no: "pipe_fd_from_env env k \<noteq> Inl NotAnUpgrade" for k
    by (auto simp: pipe_fd_from_env_def split: sum.splits)
  assume "fst (init_child os codec env w) = Ret (Inl NotAnUpgrade)"
  then show "env ENV_UPGRADE = None"
    using no by (auto simp: init_child_def env_var_def tryP_def bindP_def mapErrP_def returnP_def
        deserialize_from_def split: option.splits env_value.splits if_splits prod.splits sum.splits)
qed

end
