(* ===== verification/Systemd_Sockets.thy ===== *)
theory Systemd_Sockets
  imports Inheriter
begin

text \<open>
  \<open>src/tokio_ecdysis/systemd_sockets.rs\<close>: the sockets systemd passes. \<open>systemd_sockets_new\<close> reads
  \<open>LISTEN_PID\<close> and \<open>LISTEN_FDNAMES\<close>, marks every passed descriptor close-on-exec and maps names to
  descriptors; \<open>find_socket\<close> looks a name up. The \<open>HashMap\<close> is a map; the debug text of an error
  of the standard library is an argument.
\<close>

subsection \<open>Data\<close>

definition LISTEN_PID :: string where "LISTEN_PID = ''LISTEN_PID''"
definition LISTEN_FDNAMES :: string where "LISTEN_FDNAMES = ''LISTEN_FDNAMES''"
definition LISTEN_FDS :: string where "LISTEN_FDS = ''LISTEN_FDS''"

definition SD_LISTEN_FDS_START :: int where "SD_LISTEN_FDS_START = 3"

type_synonym systemd_sockets = "string \<rightharpoonup> fd"

datatype systemd_sockets_read_error =
    EnvironmentVariableError string
  | DoesNotMatchListenPid
  | DuplicateSystemdSocketsRead

datatype systemd_socket_error =
    SystemdSocketsNotInitialized
  | SocketNotFoundInParent string
  | SocketNotFoundInChildRegistry string
  | IoError io_error
  | SockInfoIncorrect string

definition systemd_socket_error_from_io :: "io_error \<Rightarrow> systemd_socket_error" where
  "systemd_socket_error_from_io e = IoError e"

definition special_socket_names :: "string list" where
  "special_socket_names = [''unknown'', ''stored'', ''connection'']"

subsection \<open>Reading the environment\<close>

text \<open>Debug texts: of a \<open>VarError\<close>, of a \<open>ParseIntError\<close>, of a string.\<close>

record debug_text =
  dbg_var :: "var_error \<Rightarrow> string"
  dbg_parse :: "parse_int_error \<Rightarrow> string"
  dbg_str :: "string \<Rightarrow> string"
  dbg_sock :: "sock_info \<Rightarrow> string"

text \<open>The loop over the names: \<open>fd\<close> is \<open>SD_LISTEN_FDS_START + i\<close>.\<close>

fun read_names :: "'w os \<Rightarrow> fd \<Rightarrow> string list \<Rightarrow> systemd_sockets \<Rightarrow> ('w, systemd_sockets) prog" where
  "read_names os fd [] sockets = returnP sockets"
| "read_names os fd (fd_name # names) sockets = bindP (set_cloexec os fd) (\<lambda>u.
     if fd_name \<in> set special_socket_names then read_names os (fd + 1) names sockets
     else if sockets fd_name \<noteq> None then read_names os (fd + 1) names sockets
     else read_names os (fd + 1) names (sockets(fd_name \<mapsto> fd)))"

definition systemd_sockets_new ::
    "'w os \<Rightarrow> debug_text \<Rightarrow> environment \<Rightarrow> ('w, systemd_sockets_read_error + systemd_sockets) prog" where
  "systemd_sockets_new os dbg env = (case env_var env LISTEN_PID of
      Inl e \<Rightarrow> returnP (Inl (EnvironmentVariableError (''env LISTEN_PID missing '' @ dbg_var dbg e)))
    | Inr listen_pid_str \<Rightarrow> (case parse_i32 listen_pid_str of
          Inl e \<Rightarrow> returnP (Inl (EnvironmentVariableError (''parsing pid from string failed '' @ dbg_parse dbg e)))
        | Inr listen_pid \<Rightarrow> (case env_var env LISTEN_FDNAMES of
              Inl e \<Rightarrow> returnP (Inl (EnvironmentVariableError (''env LISTEN_FDNAMES missing '' @ dbg_var dbg e)))
            | Inr listen_fd_names \<Rightarrow> (\<lambda>w.
                if listen_pid \<noteq> sys_getpid os w then (Ret (Inl DoesNotMatchListenPid), w)
                else bindP (read_names os SD_LISTEN_FDS_START (split_char (CHR '':'') listen_fd_names) Map.empty)
                       (\<lambda>sockets. returnP (Inr sockets)) w))))"

definition find_socket :: "debug_text \<Rightarrow> systemd_sockets \<Rightarrow> string \<Rightarrow> systemd_socket_error + fd" where
  "find_socket dbg locked_map name = (case locked_map name of
      Some fd \<Rightarrow> Inr fd
    | None \<Rightarrow> Inl (SocketNotFoundInParent (''fd '' @ dbg_str dbg name @ '' not found LISTEN_FDNAMES'')))"

subsection \<open>Which descriptors get which names\<close>

definition set_cloexec_range :: "fd \<Rightarrow> nat \<Rightarrow> fdtable \<Rightarrow> fdtable" where
  "set_cloexec_range fd n t = (\<lambda>x. if fd \<le> x \<and> x < fd + int n then map_option (\<lambda>d. d\<lparr>cloexec := True\<rparr>) (t x) else t x)"

lemma set_cloexec_range_0 [simp]: "set_cloexec_range fd 0 t = t"
  by (auto simp: set_cloexec_range_def fun_eq_iff)

text \<open>The entry of a name: an old one stays; a special name has none; otherwise the first occurrence counts.\<close>

definition named_fd :: "fd \<Rightarrow> string list \<Rightarrow> systemd_sockets \<Rightarrow> string \<Rightarrow> fd option" where
  "named_fd fd names m n = (case m n of
      Some x \<Rightarrow> Some x
    | None \<Rightarrow> if n \<in> set special_socket_names then None
        else map_option (\<lambda>i. fd + int i) (position (\<lambda>x. x = n) names))"

lemma named_fd_Cons:
  assumes "n \<notin> set special_socket_names"
  shows "named_fd (fd + 1) names (if m n = None then m(n \<mapsto> fd) else m) = named_fd fd (n # names) m"
proof
  fix k
  show "named_fd (fd + 1) names (if m n = None then m(n \<mapsto> fd) else m) k = named_fd fd (n # names) m k"
    using assms
    by (cases "position (\<lambda>x. x = k) names"; cases "k = n") (auto simp: named_fd_def split: option.splits)
qed

lemma named_fd_special:
  assumes "n \<in> set special_socket_names"
  shows "named_fd (fd + 1) names m = named_fd fd (n # names) m"
proof
  fix k
  show "named_fd (fd + 1) names m k = named_fd fd (n # names) m k"
    using assms by (cases "position (\<lambda>x. x = k) names") (auto simp: named_fd_def split: option.splits)
qed

context posix_fds
begin

lemma read_names_run:
  assumes "\<forall>i<length names. fdt w (fd + int i) \<noteq> None"
  obtains w' where "read_names os fd names m w = (Ret (named_fd fd names m), w')"
    and "fdt w' = set_cloexec_range fd (length names) (fdt w)"
  using assms
proof (induction names arbitrary: fd m w thesis)
  case Nil
  have "named_fd fd [] m = m" by (auto simp: named_fd_def fun_eq_iff split: option.splits)
  then show ?case using Nil(1) [of w] by simp
next
  case (Cons n names)
  obtain d where d: "fdt w fd = Some d" using Cons.prems(2) by force
  obtain w1 where w1: "set_cloexec os fd w = (Ret (), w1)" "fdt w1 = (fdt w)(fd \<mapsto> d\<lparr>cloexec := True\<rparr>)"
    using set_cloexec_open [OF d] by blast
  have op: "\<forall>i<length names. fdt w1 (fd + 1 + int i) \<noteq> None"
  proof (intro allI impI)
    fix i assume "i < length names"
    then have "fdt w (fd + int (Suc i)) \<noteq> None" using Cons.prems(2) by auto
    then show "fdt w1 (fd + 1 + int i) \<noteq> None" using w1(2) by (simp add: algebra_simps)
  qed
  let ?m = "if n \<in> set special_socket_names \<or> m n \<noteq> None then m else m(n \<mapsto> fd)"
  obtain w2 where w2: "read_names os (fd + 1) names ?m w1 = (Ret (named_fd (fd + 1) names ?m), w2)"
    "fdt w2 = set_cloexec_range (fd + 1) (length names) (fdt w1)"
    using Cons.IH [OF _ op, of ?m] by blast
  have "named_fd (fd + 1) names ?m = named_fd fd (n # names) m"
    using named_fd_Cons [of n fd names m] named_fd_special [of n fd names m]
    by (cases "n \<in> set special_socket_names"; cases "m n") simp_all
  moreover have "fdt w2 = set_cloexec_range fd (length (n # names)) (fdt w)"
    using w2(2) w1(2) d by (auto simp: set_cloexec_range_def fun_eq_iff)
  moreover have "read_names os fd (n # names) m w = read_names os (fd + 1) names ?m w1" using w1(1) by simp
  ultimately show ?case using Cons.prems(1) [of w2] w2(1) by simp
qed

lemma sockets_new_run:
  assumes "env LISTEN_PID = Some (EnvText (show_int (sys_getpid os w)))" and "is_i32 (sys_getpid os w)"
    and "env LISTEN_FDNAMES = Some (EnvText s)"
    and "\<forall>i<length (split_char (CHR '':'') s). fdt w (3 + int i) \<noteq> None"
  obtains w' where "systemd_sockets_new os dbg env w = (Ret (Inr (named_fd 3 (split_char (CHR '':'') s) Map.empty)), w')"
    and "fdt w' = set_cloexec_range 3 (length (split_char (CHR '':'') s)) (fdt w)"
proof -
  obtain w' where "read_names os 3 (split_char (CHR '':'') s) Map.empty w
      = (Ret (named_fd 3 (split_char (CHR '':'') s) Map.empty), w')"
    and "fdt w' = set_cloexec_range 3 (length (split_char (CHR '':'') s)) (fdt w)"
    using read_names_run [OF assms(4)] by blast
  then show thesis using that assms(1-3)
    by (simp add: systemd_sockets_new_def env_var_def parse_i32_show_int SD_LISTEN_FDS_START_def)
qed

end

text \<open>
  C26. The sockets of systemd, started for this process, all descriptors open: name number \<open>i\<close> of
  \<open>LISTEN_FDNAMES\<close> belongs to descriptor \<open>3 + i\<close>; of equal names the first is found, the special names
  are never found; and every passed descriptor, found or not, is close-on-exec afterwards, while
  no other entry of the table changes.
\<close>

theorem systemd_names_and_flags:
  assumes "posix_fds os fdt" and "env LISTEN_PID = Some (EnvText (show_int (sys_getpid os w)))"
    and "is_i32 (sys_getpid os w)" and "env LISTEN_FDNAMES = Some (EnvText s)"
    and "names = split_char (CHR '':'') s" and "\<forall>i<length names. fdt w (3 + int i) \<noteq> None"
  shows "\<exists>m w'. systemd_sockets_new os dbg env w = (Ret (Inr m), w')
    \<and> fdt w' = set_cloexec_range 3 (length names) (fdt w)
    \<and> (\<forall>name fd. find_socket dbg m name = Inr fd \<longleftrightarrow>
        name \<notin> set special_socket_names \<and> (\<exists>i. position (\<lambda>x. x = name) names = Some i \<and> fd = 3 + int i))"
proof (rule posix_fds.sockets_new_run [OF assms(1-4), of dbg])
  show "\<forall>i<length (split_char (CHR '':'') s). fdt w (3 + int i) \<noteq> None" using assms(5,6) by simp
next
  fix w'
  let ?m = "named_fd 3 (split_char (CHR '':'') s) Map.empty"
  assume "systemd_sockets_new os dbg env w = (Ret (Inr ?m), w')"
    and "fdt w' = set_cloexec_range 3 (length (split_char (CHR '':'') s)) (fdt w)"
  moreover have "find_socket dbg ?m name = Inr fd \<longleftrightarrow>
      name \<notin> set special_socket_names \<and> (\<exists>i. position (\<lambda>x. x = name) names = Some i \<and> fd = 3 + int i)" for name fd
    using assms(5) by (cases "position (\<lambda>x. x = name) names") (auto simp: find_socket_def named_fd_def)
  ultimately show ?thesis using assms(5) by blast
qed

subsection \<open>Concrete runs\<close>

text \<open>Three sockets, two of one name and one of a special name.\<close>

definition sd_ex_env :: environment where
  "sd_ex_env = [LISTEN_PID \<mapsto> EnvText (show_int 42), LISTEN_FDNAMES \<mapsto> EnvText ''web:stored:web'']"

definition sd_ex_world :: kworld where
  "sd_ex_world = kw0\<lparr>k_fds := (3, \<lparr>cloexec = False, ofd = 7\<rparr>) # (4, \<lparr>cloexec = False, ofd = 8\<rparr>)
     # (5, \<lparr>cloexec = False, ofd = 9\<rparr>) # k_fds kw0\<rparr>"

definition sd_ex_dbg :: debug_text where
  "sd_ex_dbg = \<lparr>dbg_var = (\<lambda>e. ''NotPresent''), dbg_parse = (\<lambda>e. ''ParseIntError''), dbg_str = (\<lambda>s. s), dbg_sock = (\<lambda>s. ''SockInfo'')\<rparr>"

theorem systemd_names_and_flags_witness:
  "\<exists>m w'. systemd_sockets_new kern sd_ex_dbg sd_ex_env sd_ex_world = (Ret (Inr m), w')
    \<and> find_socket sd_ex_dbg m ''web'' = Inr 3 \<and> find_socket sd_ex_dbg m ''stored'' \<noteq> Inr 4
    \<and> k_fdt w' 5 = Some \<lparr>cloexec = True, ofd = 9\<rparr>"
proof -
  have names: "[''web'', ''stored'', ''web''] = split_char (CHR '':'') ''web:stored:web''" by simp
  have env: "sd_ex_env LISTEN_PID = Some (EnvText (show_int (sys_getpid kern sd_ex_world)))"
    "sd_ex_env LISTEN_FDNAMES = Some (EnvText ''web:stored:web'')" "is_i32 (sys_getpid kern sd_ex_world)"
    by (simp_all add: sd_ex_env_def LISTEN_PID_def LISTEN_FDNAMES_def sd_ex_world_def kw0_def kern_def
        is_i32_def i32_min_def i32_max_def)
  have "\<forall>i<length [''web'', ''stored'', ''web'']. k_fdt sd_ex_world (3 + int i) \<noteq> None"
    by (auto simp: less_Suc_eq numeral_3_eq_3 sd_ex_world_def k_fdt_def)
  from systemd_names_and_flags [OF kern_fds.posix_fds_axioms env(1,3,2) names this, of sd_ex_dbg]
  show ?thesis
    by (elim exE conjE) (rule exI, rule exI, intro conjI, assumption,
      auto simp: special_socket_names_def set_cloexec_range_def sd_ex_world_def k_fdt_def)
qed

end
