(* ===== verification/Executioner.thy ===== *)
theory Executioner
  imports Systemd_Sockets
begin

text \<open>
  \<open>src/executioner.rs\<close> up to the point where the worker threads start: the error type, the pipes
  (\<open>FdPair\<close>, \<open>UpgradePipes\<close>, \<open>listener_pipes\<close>,
  \<open>ready_pipes\<close>), the launch of the child (\<open>exec_upgraded\<close>) and the opening of
  \<open>upgrade\<close> with the static \<open>UPGRADING\<close>. Every pipe end is a descriptor, dropping it
  closes it, and the model drops it where the Rust scopes do.
\<close>

subsection \<open>Errors\<close>

datatype upgrade_error =
    ChildExit
  | ChildTimeout
  | NotStarted string
  | SerializationError bincode_error

type_synonym upgrade_finished = "upgrade_error + unit"

text \<open>\<open>impl From<io::Error> for UpgradeError\<close>.\<close>

definition upgrade_error_from_io :: "'w os \<Rightarrow> io_error \<Rightarrow> upgrade_error" where
  "upgrade_error_from_io os e = NotStarted (fmt_io_debug os e)"

subsection \<open>Pipes\<close>

record fd_pair =
  recv_listeners_fd :: fd
  send_ready_fd :: fd

record upgrade_pipes =
  recv_ready :: fd
  send_listeners :: fd
  up_fds :: fd_pair

definition close_raw :: "'w os \<Rightarrow> fd \<Rightarrow> 'w \<Rightarrow> 'w" where
  "close_raw os fd w = snd (sys_close os fd w)"

text \<open>\<open>impl Drop for FdPair\<close>.\<close>

definition drop_fd_pair :: "'w os \<Rightarrow> fd_pair \<Rightarrow> 'w \<Rightarrow> 'w" where
  "drop_fd_pair os p w = close_raw os (send_ready_fd p) (close_raw os (recv_listeners_fd p) w)"

definition listener_pipes :: "'w os \<Rightarrow> ('w, upgrade_error + fd \<times> fd) prog" where
  "listener_pipes os = mapErrP (upgrade_error_from_io os)
    (tryP (liftP (os_pipe os)) (\<lambda>(recv_listeners, send_listeners).
      owning (close_raw os send_listeners) (scoped (close_raw os recv_listeners)
        (tryP (clone_fd os recv_listeners) (\<lambda>recv_listeners_fd.
         bindP (unset_cloexec os recv_listeners_fd) (\<lambda>u.
         returnP (Inr (recv_listeners_fd, send_listeners))))))))"

definition ready_pipes :: "'w os \<Rightarrow> ('w, upgrade_error + fd \<times> fd) prog" where
  "ready_pipes os = mapErrP (upgrade_error_from_io os)
    (tryP (liftP (os_pipe os)) (\<lambda>(recv_ready, send_ready).
      owning (close_raw os recv_ready) (scoped (close_raw os send_ready)
        (tryP (clone_fd os send_ready) (\<lambda>send_ready_fd.
         bindP (unset_cloexec os send_ready_fd) (\<lambda>u.
         returnP (Inr (recv_ready, send_ready_fd))))))))"

definition upgrade_pipes_new :: "'w os \<Rightarrow> ('w, upgrade_error + upgrade_pipes) prog" where
  "upgrade_pipes_new os = tryP (listener_pipes os) (\<lambda>(rl, sl).
    owning (close_raw os sl) (tryP (inspectErrP (close_raw os rl) (ready_pipes os)) (\<lambda>(rr, sr).
      returnP (Inr \<lparr>recv_ready = rr, send_listeners = sl,
        up_fds = \<lparr>recv_listeners_fd = rl, send_ready_fd = sr\<rparr>\<rparr>))))"

definition take_pipes :: "'w os \<Rightarrow> upgrade_pipes \<Rightarrow> ('w, fd \<times> fd) prog" where
  "take_pipes os pipes = (\<lambda>w. (Ret (recv_ready pipes, send_listeners pipes), drop_fd_pair os (up_fds pipes) w))"

text \<open>Dropping a whole \<open>UpgradePipes\<close>.\<close>

definition drop_pipes :: "'w os \<Rightarrow> upgrade_pipes \<Rightarrow> 'w \<Rightarrow> 'w" where
  "drop_pipes os pipes w =
    drop_fd_pair os (up_fds pipes) (close_raw os (send_listeners pipes) (close_raw os (recv_ready pipes) w))"

subsection \<open>Launching the child\<close>

text \<open>\<open>std::process::Command\<close> with what the source sets on it, and the process it starts. \<open>cp_start\<close>
  is the world and the environment the new program begins with; \<open>None\<close> when the child aborted in the
  \<open>pre_exec\<close> closure, which the parent's \<open>spawn\<close> does not see.\<close>

record 'w command =
  cmd_program :: string
  cmd_args :: "string list"
  cmd_current_dir :: path
  cmd_env :: environment
  cmd_pre_exec :: "('w, io_error + unit) prog"

record 'w child_proc =
  cp_pid :: int
  cp_start :: "('w \<times> environment) option"

definition command_spawn :: "'w os \<Rightarrow> 'w command \<Rightarrow> ('w, io_error + 'w child_proc) prog" where
  "command_spawn os cmd = (\<lambda>w. case sys_fork os w of
      (Inl e, w') \<Rightarrow> (Ret (Inl e), w')
    | (Inr (pid, cw), w') \<Rightarrow> (case cmd_pre_exec cmd cw of
          (Ret (Inl e), cw1) \<Rightarrow> (Ret (Inl e), w')
        | (Panic m, cw1) \<Rightarrow> (Ret (Inr \<lparr>cp_pid = pid, cp_start = None\<rparr>), w')
        | (Exit n, cw1) \<Rightarrow> (Ret (Inr \<lparr>cp_pid = pid, cp_start = None\<rparr>), w')
        | (Ret (Inr u), cw1) \<Rightarrow>
            (case sys_execve os (cmd_program cmd) (cmd_args cmd) (cmd_current_dir cmd) (cmd_env cmd) cw1 of
               (Inl e, cw2) \<Rightarrow> (Ret (Inl e), w')
             | (Inr v, cw2) \<Rightarrow> (Ret (Inr \<lparr>cp_pid = pid, cp_start = Some (cw2, cmd_env cmd)\<rparr>), w'))))"


fun unset_each :: "'w os \<Rightarrow> listener_info list \<Rightarrow> ('w, io_error + unit) prog" where
  "unset_each os [] = returnP (Inr ())"
| "unset_each os (i # is) = bindP (unset_cloexec os (li_fd i)) (\<lambda>u. unset_each os is)"

definition child_env :: "environment \<Rightarrow> fd_pair \<Rightarrow> environment" where
  "child_env env pipe_fds =
    (env(ENV_UPGRADE \<mapsto> EnvText UPGRADE_TRUE_VAL,
         ENV_PIPE_FDS \<mapsto> EnvText (show_int (recv_listeners_fd pipe_fds)),
         ENV_PIPE_READY \<mapsto> EnvText (show_int (send_ready_fd pipe_fds))))
      (LISTEN_PID := None, LISTEN_FDNAMES := None, LISTEN_FDS := None)"

definition exec_upgraded ::
    "'w os \<Rightarrow> environment \<Rightarrow> string list \<Rightarrow> fd_pair \<Rightarrow> listener_info list \<Rightarrow> ('w, io_error + 'w child_proc) prog" where
  "exec_upgraded os env args pipe_fds inherit_fds = (case args of
      [] \<Rightarrow> panicP ''removal index (is 0) should be < len (is 0)''
    | cmdline # run_args \<Rightarrow>
        tryP (\<lambda>w. (Ret (current_dir os w), w)) (\<lambda>cwd.
          command_spawn os
            \<lparr>cmd_program = cmdline, cmd_args = run_args, cmd_current_dir = cwd,
             cmd_env = child_env env pipe_fds, cmd_pre_exec = unset_each os inherit_fds\<rparr>))"

subsection \<open>The opening of upgrade\<close>

text \<open>\<open>UPGRADING\<close> is the first component of the state. The result is what the worker threads get:
  the child, the ready pipe and the pipe for the listeners.\<close>

type_synonym 'w ustate = "bool \<times> 'w"

definition upgrade_launch ::
    "'w os \<Rightarrow> environment \<Rightarrow> string list \<Rightarrow> listener_info list
      \<Rightarrow> ('w, upgrade_error + 'w child_proc \<times> fd \<times> fd) prog" where
  "upgrade_launch os env args fds = tryP (upgrade_pipes_new os) (\<lambda>pipes.
    tryP (owning (drop_pipes os pipes)
           (mapErrP (upgrade_error_from_io os) (exec_upgraded os env args (up_fds pipes) fds))) (\<lambda>child.
    bindP (take_pipes os pipes) (\<lambda>(rr, sl). returnP (Inr (child, rr, sl)))))"

definition upgrade_begin ::
    "'w os \<Rightarrow> environment \<Rightarrow> string list \<Rightarrow> listener_info list
      \<Rightarrow> ('w ustate, upgrade_error + 'w child_proc \<times> fd \<times> fd) prog" where
  "upgrade_begin os env args fds = (\<lambda>(upgrading, w).
    if upgrading then (Ret (Inl (NotStarted ''Already in upgrade'')), (True, w))
    else onSnd (upgrade_launch os env args fds) (True, w))"

subsection \<open>What the opening does to the descriptor tables\<close>

context posix
begin

lemma close_raw_fds [simp]: "fdt (close_raw os fd w) = (fdt w)(fd := None)"
  by (simp add: close_raw_def close_gone)

text \<open>A duplicate without close-on-exec, as both pipe constructors make one.\<close>

lemma clone_unset_cases:
  assumes "fdt w c = Some d"
  obtains (ok) n w' where "fdt w n = None" and "fdt w' = (fdt w)(n \<mapsto> d\<lparr>cloexec := False\<rparr>)"
      and "tryP (clone_fd os c) (\<lambda>n. bindP (unset_cloexec os n) (\<lambda>u. returnP (Inr (g n)))) w = (Ret (Inr (g n)), w')"
  | (err) e w' where "fdt w' = fdt w"
      and "tryP (clone_fd os c) (\<lambda>n. bindP (unset_cloexec os n) (\<lambda>u. returnP (Inr (g n)))) w = (Ret (Inl e), w')"
proof (cases rule: clone_fd_cases [of c w])
  case (ok n d' w1)
  then have n: "fdt w1 n = Some (d\<lparr>cloexec := True\<rparr>)" using assms by simp
  obtain w2 where w2: "unset_cloexec os n w1 = (Ret (), w2)" "fdt w2 = (fdt w1)(n \<mapsto> d\<lparr>cloexec := True\<rparr>\<lparr>cloexec := False\<rparr>)"
    using unset_cloexec_open [OF n] by blast
  then have "fdt w2 = (fdt w)(n \<mapsto> d\<lparr>cloexec := False\<rparr>)" using ok assms by simp
  then show thesis using that(1) ok w2 by simp
next
  case (err e w1)
  then show thesis using that(2) by simp
qed

lemma pipe_cases:
  obtains (ok) r s j k w' where "os_pipe os w = (Inr (r, s), w')" and "fdt w r = None" and "fdt w s = None"
      and "r \<noteq> s" and "j \<notin> ofds (fdt w)" and "k \<notin> ofds (fdt w)" and "j \<noteq> k"
      and "fdt w' = (fdt w)(r \<mapsto> \<lparr>cloexec = True, ofd = j\<rparr>, s \<mapsto> \<lparr>cloexec = True, ofd = k\<rparr>)"
  | (err) e w' where "os_pipe os w = (Inl e, w')" and "fdt w' = fdt w"
proof -
  obtain x w' where x: "os_pipe os w = (x, w')" by fastforce
  show thesis
  proof (cases x)
    case (Inl e)
    then show thesis using that(2) x pipe_err by blast
  next
    case (Inr p)
    obtain r s where p: "p = (r, s)" by fastforce
    obtain t where t: "opens_fresh (fdt w) r t" "opens_fresh t s (fdt w')" using pipe_ok x Inr p by blast
    then obtain j where j: "fdt w r = None" "j \<notin> ofds (fdt w)" "t = (fdt w)(r \<mapsto> \<lparr>cloexec = True, ofd = j\<rparr>)"
      by (auto simp: opens_fresh_def)
    with t obtain k where k: "t s = None" "k \<notin> ofds t" "fdt w' = t(s \<mapsto> \<lparr>cloexec = True, ofd = k\<rparr>)"
      by (auto simp: opens_fresh_def)
    then have "r \<noteq> s" and "fdt w s = None" using j by (auto split: if_splits)
    then show thesis using that(1) [of r s w' j k] x Inr p j k by auto
  qed
qed

text \<open>\<open>(n, s)\<close> are the two ends that survive: \<open>n\<close> for the child, \<open>s\<close> for the parent.\<close>

lemma listener_pipes_cases:
  obtains (ok) rl sl j k w' where "fdt w rl = None" and "fdt w sl = None" and "rl \<noteq> sl"
      and "j \<notin> ofds (fdt w)" and "k \<notin> ofds (fdt w)" and "j \<noteq> k"
      and "fdt w' = (fdt w)(sl \<mapsto> \<lparr>cloexec = True, ofd = k\<rparr>, rl \<mapsto> \<lparr>cloexec = False, ofd = j\<rparr>)"
      and "listener_pipes os w = (Ret (Inr (rl, sl)), w')"
  | (err) e w' where "fdt w' = fdt w" and "listener_pipes os w = (Ret (Inl e), w')"
proof (cases rule: pipe_cases [of w])
  case pipe: (ok r s j k w1)
  have r: "fdt w1 r = Some \<lparr>cloexec = True, ofd = j\<rparr>" using pipe by simp
  then show thesis
  proof (cases rule: clone_unset_cases [of w1 r _ "\<lambda>n. (n, s)"])
    case (ok n w2)
    then have "fdt (close_raw os r w2) = (fdt w)(s \<mapsto> \<lparr>cloexec = True, ofd = k\<rparr>, n \<mapsto> \<lparr>cloexec = False, ofd = j\<rparr>)"
      and "fdt w n = None" and "n \<noteq> s"
      using pipe by (auto simp: fun_eq_iff split: if_splits)
    then show thesis using that(1) [of n s j k "close_raw os r w2"] pipe ok by (simp add: listener_pipes_def)
  next
    case (err e w2)
    then have "fdt (close_raw os s (close_raw os r w2)) = fdt w" using pipe by (auto simp: fun_eq_iff)
    then show thesis using that(2) [of "close_raw os s (close_raw os r w2)"] pipe err by (simp add: listener_pipes_def)
  qed
next
  case (err e w1)
  then show thesis using that(2) by (simp add: listener_pipes_def)
qed

lemma ready_pipes_cases:
  obtains (ok) rr sr j k w' where "fdt w rr = None" and "fdt w sr = None" and "rr \<noteq> sr"
      and "j \<notin> ofds (fdt w)" and "k \<notin> ofds (fdt w)" and "j \<noteq> k"
      and "fdt w' = (fdt w)(rr \<mapsto> \<lparr>cloexec = True, ofd = j\<rparr>, sr \<mapsto> \<lparr>cloexec = False, ofd = k\<rparr>)"
      and "ready_pipes os w = (Ret (Inr (rr, sr)), w')"
  | (err) e w' where "fdt w' = fdt w" and "ready_pipes os w = (Ret (Inl e), w')"
proof (cases rule: pipe_cases [of w])
  case pipe: (ok r s j k w1)
  have s: "fdt w1 s = Some \<lparr>cloexec = True, ofd = k\<rparr>" using pipe by simp
  then show thesis
  proof (cases rule: clone_unset_cases [of w1 s _ "\<lambda>n. (r, n)"])
    case (ok n w2)
    then have "fdt (close_raw os s w2) = (fdt w)(r \<mapsto> \<lparr>cloexec = True, ofd = j\<rparr>, n \<mapsto> \<lparr>cloexec = False, ofd = k\<rparr>)"
      and "fdt w n = None" and "r \<noteq> n"
      using pipe by (auto simp: fun_eq_iff split: if_splits)
    then show thesis using that(1) [of r n j k "close_raw os s w2"] pipe ok by (simp add: ready_pipes_def)
  next
    case (err e w2)
    then have "fdt (close_raw os r (close_raw os s w2)) = fdt w" using pipe by (auto simp: fun_eq_iff)
    then show thesis using that(2) [of "close_raw os r (close_raw os s w2)"] pipe err by (simp add: ready_pipes_def)
  qed
next
  case (err e w1)
  then show thesis using that(2) by (simp add: ready_pipes_def)
qed

lemma upgrade_pipes_new_cases:
  obtains (ok) rl sl rr sr j1 k1 j2 k2 w' where "distinct [rl, sl, rr, sr]" and "distinct [j1, k1, j2, k2]"
      and "\<forall>fd\<in>{rl, sl, rr, sr}. fdt w fd = None" and "\<forall>j\<in>{j1, k1, j2, k2}. j \<notin> ofds (fdt w)"
      and "fdt w' = (fdt w)(sl \<mapsto> \<lparr>cloexec = True, ofd = k1\<rparr>, rl \<mapsto> \<lparr>cloexec = False, ofd = j1\<rparr>,
        rr \<mapsto> \<lparr>cloexec = True, ofd = j2\<rparr>, sr \<mapsto> \<lparr>cloexec = False, ofd = k2\<rparr>)"
      and "upgrade_pipes_new os w = (Ret (Inr \<lparr>recv_ready = rr, send_listeners = sl,
        up_fds = \<lparr>recv_listeners_fd = rl, send_ready_fd = sr\<rparr>\<rparr>), w')"
  | (err) e w' where "fdt w' = fdt w" and "upgrade_pipes_new os w = (Ret (Inl e), w')"
proof (cases rule: listener_pipes_cases [of w])
  case l: (ok rl sl j1 k1 w1)
  show thesis
  proof (cases rule: ready_pipes_cases [of w1])
    case r: (ok rr sr j2 k2 w2)
    have "distinct [rl, sl, rr, sr]" "\<forall>fd\<in>{rl, sl, rr, sr}. fdt w fd = None"
      using l r by (auto split: if_splits)
    moreover have "distinct [j1, k1, j2, k2]" "\<forall>j\<in>{j1, k1, j2, k2}. j \<notin> ofds (fdt w)"
      using l r by auto
    ultimately show thesis
      using that(1) [of rl sl rr sr j1 k1 j2 k2 w2] l r by (simp add: upgrade_pipes_new_def)
  next
    case (err e w2)
    then have "fdt (close_raw os sl (close_raw os rl w2)) = fdt w" using l by (auto simp: fun_eq_iff)
    then show thesis
      using that(2) [of "close_raw os sl (close_raw os rl w2)"] l err by (simp add: upgrade_pipes_new_def)
  qed
next
  case (err e w1)
  then show thesis using that(2) by (simp add: upgrade_pipes_new_def)
qed

end

definition uncloexec :: "fd set \<Rightarrow> fdtable \<Rightarrow> fdtable" where
  "uncloexec A t = (\<lambda>fd. if fd \<in> A then map_option (\<lambda>d. d\<lparr>cloexec := False\<rparr>) (t fd) else t fd)"

lemma uncloexec_empty [simp]: "uncloexec {} t = t"
  by (simp add: uncloexec_def)

lemma uncloexec_insert:
  "t fd = Some d \<Longrightarrow> uncloexec A (t(fd \<mapsto> d\<lparr>cloexec := False\<rparr>)) = uncloexec (insert fd A) t"
  by (auto simp: uncloexec_def fun_eq_iff)

lemma uncloexec_open [simp]: "uncloexec A t fd = None \<longleftrightarrow> t fd = None"
  by (simp add: uncloexec_def)

context posix
begin

lemma unset_each_run:
  assumes "\<forall>li\<in>set lis. fdt w (li_fd li) \<noteq> None"
  obtains w' where "unset_each os lis w = (Ret (Inr ()), w')" and "fdt w' = uncloexec (li_fd ` set lis) (fdt w)"
  using assms
proof (induction lis arbitrary: w thesis)
  case Nil
  then show ?case by simp
next
  case (Cons li lis)
  then obtain d where d: "fdt w (li_fd li) = Some d" by auto
  obtain w1 where w1: "unset_cloexec os (li_fd li) w = (Ret (), w1)"
    "fdt w1 = (fdt w)(li_fd li \<mapsto> d\<lparr>cloexec := False\<rparr>)" using unset_cloexec_open [OF d] by blast
  moreover have "\<forall>li\<in>set lis. fdt w1 (li_fd li) \<noteq> None" using Cons.prems(2) w1 by simp
  then obtain w2 where "unset_each os lis w1 = (Ret (Inr ()), w2)" "fdt w2 = uncloexec (li_fd ` set lis) (fdt w1)"
    using Cons.IH by blast
  ultimately show ?case using Cons.prems(1) [of w2] d by (simp add: uncloexec_insert)
qed

lemma command_spawn_cases:
  assumes "cmd_pre_exec cmd = unset_each os lis" and "\<forall>li\<in>set lis. fdt w (li_fd li) \<noteq> None"
  obtains (ok) pid cw w' where "fdt w' = fdt w" and "fdt cw = exec_fdtable (uncloexec (li_fd ` set lis) (fdt w))"
      and "command_spawn os cmd w = (Ret (Inr \<lparr>cp_pid = pid, cp_start = Some (cw, cmd_env cmd)\<rparr>), w')"
  | (err) e w' where "fdt w' = fdt w" and "command_spawn os cmd w = (Ret (Inl e), w')"
proof -
  obtain x w' where x: "sys_fork os w = (x, w')" by fastforce
  show thesis
  proof (cases x)
    case (Inl e)
    then show thesis using that(2) x fork_err by (simp add: command_spawn_def)
  next
    case (Inr p)
    obtain pid cw where p: "p = (pid, cw)" by fastforce
    have f: "fdt cw = fdt w" "fdt w' = fdt w" using fork_ok x Inr p by blast+
    have "\<forall>li\<in>set lis. fdt cw (li_fd li) \<noteq> None" using assms(2) f by simp
    then obtain cw1 where cw1: "unset_each os lis cw = (Ret (Inr ()), cw1)"
      "fdt cw1 = uncloexec (li_fd ` set lis) (fdt cw)" by (rule unset_each_run)
    obtain y cw2 where y: "sys_execve os (cmd_program cmd) (cmd_args cmd) (cmd_current_dir cmd) (cmd_env cmd) cw1 = (y, cw2)"
      by fastforce
    show thesis
      using that(1) [of w' cw2 pid] that(2) [of w'] x Inr p f cw1 y assms(1) execve_ok [of _ _ _ _ cw1 cw2]
      by (cases y) (auto simp: command_spawn_def)
  qed
qed

text \<open>The whole opening, for listeners that are open in the parent.\<close>

lemma exec_upgraded_cases:
  assumes "args \<noteq> []" and "\<forall>li\<in>set lis. fdt w (li_fd li) \<noteq> None"
  obtains (ok) pid cw w' where "fdt w' = fdt w" and "fdt cw = exec_fdtable (uncloexec (li_fd ` set lis) (fdt w))"
      and "exec_upgraded os env args p lis w = (Ret (Inr \<lparr>cp_pid = pid, cp_start = Some (cw, child_env env p)\<rparr>), w')"
  | (err) e w' where "fdt w' = fdt w" and "exec_upgraded os env args p lis w = (Ret (Inl e), w')"
proof -
  obtain c rest where args: "args = c # rest" using assms(1) by (cases args) auto
  show thesis
  proof (cases "current_dir os w")
    case (Inl e)
    then show thesis using that(2) [of w e] args by (simp add: exec_upgraded_def)
  next
    case (Inr cwd)
    let ?cmd = "\<lparr>cmd_program = c, cmd_args = rest, cmd_current_dir = cwd, cmd_env = child_env env p,
      cmd_pre_exec = unset_each os lis\<rparr>"
    have "cmd_pre_exec ?cmd = unset_each os lis" by simp
    from this assms(2) show thesis
      by (cases rule: command_spawn_cases [of ?cmd lis w])
        (use that args Inr in \<open>auto simp: exec_upgraded_def\<close>)
  qed
qed

lemma upgrade_launch_cases:
  assumes "args \<noteq> []" and "\<forall>li\<in>set lis. fdt w (li_fd li) \<noteq> None"
  obtains (ok) pid cw rl sl rr sr j1 k1 j2 k2 w' where
      "distinct [rl, sl, rr, sr]" and "distinct [j1, k1, j2, k2]"
      and "\<forall>fd\<in>{rl, sl, rr, sr}. fdt w fd = None" and "\<forall>j\<in>{j1, k1, j2, k2}. j \<notin> ofds (fdt w)"
      and "is_i32 rl" and "is_i32 sr"
      and "fdt w' = (fdt w)(sl \<mapsto> \<lparr>cloexec = True, ofd = k1\<rparr>, rr \<mapsto> \<lparr>cloexec = True, ofd = j2\<rparr>)"
      and "fdt cw = exec_fdtable (uncloexec (li_fd ` set lis)
        ((fdt w)(rl \<mapsto> \<lparr>cloexec = False, ofd = j1\<rparr>, sr \<mapsto> \<lparr>cloexec = False, ofd = k2\<rparr>)))"
      and "upgrade_launch os env args lis w = (Ret (Inr (\<lparr>cp_pid = pid,
        cp_start = Some (cw, child_env env \<lparr>recv_listeners_fd = rl, send_ready_fd = sr\<rparr>)\<rparr>, rr, sl)), w')"
  | (err) e w' where "fdt w' = fdt w" and "upgrade_launch os env args lis w = (Ret (Inl e), w')"
proof (cases rule: upgrade_pipes_new_cases [of w])
  case (err e w1)
  then show thesis using that(2) by (simp add: upgrade_launch_def)
next
  case p: (ok rl sl rr sr j1 k1 j2 k2 w1)
  let ?p = "\<lparr>recv_listeners_fd = rl, send_ready_fd = sr\<rparr>" and ?L = "li_fd ` set lis"
  have L: "sl \<notin> ?L" "rr \<notin> ?L" using p(3) assms(2) by fastforce+
  have open1: "\<forall>li\<in>set lis. fdt w1 (li_fd li) \<noteq> None" using p(5) assms(2) by auto
  have i32: "is_i32 rl" "is_i32 sr" using p(1,5) fd_range [of w1 rl] fd_range [of w1 sr] by auto
  from assms(1) open1 show thesis
  proof (cases rule: exec_upgraded_cases [of args lis w1 env ?p])
    case (ok pid cw w2)
    have "fdt (drop_fd_pair os ?p w2) =
        (fdt w)(sl \<mapsto> \<lparr>cloexec = True, ofd = k1\<rparr>, rr \<mapsto> \<lparr>cloexec = True, ofd = j2\<rparr>)"
      using ok p by (auto simp: drop_fd_pair_def fun_eq_iff)
    moreover have "fdt cw = exec_fdtable (uncloexec ?L
        ((fdt w)(rl \<mapsto> \<lparr>cloexec = False, ofd = j1\<rparr>, sr \<mapsto> \<lparr>cloexec = False, ofd = k2\<rparr>)))"
      using ok(2) p(1,3,5) L by (auto simp: exec_fdtable_def uncloexec_def fun_eq_iff)
    ultimately show thesis
      using that(1) [of rl sl rr sr j1 k1 j2 k2 "drop_fd_pair os ?p w2" cw pid] p ok i32
      by (simp add: upgrade_launch_def take_pipes_def)
  next
    case (err e w2)
    let ?w = "drop_pipes os \<lparr>recv_ready = rr, send_listeners = sl, up_fds = ?p\<rparr> w2"
    have "fdt ?w = fdt w" using err(1) p by (auto simp: drop_pipes_def drop_fd_pair_def fun_eq_iff)
    then show thesis using that(2) [of ?w] p err by (simp add: upgrade_launch_def)
  qed
qed

end

subsection \<open>Properties\<close>

text \<open>The table a child starts with, given the parent's and the descriptors it is to inherit.\<close>

definition child_fd :: "fd set \<Rightarrow> fdtable \<Rightarrow> fdtable" where
  "child_fd A t = (\<lambda>fd. case t fd of
      None \<Rightarrow> None
    | Some d \<Rightarrow> if fd \<in> A \<or> \<not> cloexec d then Some (d\<lparr>cloexec := False\<rparr>) else None)"

lemma child_fd_eq: "exec_fdtable (uncloexec A t) = child_fd A t"
  by (auto simp: exec_fdtable_def uncloexec_def child_fd_def fun_eq_iff split: option.splits)

lemma child_fd_pipe_end:
  "fd \<notin> A \<Longrightarrow> child_fd A (t(fd \<mapsto> \<lparr>cloexec = False, ofd = j\<rparr>)) = (child_fd A t)(fd \<mapsto> \<lparr>cloexec = False, ofd = j\<rparr>)"
  by (auto simp: child_fd_def fun_eq_iff)

definition launch_ok :: "fdtable \<Rightarrow> environment \<Rightarrow> fd set \<Rightarrow> ('w \<Rightarrow> fdtable) \<Rightarrow> 'w child_proc \<Rightarrow> fd \<Rightarrow> fd \<Rightarrow> fdtable \<Rightarrow> bool" where
  "launch_ok t env A fdt child rr sl t' \<longleftrightarrow> (\<exists>cw p j1 j2 k1 k2.
    cp_start child = Some (cw, child_env env p)
    \<and> distinct [rr, sl, recv_listeners_fd p, send_ready_fd p]
    \<and> is_i32 (recv_listeners_fd p) \<and> is_i32 (send_ready_fd p)
    \<and> t rr = None \<and> t sl = None \<and> t (recv_listeners_fd p) = None \<and> t (send_ready_fd p) = None
    \<and> t' = t(sl \<mapsto> \<lparr>cloexec = True, ofd = k1\<rparr>, rr \<mapsto> \<lparr>cloexec = True, ofd = j2\<rparr>)
    \<and> fdt cw = (child_fd A t)
        (recv_listeners_fd p \<mapsto> \<lparr>cloexec = False, ofd = j1\<rparr>, send_ready_fd p \<mapsto> \<lparr>cloexec = False, ofd = k2\<rparr>))"

context posix
begin

lemma launch_descriptors:
  assumes "args \<noteq> []" and "\<forall>li\<in>set lis. fdt w (li_fd li) \<noteq> None"
    and "upgrade_launch os env args lis w = (Ret res, w')"
  shows "case res of
      Inl e \<Rightarrow> fdt w' = fdt w
    | Inr (child, rr, sl) \<Rightarrow> launch_ok (fdt w) env (li_fd ` set lis) fdt child rr sl (fdt w')"
  using assms(1,2)
proof (cases rule: upgrade_launch_cases [of args lis w env])
  case (ok pid cw rl sl rr sr j1 k1 j2 k2 w2)
  have "rl \<notin> li_fd ` set lis" "sr \<notin> li_fd ` set lis" using ok(3) assms(2) by fastforce+
  then have "fdt cw = (child_fd (li_fd ` set lis) (fdt w))
      (rl \<mapsto> \<lparr>cloexec = False, ofd = j1\<rparr>, sr \<mapsto> \<lparr>cloexec = False, ofd = k2\<rparr>)"
    using ok(8) by (simp add: child_fd_eq child_fd_pipe_end)
  then have "launch_ok (fdt w) env (li_fd ` set lis) fdt
      \<lparr>cp_pid = pid, cp_start = Some (cw, child_env env \<lparr>recv_listeners_fd = rl, send_ready_fd = sr\<rparr>)\<rparr> rr sl (fdt w2)"
    unfolding launch_ok_def using ok(1-7)
    by (intro exI [of _ cw] exI [of _ "\<lparr>recv_listeners_fd = rl, send_ready_fd = sr\<rparr>"] exI [of _ j1]
        exI [of _ j2] exI [of _ k1] exI [of _ k2]) auto
  then show ?thesis using assms(3) ok(9) by auto
next
  case (err e w2)
  then show ?thesis using assms(3) by auto
qed

end

text \<open>
  C30. The launch of a child leaks no descriptor. When it fails, the parent's table is what it was.
  When it succeeds, the parent has two new descriptors, both close-on-exec (its ends of the two pipes),
  and keeps neither end of the child; the child starts with its own two pipe ends, under the numbers
  its environment names, with every registered listener, and otherwise only with what was not
  close-on-exec in the parent. The parent's own flags are untouched.
\<close>

theorem upgrade_launch_descriptors:
  assumes "posix os fdt" and "args \<noteq> []" and "\<forall>li\<in>set lis. fdt w (li_fd li) \<noteq> None"
    and "upgrade_launch os env args lis w = (Ret res, w')"
  shows "case res of
      Inl e \<Rightarrow> fdt w' = fdt w
    | Inr (child, rr, sl) \<Rightarrow> launch_ok (fdt w) env (li_fd ` set lis) fdt child rr sl (fdt w')"
  by (rule posix.launch_descriptors [OF assms])

text \<open>
  C37. An upgrade that fails before its threads start (a pipe or the spawn fails, or \<open>argv\<close> is
  empty) leaves \<open>UPGRADING\<close> set: every later upgrade of the process, whatever its world, is refused
  with \<open>Already in upgrade\<close>.
\<close>

theorem failed_launch_blocks_upgrades:
  assumes "upgrade_begin os env args fds (False, w) = (x, (up, w'))"
    and "\<And>y. x \<noteq> Ret (Inr y)"
  shows "up \<and> (\<forall>env' args' fds' w''. upgrade_begin os env' args' fds' (up, w'') =
    (Ret (Inl (NotStarted ''Already in upgrade'')), (up, w'')))"
  using assms by (auto simp: upgrade_begin_def onSnd_def split: prod.splits)

subsection \<open>Concrete runs\<close>

text \<open>A parent with a TCP listener at descriptor 3, its registered duplicate at 4.\<close>

definition launch_ex_world :: "int \<Rightarrow> kworld" where
  "launch_ex_world nofile = kw0\<lparr>k_nofile := nofile,
     k_fds := (3, \<lparr>cloexec = True, ofd = 7\<rparr>) # (4, \<lparr>cloexec = True, ofd = 7\<rparr>) # k_fds kw0\<rparr>"

lemma launch_ex_ok:
  "is_ok (fst (upgrade_launch kern Map.empty [''srv''] [\<lparr>li_fd = 4, li_sock = Tcp (SockV4 0 80)\<rparr>] (launch_ex_world 16)))"
  by code_simp

theorem upgrade_launch_descriptors_witness:
  "\<exists>child rr sl w'. upgrade_launch kern Map.empty [''srv''] [\<lparr>li_fd = 4, li_sock = Tcp (SockV4 0 80)\<rparr>]
      (launch_ex_world 16) = (Ret (Inr (child, rr, sl)), w')
    \<and> launch_ok (k_fdt (launch_ex_world 16)) Map.empty {4} k_fdt child rr sl (k_fdt w')"
proof -
  let ?lis = "[\<lparr>li_fd = 4, li_sock = Tcp (SockV4 0 80)\<rparr>]"
  obtain child rr sl w' where
    run: "upgrade_launch kern Map.empty [''srv''] ?lis (launch_ex_world 16) = (Ret (Inr (child, rr, sl)), w')"
    using is_okD [OF launch_ex_ok] by auto
  have "\<forall>li\<in>set ?lis. k_fdt (launch_ex_world 16) (li_fd li) \<noteq> None"
    by (simp add: launch_ex_world_def kw0_def k_fdt_def)
  from upgrade_launch_descriptors [OF kern.posix_axioms _ this run] run show ?thesis by auto
qed

text \<open>With six files allowed the second pipe cannot be made.\<close>

lemma launch_ex_full:
  "is_err (fst (upgrade_begin kern Map.empty [''srv''] [] (False, launch_ex_world 6)))"
  by code_simp

theorem failed_launch_blocks_upgrades_witness:
  "\<exists>e w'. upgrade_begin kern Map.empty [''srv''] [] (False, launch_ex_world 6) = (Ret (Inl e), (True, w'))
    \<and> upgrade_begin kern Map.empty [''srv''] [] (True, launch_ex_world 16) =
        (Ret (Inl (NotStarted ''Already in upgrade'')), (True, launch_ex_world 16))"
proof -
  obtain e up w' where run: "upgrade_begin kern Map.empty [''srv''] [] (False, launch_ex_world 6) = (Ret (Inl e), (up, w'))"
    using is_errD [OF launch_ex_full] by auto
  have "up \<and> (\<forall>env' args' fds' w''. upgrade_begin kern env' args' fds' (up, w'') =
      (Ret (Inl (NotStarted ''Already in upgrade'')), (up, w'')))"
    by (rule failed_launch_blocks_upgrades [OF run]) simp
  with run show ?thesis by auto
qed

end
