(* ===== verification/Upgrade_Threads.thy ===== *)
theory Upgrade_Threads
  imports Executioner
begin

text \<open>
  \<open>src/executioner.rs\<close>, the threads of \<open>upgrade\<close>: the calling thread (join, clear
  \<open>UPGRADING\<close>, join, combine, join), \<open>wait_ready\<close>, \<open>wait_child\<close> with
  \<open>proc_wait\<close>, \<open>send_fds\<close>, the child process at the other end of the two pipes, the
  clock, and other callers of \<open>upgrade\<close> in the same process. A label names who moves;
  \<open>tstep\<close> is the move, \<open>None\<close> when that thread is blocked. \<open>treach\<close> are
  the states every interleaving reaches. Of \<open>send_fds\<close> only its end matters, as its result is
  discarded: it ends when the bytes fit the pipe, or the child reads them, or nobody is left to read them.

  \<open>unpark\<close> does not end a \<open>thread::sleep\<close>, so a sleeping watcher wakes by time only.
  Elapsed time is milliseconds since the call; the timeout is 5 s, a sleep at least 500 ms.
\<close>

subsection \<open>States\<close>

datatype child_state = Running | Exited | Reaped

datatype main_pc =
    JoinReady
  | StoreFlag upgrade_finished
  | JoinChild upgrade_finished
  | JoinSend upgrade_finished
  | Finished upgrade_finished

datatype ready_pc = Reading | ReadyDone upgrade_finished

datatype watch_pc =
    LoopTest
  | Asleep nat
  | TryWait
  | LoadFlag
  | FinalTryWait
  | Kill
  | WaitReap
  | WatchDone upgrade_finished

record tstate =
  t_upgrading :: bool
  t_other_active :: bool
  t_now :: nat
  t_main :: main_pc
  t_ready :: ready_pc
  t_watch :: watch_pc
  t_child :: child_state
  t_wrote :: string
  t_pipe_open :: bool
  t_other_holder :: bool
  t_killed :: bool
  t_wait_failed :: bool
  t_fits :: bool
  t_drained :: bool
  t_recv_open :: bool
  t_sent :: bool

definition timeout_ms :: nat where "timeout_ms = 5000"
definition sleep_ms :: nat where "sleep_ms = 500"

text \<open>The start: threads spawned, \<open>UPGRADING\<close> set by this call. \<open>holder\<close> says whether a process other
  than the child has the child's ends of the pipes, \<open>fits\<close> whether the serialized listeners fit the pipe. A child that aborted before \<open>exec\<close> is dead.\<close>

definition tinit :: "bool \<Rightarrow> bool \<Rightarrow> bool \<Rightarrow> tstate" where
  "tinit holder fits started = \<lparr>t_upgrading = True, t_other_active = False, t_now = 0, t_main = JoinReady,
     t_ready = Reading, t_watch = LoopTest, t_child = (if started then Running else Exited),
     t_wrote = [], t_pipe_open = started, t_other_holder = holder, t_killed = False, t_wait_failed = False,
     t_fits = fits, t_drained = False, t_recv_open = started, t_sent = False\<rparr>"

subsection \<open>Moves\<close>

datatype label =
    MainL | ReadyL | WatchL | WatchErrL | TickL nat
  | SendL
  | WriteL char | CloseL | ReadL | CloseRecvL | ExitL
  | OtherStartL | OtherEndL

definition main_step :: "tstate \<Rightarrow> tstate option" where
  "main_step s = (case t_main s of
      JoinReady \<Rightarrow> (case t_ready s of Reading \<Rightarrow> None | ReadyDone r \<Rightarrow> Some (s\<lparr>t_main := StoreFlag r\<rparr>))
    | StoreFlag r \<Rightarrow> Some (s\<lparr>t_upgrading := False, t_main := JoinChild r\<rparr>)
    | JoinChild r \<Rightarrow> (case t_watch s of
          WatchDone (Inr u) \<Rightarrow> Some (s\<lparr>t_main := JoinSend r\<rparr>)
        | WatchDone (Inl e) \<Rightarrow> Some (s\<lparr>t_main := JoinSend (Inl e)\<rparr>)
        | _ \<Rightarrow> None)
    | JoinSend r \<Rightarrow> if t_sent s then Some (s\<lparr>t_main := Finished r\<rparr>) else None
    | Finished r \<Rightarrow> None)"

text \<open>\<open>wait_ready\<close>: \<open>read_exact\<close> of two bytes, which fails at the end of the pipe.\<close>

definition ready_step :: "tstate \<Rightarrow> tstate option" where
  "ready_step s = (case t_ready s of
      ReadyDone r \<Rightarrow> None
    | Reading \<Rightarrow>
        if 2 \<le> length (t_wrote s)
        then Some (s\<lparr>t_ready := ReadyDone (if take 2 (t_wrote s) = ''OK'' then Inr () else Inl ChildExit)\<rparr>)
        else if \<not> t_pipe_open s \<and> \<not> t_other_holder s then Some (s\<lparr>t_ready := ReadyDone (Inl ChildExit)\<rparr>)
        else None)"

text \<open>\<open>proc_wait\<close>: anything but \<open>Ok(None)\<close> of \<open>try_wait\<close> is an exit.\<close>

definition proc_wait :: "bool \<Rightarrow> child_state \<Rightarrow> upgrade_finished \<times> child_state" where
  "proc_wait fails c =
    (if fails then (Inl ChildExit, c)
     else case c of Running \<Rightarrow> (Inr (), Running) | _ \<Rightarrow> (Inl ChildExit, Reaped))"

text \<open>\<open>wait_child\<close>. \<open>fails\<close> is an error of the operating system in \<open>try_wait\<close>.\<close>

definition watch_step :: "bool \<Rightarrow> tstate \<Rightarrow> tstate option" where
  "watch_step fails s = (case t_watch s of
      LoopTest \<Rightarrow> if fails then None
        else Some (s\<lparr>t_watch := (if t_now s < timeout_ms then Asleep (t_now s + sleep_ms) else Kill)\<rparr>)
    | Asleep u \<Rightarrow> if fails \<or> t_now s < u then None else Some (s\<lparr>t_watch := TryWait\<rparr>)
    | TryWait \<Rightarrow> (case proc_wait fails (t_child s) of
          (Inl e, c) \<Rightarrow> Some (s\<lparr>t_child := c, t_wait_failed := t_wait_failed s \<or> fails, t_watch := WatchDone (Inl e)\<rparr>)
        | (Inr u, c) \<Rightarrow> Some (s\<lparr>t_watch := LoadFlag\<rparr>))
    | LoadFlag \<Rightarrow> if fails then None else Some (s\<lparr>t_watch := (if t_upgrading s then LoopTest else FinalTryWait)\<rparr>)
    | FinalTryWait \<Rightarrow> (case proc_wait fails (t_child s) of
          (r, c) \<Rightarrow> Some (s\<lparr>t_child := c, t_wait_failed := t_wait_failed s \<or> fails, t_watch := WatchDone r\<rparr>))
    | Kill \<Rightarrow> if fails then None
        else Some (s\<lparr>t_killed := True, t_watch := WaitReap,
          t_child := (if t_child s = Running then Exited else t_child s), t_pipe_open := False, t_recv_open := False\<rparr>)
    | WaitReap \<Rightarrow> if fails then None
        else Some (s\<lparr>t_child := Reaped, t_watch := WatchDone (Inl ChildTimeout)\<rparr>)
    | WatchDone r \<Rightarrow> None)"

text \<open>\<open>send_fds\<close>: the write returns, or fails once the read end is closed everywhere.\<close>

definition send_step :: "tstate \<Rightarrow> tstate option" where
  "send_step s = (if \<not> t_sent s \<and> (t_fits s \<or> t_drained s \<or> \<not> t_recv_open s \<and> \<not> t_other_holder s)
     then Some (s\<lparr>t_sent := True\<rparr>) else None)"

fun tstep :: "label \<Rightarrow> tstate \<Rightarrow> tstate option" where
  "tstep MainL s = main_step s"
| "tstep ReadyL s = ready_step s"
| "tstep WatchL s = watch_step False s"
| "tstep WatchErrL s = watch_step True s"
| "tstep SendL s = send_step s"
| "tstep (TickL d) s = Some (s\<lparr>t_now := t_now s + d\<rparr>)"
| "tstep (WriteL c) s =
    (if t_child s = Running \<and> t_pipe_open s then Some (s\<lparr>t_wrote := t_wrote s @ [c]\<rparr>) else None)"
| "tstep CloseL s = (if t_child s = Running then Some (s\<lparr>t_pipe_open := False\<rparr>) else None)"
| "tstep ReadL s = (if t_child s = Running \<and> t_recv_open s then Some (s\<lparr>t_drained := True\<rparr>) else None)"
| "tstep CloseRecvL s = (if t_child s = Running then Some (s\<lparr>t_recv_open := False\<rparr>) else None)"
| "tstep ExitL s =
    (if t_child s = Running then Some (s\<lparr>t_child := Exited, t_pipe_open := False, t_recv_open := False\<rparr>) else None)"
| "tstep OtherStartL s = (if t_upgrading s then None else Some (s\<lparr>t_upgrading := True, t_other_active := True\<rparr>))"
| "tstep OtherEndL s = (if t_other_active s then Some (s\<lparr>t_upgrading := False, t_other_active := False\<rparr>) else None)"

fun trun :: "label list \<Rightarrow> tstate \<Rightarrow> tstate option" where
  "trun [] s = Some s"
| "trun (l # ls) s = (case tstep l s of None \<Rightarrow> None | Some s' \<Rightarrow> trun ls s')"

inductive treach :: "bool \<Rightarrow> tstate \<Rightarrow> bool" for holder :: bool where
  start: "treach holder (tinit holder fits started)"
| step: "treach holder s \<Longrightarrow> tstep l s = Some s' \<Longrightarrow> treach holder s'"

text \<open>\<open>upgrade\<close> as a whole, under a schedule: \<open>None\<close> when the schedule ends before the call returns
  (or is not one the threads can follow). The pipe ends of the parent close with the threads.\<close>

definition upgrade ::
    "'w os \<Rightarrow> environment \<Rightarrow> string list \<Rightarrow> bool \<Rightarrow> bool \<Rightarrow> label list \<Rightarrow> listener_info list
      \<Rightarrow> 'w ustate \<Rightarrow> (upgrade_finished outcome \<times> 'w ustate) option" where
  "upgrade os env args holder fits sched fds s = (case upgrade_begin os env args fds s of
      (Ret (Inl e), s') \<Rightarrow> Some (Ret (Inl e), s')
    | (Panic m, s') \<Rightarrow> Some (Panic m, s')
    | (Exit n, s') \<Rightarrow> Some (Exit n, s')
    | (Ret (Inr (child, rr, sl)), (up, w)) \<Rightarrow>
        (case trun sched (tinit holder fits (cp_start child \<noteq> None)) of
           None \<Rightarrow> None
         | Some t \<Rightarrow> (case t_main t of
               Finished r \<Rightarrow> Some (Ret r, (t_upgrading t, close_raw os sl (close_raw os rr w)))
             | _ \<Rightarrow> None)))"

subsection \<open>The invariant of the threads\<close>

definition said_ok :: "tstate \<Rightarrow> bool" where
  "said_ok s \<longleftrightarrow> take 2 (t_wrote s) = ''OK''"

text \<open>What \<open>wait_ready\<close> knows, and that the calling thread carries its result along.\<close>

definition ready_inv :: "tstate \<Rightarrow> bool" where
  "ready_inv s \<longleftrightarrow> (t_ready s = Reading \<longrightarrow> t_main s = JoinReady)
    \<and> (t_ready s = ReadyDone (Inr ()) \<longrightarrow> said_ok s)
    \<and> (\<forall>e. t_ready s = ReadyDone (Inl e) \<longrightarrow>
        e = ChildExit \<and> \<not> said_ok s \<and> (\<not> t_pipe_open s \<or> 2 \<le> length (t_wrote s)))"

definition main_inv :: "tstate \<Rightarrow> bool" where
  "main_inv s \<longleftrightarrow> (\<forall>r. t_main s = StoreFlag r \<or> t_main s = JoinChild r \<longrightarrow> t_ready s = ReadyDone r)
    \<and> (\<forall>r. t_main s = JoinSend r \<or> t_main s = Finished r \<longrightarrow> (\<exists>rr wr. t_ready s = ReadyDone rr \<and> t_watch s = WatchDone wr
        \<and> r = (case wr of Inr u \<Rightarrow> rr | Inl e \<Rightarrow> Inl e)))"

text \<open>The flag is set by this call until it is stored back, and by another one after that.\<close>

fun before_store :: "main_pc \<Rightarrow> bool" where
  "before_store JoinReady = True"
| "before_store (StoreFlag r) = True"
| "before_store _ = False"

definition flag_inv :: "tstate \<Rightarrow> bool" where
  "flag_inv s \<longleftrightarrow>
    (if before_store (t_main s) then t_upgrading s \<and> \<not> t_other_active s else t_upgrading s = t_other_active s)"

definition watch_inv :: "tstate \<Rightarrow> bool" where
  "watch_inv s \<longleftrightarrow> (t_child s \<noteq> Running \<longrightarrow> \<not> t_pipe_open s \<and> \<not> t_recv_open s)
    \<and> (t_killed s \<longrightarrow> t_watch s = WaitReap \<or> t_watch s = WatchDone (Inl ChildTimeout))
    \<and> (t_watch s = Kill \<longrightarrow> timeout_ms \<le> t_now s)
    \<and> (t_watch s = WaitReap \<longrightarrow> timeout_ms \<le> t_now s \<and> t_killed s \<and> t_child s \<noteq> Running)
    \<and> (t_watch s = FinalTryWait \<or> t_watch s = WatchDone (Inr ()) \<longrightarrow> \<not> before_store (t_main s))
    \<and> (\<forall>e. t_watch s = WatchDone (Inl e) \<longrightarrow>
          (if e = ChildTimeout then timeout_ms \<le> t_now s \<and> t_killed s \<and> t_child s = Reaped
           else e = ChildExit \<and> (t_child s = Reaped \<or> t_wait_failed s)))"

definition tinv :: "tstate \<Rightarrow> bool" where
  "tinv s \<longleftrightarrow> ready_inv s \<and> main_inv s \<and> flag_inv s \<and> watch_inv s"

lemma said_ok_frame [simp]:
  "said_ok (s\<lparr>t_upgrading := a\<rparr>) = said_ok s" "said_ok (s\<lparr>t_other_active := a\<rparr>) = said_ok s"
  "said_ok (s\<lparr>t_now := n\<rparr>) = said_ok s" "said_ok (s\<lparr>t_main := m\<rparr>) = said_ok s"
  "said_ok (s\<lparr>t_ready := r\<rparr>) = said_ok s" "said_ok (s\<lparr>t_watch := x\<rparr>) = said_ok s"
  "said_ok (s\<lparr>t_child := c\<rparr>) = said_ok s" "said_ok (s\<lparr>t_pipe_open := a\<rparr>) = said_ok s"
  "said_ok (s\<lparr>t_killed := a\<rparr>) = said_ok s" "said_ok (s\<lparr>t_wait_failed := a\<rparr>) = said_ok s"
  "said_ok (s\<lparr>t_drained := a\<rparr>) = said_ok s" "said_ok (s\<lparr>t_recv_open := a\<rparr>) = said_ok s"
  "said_ok (s\<lparr>t_sent := a\<rparr>) = said_ok s"
  by (simp_all add: said_ok_def)

lemma said_ok_append: "2 \<le> length (t_wrote s) \<Longrightarrow> said_ok (s\<lparr>t_wrote := t_wrote s @ [c]\<rparr>) = said_ok s"
  by (simp add: said_ok_def)

lemma said_ok_length: "said_ok s \<Longrightarrow> 2 \<le> length (t_wrote s)"
  by (cases "t_wrote s"; cases "tl (t_wrote s)") (auto simp: said_ok_def)

lemmas tinv_defs = tinv_def ready_inv_def main_inv_def flag_inv_def watch_inv_def

lemma tinv_init: "tinv (tinit holder fits started)"
  by (simp add: tinv_defs tinit_def)

text \<open>What each thread's move can be.\<close>

lemma main_stepE:
  assumes "main_step s = Some s'"
  obtains (join) r where "t_main s = JoinReady" "t_ready s = ReadyDone r" "s' = s\<lparr>t_main := StoreFlag r\<rparr>"
  | (store) r where "t_main s = StoreFlag r" "s' = s\<lparr>t_upgrading := False, t_main := JoinChild r\<rparr>"
  | (keep) r where "t_main s = JoinChild r" "t_watch s = WatchDone (Inr ())" "s' = s\<lparr>t_main := JoinSend r\<rparr>"
  | (override) r e where "t_main s = JoinChild r" "t_watch s = WatchDone (Inl e)" "s' = s\<lparr>t_main := JoinSend (Inl e)\<rparr>"
  | (finish) r where "t_main s = JoinSend r" "t_sent s" "s' = s\<lparr>t_main := Finished r\<rparr>"
  using assms by (auto simp: main_step_def split: if_splits main_pc.splits ready_pc.splits watch_pc.splits sum.splits)

lemma ready_stepE:
  assumes "ready_step s = Some s'"
  obtains (ok) "t_ready s = Reading" "said_ok s" "s' = s\<lparr>t_ready := ReadyDone (Inr ())\<rparr>"
  | (garbage) "t_ready s = Reading" "2 \<le> length (t_wrote s)" "\<not> said_ok s" "s' = s\<lparr>t_ready := ReadyDone (Inl ChildExit)\<rparr>"
  | (eof) "t_ready s = Reading" "length (t_wrote s) < 2" "\<not> t_pipe_open s" "\<not> t_other_holder s"
      "s' = s\<lparr>t_ready := ReadyDone (Inl ChildExit)\<rparr>"
  using assms by (cases "t_ready s") (auto simp: ready_step_def said_ok_def split: if_splits)

lemma watch_stepE:
  assumes "watch_step b s = Some s'"
  obtains (sleep) "t_watch s = LoopTest" "t_now s < timeout_ms" "s' = s\<lparr>t_watch := Asleep (t_now s + sleep_ms)\<rparr>"
  | (timeout) "t_watch s = LoopTest" "timeout_ms \<le> t_now s" "s' = s\<lparr>t_watch := Kill\<rparr>"
  | (wake) u where "t_watch s = Asleep u" "u \<le> t_now s" "s' = s\<lparr>t_watch := TryWait\<rparr>"
  | (failed) "t_watch s = TryWait \<or> t_watch s = FinalTryWait" "b"
      "s' = s\<lparr>t_wait_failed := True, t_watch := WatchDone (Inl ChildExit)\<rparr>"
  | (dead) "t_watch s = TryWait \<or> t_watch s = FinalTryWait" "\<not> b" "t_child s \<noteq> Running"
      "s' = s\<lparr>t_child := Reaped, t_watch := WatchDone (Inl ChildExit)\<rparr>"
  | (alive) "t_watch s = TryWait" "t_child s = Running" "s' = s\<lparr>t_watch := LoadFlag\<rparr>"
  | (again) "t_watch s = LoadFlag" "t_upgrading s" "s' = s\<lparr>t_watch := LoopTest\<rparr>"
  | (cancelled) "t_watch s = LoadFlag" "\<not> t_upgrading s" "s' = s\<lparr>t_watch := FinalTryWait\<rparr>"
  | (still) "t_watch s = FinalTryWait" "t_child s = Running" "s' = s\<lparr>t_child := Running, t_watch := WatchDone (Inr ())\<rparr>"
  | (kill) "t_watch s = Kill" "s' = s\<lparr>t_killed := True, t_watch := WaitReap,
          t_child := (if t_child s = Running then Exited else t_child s), t_pipe_open := False, t_recv_open := False\<rparr>"
  | (reap) "t_watch s = WaitReap" "s' = s\<lparr>t_child := Reaped, t_watch := WatchDone (Inl ChildTimeout)\<rparr>"
proof (cases "t_watch s")
  case LoopTest
  then show thesis using assms sleep timeout by (simp add: watch_step_def not_less split: if_splits)
next
  case (Asleep u)
  then show thesis using assms wake [of u] by (simp add: watch_step_def not_less split: if_splits)
next
  case TryWait
  have "b \<Longrightarrow> s' = s\<lparr>t_wait_failed := True, t_watch := WatchDone (Inl ChildExit)\<rparr>"
    and "\<not> b \<Longrightarrow> t_child s = Running \<Longrightarrow> s' = s\<lparr>t_watch := LoadFlag\<rparr>"
    and "\<not> b \<Longrightarrow> t_child s \<noteq> Running \<Longrightarrow> s' = s\<lparr>t_child := Reaped, t_watch := WatchDone (Inl ChildExit)\<rparr>"
    using assms TryWait by (simp_all add: watch_step_def proc_wait_def split: child_state.splits)
  with TryWait show thesis using failed dead alive by blast
next
  case LoadFlag
  then show thesis using assms again cancelled by (simp add: watch_step_def split: if_splits)
next
  case FinalTryWait
  have "b \<Longrightarrow> s' = s\<lparr>t_wait_failed := True, t_watch := WatchDone (Inl ChildExit)\<rparr>"
    and "\<not> b \<Longrightarrow> t_child s = Running \<Longrightarrow> s' = s\<lparr>t_child := Running, t_watch := WatchDone (Inr ())\<rparr>"
    and "\<not> b \<Longrightarrow> t_child s \<noteq> Running \<Longrightarrow> s' = s\<lparr>t_child := Reaped, t_watch := WatchDone (Inl ChildExit)\<rparr>"
    using assms FinalTryWait by (simp_all add: watch_step_def proc_wait_def split: child_state.splits)
  with FinalTryWait show thesis using failed dead still by blast
next
  case Kill
  then show thesis using assms kill by (simp add: watch_step_def split: if_splits)
next
  case WaitReap
  then show thesis using assms reap by (simp add: watch_step_def split: if_splits)
next
  case (WatchDone r)
  then show thesis using assms by (simp add: watch_step_def)
qed

lemma main_step_inv:
  assumes "main_step s = Some s'" and inv: "tinv s"
  shows "tinv s'"
  using assms(1)
proof (cases rule: main_stepE)
  case (join r)
  then show ?thesis using inv by (simp add: tinv_defs)
next
  case (store r)
  then show ?thesis using inv by (simp add: tinv_defs)
next
  case (keep r)
  then show ?thesis using inv by (simp add: tinv_defs)
next
  case (override r e)
  then show ?thesis using inv by (simp add: tinv_defs)
next
  case (finish r)
  then show ?thesis using inv by (simp add: tinv_defs)
qed

lemma ready_step_inv:
  assumes "ready_step s = Some s'" and inv: "tinv s"
  shows "tinv s'"
proof -
  have jr: "t_main s = JoinReady" using assms by (auto simp: tinv_def ready_inv_def elim: ready_stepE)
  have short: "length (t_wrote s) < 2 \<Longrightarrow> \<not> said_ok s" using said_ok_length [of s] by linarith
  from assms(1) show ?thesis
    by (cases rule: ready_stepE) (use inv jr short in \<open>simp_all add: tinv_defs\<close>)
qed

text \<open>The moves of the watcher touch neither the calling thread nor the flag.\<close>

lemma watch_step_frame:
  assumes "watch_step b s = Some s'"
  shows "t_main s' = t_main s \<and> t_ready s' = t_ready s \<and> t_wrote s' = t_wrote s \<and> t_now s' = t_now s
    \<and> t_upgrading s' = t_upgrading s \<and> t_other_active s' = t_other_active s
    \<and> t_other_holder s' = t_other_holder s \<and> (t_pipe_open s' \<longrightarrow> t_pipe_open s) \<and> (\<forall>r. t_watch s \<noteq> WatchDone r)"
  using assms by (cases rule: watch_stepE) auto

lemma watch_step_watch_inv:
  assumes "watch_step b s = Some s'" and inv: "watch_inv s" and flag: "flag_inv s"
  shows "watch_inv s'"
  using assms(1)
proof (cases rule: watch_stepE)
  case cancelled
  with flag have "\<not> before_store (t_main s)" by (simp add: flag_inv_def split: if_splits)
  with cancelled show ?thesis using inv by (simp add: watch_inv_def)
next
  case still
  then show ?thesis using inv by (simp add: watch_inv_def)
next
  case failed
  then show ?thesis using inv by (auto simp: watch_inv_def)
next
  case dead
  then show ?thesis using inv by (auto simp: watch_inv_def)
next
  case kill
  then show ?thesis using inv by (cases "t_child s") (simp_all add: watch_inv_def)
qed (use inv in \<open>simp_all add: watch_inv_def\<close>)

lemma watch_step_inv:
  assumes "watch_step b s = Some s'" and "tinv s"
  shows "tinv s'"
proof -
  note fr = watch_step_frame [OF assms(1)]
  have so: "said_ok s' = said_ok s" using fr by (simp add: said_ok_def)
  have "ready_inv s'" using assms(2) fr so by (auto simp: tinv_def ready_inv_def)
  moreover have "main_inv s'" using assms(2) fr by (auto simp: tinv_def main_inv_def)
  moreover have "flag_inv s'" using assms(2) fr by (simp add: tinv_def flag_inv_def)
  ultimately show ?thesis using assms watch_step_watch_inv by (simp add: tinv_def)
qed

lemma write_inv:
  assumes "tinv s" and "t_pipe_open s"
  shows "tinv (s\<lparr>t_wrote := t_wrote s @ [c]\<rparr>)"
proof -
  let ?s' = "s\<lparr>t_wrote := t_wrote s @ [c]\<rparr>"
  have "said_ok s \<Longrightarrow> said_ok ?s'" "2 \<le> length (t_wrote s) \<Longrightarrow> said_ok ?s' = said_ok s"
    using said_ok_length [of s] said_ok_append [of s c] by auto
  then have "ready_inv ?s'" using assms by (auto simp: tinv_def ready_inv_def)
  then show ?thesis using assms(1) by (simp add: tinv_def main_inv_def flag_inv_def watch_inv_def)
qed

text \<open>The four parts are kept one at a time.\<close>

lemma tick_inv: "tinv s \<Longrightarrow> tinv (s\<lparr>t_now := t_now s + d\<rparr>)"
  unfolding tinv_def
  by (elim conjE, intro conjI, (auto simp: ready_inv_def)[1], (auto simp: main_inv_def)[1], (auto simp: flag_inv_def split: if_splits)[1], (auto simp: watch_inv_def)[1])

lemma close_inv: "tinv s \<Longrightarrow> tinv (s\<lparr>t_pipe_open := False\<rparr>)"
  unfolding tinv_def
  by (elim conjE, intro conjI, (auto simp: ready_inv_def)[1], (auto simp: main_inv_def)[1], (auto simp: flag_inv_def split: if_splits)[1], (auto simp: watch_inv_def)[1])

lemma send_inv:
  "tinv s \<Longrightarrow> tinv (s\<lparr>t_sent := a\<rparr>)" "tinv s \<Longrightarrow> tinv (s\<lparr>t_drained := a\<rparr>)" "tinv s \<Longrightarrow> tinv (s\<lparr>t_recv_open := False\<rparr>)"
  unfolding tinv_def
  by (elim conjE, intro conjI, (simp add: ready_inv_def)[1], (simp add: main_inv_def)[1], (simp add: flag_inv_def)[1],
      (simp add: watch_inv_def)[1])+

lemma exit_inv:
  "tinv s \<Longrightarrow> t_child s = Running \<Longrightarrow> tinv (s\<lparr>t_child := Exited, t_pipe_open := False, t_recv_open := False\<rparr>)"
  unfolding tinv_def
  by (elim conjE, intro conjI, (auto simp: ready_inv_def)[1], (auto simp: main_inv_def)[1], (auto simp: flag_inv_def split: if_splits)[1], (auto simp: watch_inv_def)[1])

lemma other_start_inv:
  "tinv s \<Longrightarrow> \<not> t_upgrading s \<Longrightarrow> tinv (s\<lparr>t_upgrading := True, t_other_active := True\<rparr>)"
  unfolding tinv_def
  by (elim conjE, intro conjI, (auto simp: ready_inv_def)[1], (auto simp: main_inv_def)[1], (auto simp: flag_inv_def split: if_splits)[1], (auto simp: watch_inv_def)[1])

lemma other_end_inv:
  "tinv s \<Longrightarrow> t_other_active s \<Longrightarrow> tinv (s\<lparr>t_upgrading := False, t_other_active := False\<rparr>)"
  unfolding tinv_def
  by (elim conjE, intro conjI, (auto simp: ready_inv_def)[1], (auto simp: main_inv_def)[1], (auto simp: flag_inv_def split: if_splits)[1], (auto simp: watch_inv_def)[1])

lemma tstep_inv:
  assumes "tstep l s = Some s'" and "tinv s"
  shows "tinv s'"
  using assms
  by (cases l) (auto simp: main_step_inv ready_step_inv watch_step_inv write_inv tick_inv close_inv exit_inv
      send_inv send_step_def other_start_inv other_end_inv split: if_splits)

lemma tstep_holder: "tstep l s = Some s' \<Longrightarrow> t_other_holder s' = t_other_holder s"
  by (cases l) (auto elim!: main_stepE ready_stepE simp: watch_step_frame send_step_def split: if_splits)

lemma treach_inv: "treach holder s \<Longrightarrow> tinv s \<and> t_other_holder s = holder"
proof (induction rule: treach.induct)
  case (start fits started)
  then show ?case by (simp add: tinv_init) (simp add: tinit_def)
next
  case (step s l s')
  then show ?case by (simp add: tstep_inv tstep_holder)
qed

lemma trun_treach: "treach holder s \<Longrightarrow> trun ls s = Some s' \<Longrightarrow> treach holder s'"
  by (induction ls arbitrary: s) (auto split: option.splits intro: treach.step)

lemma trun_append: "trun (as @ bs) s = (case trun as s of None \<Rightarrow> None | Some s' \<Rightarrow> trun bs s')"
  by (induction as arbitrary: s) (auto split: option.splits)

lemma trun_invariant:
  assumes "trun ls s = Some s'" and "P s" and "\<And>l s s'. l \<in> A \<Longrightarrow> P s \<Longrightarrow> tstep l s = Some s' \<Longrightarrow> P s'" and "set ls \<subseteq> A"
  shows "P s'"
  using assms by (induction ls arbitrary: s) (auto split: option.splits)

subsection \<open>What a result means\<close>

text \<open>What the child and the clock must have done for \<open>upgrade\<close> to return a result.\<close>

fun result_means :: "tstate \<Rightarrow> upgrade_finished \<Rightarrow> bool" where
  "result_means s (Inr u) \<longleftrightarrow> said_ok s \<and> \<not> t_killed s"
| "result_means s (Inl ChildTimeout) \<longleftrightarrow> t_killed s \<and> t_child s = Reaped \<and> timeout_ms \<le> t_now s"
| "result_means s (Inl ChildExit) \<longleftrightarrow> \<not> t_killed s \<and> (t_child s = Reaped \<or> t_wait_failed s \<or> \<not> said_ok s)"
| "result_means s _ \<longleftrightarrow> False"

lemma tinv_result:
  assumes "tinv s" and "t_main s = Finished r"
  shows "result_means s r"
proof -
  obtain rr wr where "t_ready s = ReadyDone rr" and wr: "t_watch s = WatchDone wr"
    and r: "r = (case wr of Inr u \<Rightarrow> rr | Inl e \<Rightarrow> Inl e)"
    using assms by (auto simp: tinv_def main_inv_def)
  then have rr: "case rr of Inr u \<Rightarrow> said_ok s | Inl e \<Rightarrow> e = ChildExit \<and> \<not> said_ok s"
    using assms(1) by (cases rr) (auto simp: tinv_def ready_inv_def)
  have w: "watch_inv s" using assms(1) by (simp add: tinv_def)
  show ?thesis
  proof (cases wr)
    case (Inl e)
    then show ?thesis using w wr r by (cases e) (auto simp: watch_inv_def split: if_splits)
  next
    case (Inr u)
    then have "\<not> t_killed s" using w wr by (auto simp: watch_inv_def)
    then show ?thesis using Inr rr r by (cases rr) auto
  qed
qed

text \<open>
  C5. Under every interleaving of the threads, the child and other upgrades, \<open>upgrade\<close> returns one
  of three results, and each means what it says. \<open>Ok\<close>: the child wrote \<open>OK\<close> and was not killed.
  \<open>ChildTimeout\<close>: five seconds passed and the child was killed and reaped. \<open>ChildExit\<close>: the child
  was not killed, and it exited, or \<open>try_wait\<close> failed, or it never said \<open>OK\<close>.
\<close>

theorem upgrade_result_sound:
  assumes "treach holder s" and "t_main s = Finished r"
  shows "result_means s r"
  using assms treach_inv tinv_result by blast


lemma upgrade_done_killed:
  assumes "treach holder s" and "t_main s = Finished (Inl ChildTimeout)"
  shows "t_killed s"
  using tinv_result [OF conjunct1 [OF treach_inv [OF assms(1)]] assms(2)] by simp

subsection \<open>Cancelling the watcher\<close>

text \<open>The watcher has not yet decided to kill, and the flag is down.\<close>

definition cancelled_state :: "tstate \<Rightarrow> bool" where
  "cancelled_state s \<longleftrightarrow> \<not> before_store (t_main s) \<and> \<not> t_upgrading s \<and> \<not> t_other_active s \<and> \<not> t_killed s
    \<and> t_watch s \<notin> {LoopTest, Kill, WaitReap}"

lemma cancelled_step:
  assumes "cancelled_state s" and "tstep l s = Some s'" and "l \<noteq> OtherStartL"
  shows "cancelled_state s'"
proof (cases l)
  case MainL
  with assms have "main_step s = Some s'" by simp
  then show ?thesis using assms(1) by (cases rule: main_stepE) (simp_all add: cancelled_state_def)
next
  case ReadyL
  with assms have "ready_step s = Some s'" by simp
  then show ?thesis using assms(1) by (cases rule: ready_stepE) (simp_all add: cancelled_state_def)
next
  case WatchL
  with assms have "watch_step False s = Some s'" by simp
  then show ?thesis using assms(1) by (cases rule: watch_stepE) (simp_all add: cancelled_state_def)
next
  case WatchErrL
  with assms have "watch_step True s = Some s'" by simp
  then show ?thesis using assms(1) by (cases rule: watch_stepE) (simp_all add: cancelled_state_def)
qed (use assms in \<open>auto simp: cancelled_state_def send_step_def split: if_splits\<close>)

text \<open>
  Storing \<open>false\<close> cancels the watcher: if the watcher is then asleep or between its wait and its
  reading of the flag, and no other upgrade starts, the child is never killed, however much time
  passes, and the call does not return \<open>ChildTimeout\<close>.
\<close>

theorem store_cancels_kill:
  assumes "treach holder s" and "t_main s = StoreFlag r" and "t_watch s \<in> {TryWait, LoadFlag} \<union> range Asleep"
    and "trun (MainL # ls) s = Some s'" and "OtherStartL \<notin> set ls"
  shows "\<not> t_killed s' \<and> t_main s' \<noteq> Finished (Inl ChildTimeout)"
proof -
  let ?s1 = "s\<lparr>t_upgrading := False, t_main := JoinChild r\<rparr>"
  have inv: "tinv s" using treach_inv assms(1) by blast
  have run: "trun ls ?s1 = Some s'" using assms(2,4) by (simp add: main_step_def)
  have "\<not> t_killed s" and "\<not> t_other_active s"
    using inv assms(2,3) by (auto simp: tinv_def watch_inv_def flag_inv_def)
  then have "cancelled_state ?s1" using assms(3) by (auto simp: cancelled_state_def)
  then have "cancelled_state s'"
    using trun_invariant [OF run, where P = cancelled_state and A = "- {OtherStartL}"] cancelled_step assms(5) by blast
  moreover have "t_main s' = Finished (Inl ChildTimeout) \<Longrightarrow> t_killed s'"
    using upgrade_done_killed trun_treach assms(1,4) by blast
  ultimately show ?thesis by (auto simp: cancelled_state_def)
qed

text \<open>
  C35. A second upgrade defeats the cancellation. The child says \<open>OK\<close>, the call stores
  \<open>false\<close>, another thread starts an upgrade before the watcher of the first one reads the flag: the
  watcher reads \<open>true\<close>, goes on to its timeout and kills the child that is serving.
\<close>

definition race_prefix :: "label list" where
  "race_prefix = [WatchL, WriteL CHR ''O'', WriteL CHR ''K'', CloseL, ReadyL, MainL, MainL, OtherStartL]"

definition race_suffix :: "label list" where
  "race_suffix = [TickL 5000, WatchL, WatchL, WatchL, WatchL, WatchL, WatchL, SendL, MainL, MainL]"


subsection \<open>Returning\<close>

text \<open>The moves of the calling process, without errors of the operating system.\<close>

definition parent_labels :: "label set" where
  "parent_labels = {MainL, ReadyL, WatchL, SendL} \<union> range TickL"

definition can_reach :: "tstate \<Rightarrow> (tstate \<Rightarrow> bool) \<Rightarrow> bool" where
  "can_reach s P \<longleftrightarrow> (\<exists>ls s'. set ls \<subseteq> parent_labels \<and> trun ls s = Some s' \<and> P s')"

lemma can_reach_here: "P s \<Longrightarrow> can_reach s P"
  unfolding can_reach_def by (intro exI [of _ "[]"]) simp

lemma can_reach_step: "tstep l s = Some s' \<Longrightarrow> l \<in> parent_labels \<Longrightarrow> can_reach s' P \<Longrightarrow> can_reach s P"
  unfolding can_reach_def by clarify (rule_tac x = "l # ls" in exI, simp)

lemma can_reach_trans: "can_reach s P \<Longrightarrow> (\<And>s'. P s' \<Longrightarrow> can_reach s' Q) \<Longrightarrow> can_reach s Q"
  unfolding can_reach_def by (metis (no_types, lifting) Un_subset_iff option.simps(5) set_append trun_append)

lemma parent_labels_in [simp]: "MainL \<in> parent_labels" "ReadyL \<in> parent_labels" "WatchL \<in> parent_labels" "SendL \<in> parent_labels"
  "TickL d \<in> parent_labels"
  by (simp_all add: parent_labels_def)

definition sound_state :: "tstate \<Rightarrow> bool" where
  "sound_state s \<longleftrightarrow> tinv s \<and> \<not> t_other_holder s \<and> \<not> t_wait_failed s
    \<and> (t_fits s \<or> t_drained s \<or> \<not> t_recv_open s)"

lemma parent_keeps_sound:
  assumes "l \<in> parent_labels" and "sound_state s" and "tstep l s = Some s'"
  shows "sound_state s'"
proof -
  let ?same = "t_wait_failed s' = t_wait_failed s \<and> t_fits s' = t_fits s \<and> t_drained s' = t_drained s
    \<and> (t_recv_open s' \<longrightarrow> t_recv_open s)"
  have "watch_step False s = Some s' \<Longrightarrow> ?same" by (erule watch_stepE) simp_all
  moreover have "main_step s = Some s' \<Longrightarrow> ?same" by (erule main_stepE) simp_all
  moreover have "ready_step s = Some s' \<Longrightarrow> ?same" by (erule ready_stepE) simp_all
  moreover have "send_step s = Some s' \<Longrightarrow> ?same" by (auto simp: send_step_def split: if_splits)
  ultimately have ?same using assms unfolding parent_labels_def by auto
  then show ?thesis using assms tstep_inv tstep_holder unfolding sound_state_def by metis
qed

lemma can_reach_sound:
  assumes "can_reach s P" and "sound_state s"
  shows "can_reach s (\<lambda>s'. P s' \<and> sound_state s')"
  using assms parent_keeps_sound trun_invariant [where P = sound_state and A = parent_labels]
  unfolding can_reach_def by meson

definition watch_over :: "tstate \<Rightarrow> bool" where
  "watch_over s \<longleftrightarrow> (\<exists>r. t_watch s = WatchDone r)"

text \<open>Once the clock is past the timeout and the end of the sleep, the watcher needs at most six moves.\<close>

lemma can_move:
  assumes "case tstep l s of None \<Rightarrow> False | Some s' \<Rightarrow> can_reach s' P" and "l \<in> parent_labels"
  shows "can_reach s P"
  using assms by (auto split: option.splits intro: can_reach_step)

lemma watch_over_done: "t_watch s = WatchDone r \<Longrightarrow> can_reach s watch_over"
  by (rule can_reach_here) (auto simp: watch_over_def)

lemma watch_over_reap: "t_watch s = WaitReap \<Longrightarrow> can_reach s watch_over"
  by (rule can_move [where l = WatchL]) (simp_all add: watch_step_def watch_over_done)

lemma watch_over_kill: "t_watch s = Kill \<Longrightarrow> can_reach s watch_over"
  by (rule can_move [where l = WatchL]) (simp_all add: watch_step_def watch_over_reap)

lemma watch_over_looptest: "t_watch s = LoopTest \<Longrightarrow> timeout_ms \<le> t_now s \<Longrightarrow> can_reach s watch_over"
  by (rule can_move [where l = WatchL]) (simp_all add: watch_step_def watch_over_kill)

lemma watch_over_final: "t_watch s = FinalTryWait \<Longrightarrow> can_reach s watch_over"
  by (rule can_move [where l = WatchL]) (simp_all add: watch_step_def watch_over_done split: prod.split)

lemma watch_over_loadflag: "t_watch s = LoadFlag \<Longrightarrow> timeout_ms \<le> t_now s \<Longrightarrow> can_reach s watch_over"
  by (rule can_move [where l = WatchL]) (simp_all add: watch_step_def watch_over_looptest watch_over_final)

lemma watch_over_trywait: "t_watch s = TryWait \<Longrightarrow> timeout_ms \<le> t_now s \<Longrightarrow> can_reach s watch_over"
  by (rule can_move [where l = WatchL])
    (simp_all add: watch_step_def watch_over_loadflag watch_over_done split: prod.split sum.split)

lemma watch_over_asleep:
  "t_watch s = Asleep u \<Longrightarrow> timeout_ms \<le> t_now s \<Longrightarrow> u \<le> t_now s \<Longrightarrow> can_reach s watch_over"
  by (rule can_move [where l = WatchL]) (simp_all add: watch_step_def watch_over_trywait)

lemma watch_can_end: "can_reach s watch_over"
proof -
  define u where "u = (case t_watch s of Asleep u \<Rightarrow> u | _ \<Rightarrow> 0)"
  have "can_reach (s\<lparr>t_now := t_now s + (timeout_ms + u)\<rparr>) watch_over"
    by (cases "t_watch s")
      (simp_all add: watch_over_kill watch_over_looptest watch_over_final watch_over_loadflag watch_over_reap
        watch_over_trywait watch_over_done watch_over_asleep u_def)
  then show ?thesis by (intro can_move [where l = "TickL (timeout_ms + u)"]) simp_all
qed

lemma reading_pipe_closed:
  assumes "sound_state s" and "t_watch s = WatchDone r" and "t_ready s = Reading"
  shows "\<not> t_pipe_open s"
proof -
  have "t_main s = JoinReady" using assms by (simp add: sound_state_def tinv_def ready_inv_def)
  moreover have w: "watch_inv s" and "\<not> t_wait_failed s" using assms(1) by (simp_all add: sound_state_def tinv_def)
  ultimately have "t_child s = Reaped" using assms(2) by (cases r) (auto simp: watch_inv_def split: if_splits)
  then show ?thesis using w by (simp add: watch_inv_def)
qed

lemma ready_can_end:
  assumes "sound_state s" and "watch_over s"
  shows "can_reach s (\<lambda>s. watch_over s \<and> t_ready s \<noteq> Reading)"
proof (cases "t_ready s")
  case Reading
  then have "\<not> t_pipe_open s" using assms reading_pipe_closed by (auto simp: watch_over_def)
  then have "\<exists>r. ready_step s = Some (s\<lparr>t_ready := ReadyDone r\<rparr>)"
    using assms(1) Reading unfolding ready_step_def sound_state_def by (auto simp del: One_nat_def)
  then show ?thesis using assms(2)
    by (intro can_move [where l = ReadyL]) (auto simp: watch_over_def intro!: can_reach_here)
next
  case (ReadyDone r)
  then show ?thesis using assms(2) by (intro can_reach_here) simp
qed

definition threads_over :: "tstate \<Rightarrow> bool" where
  "threads_over s \<longleftrightarrow> watch_over s \<and> t_ready s \<noteq> Reading \<and> t_sent s"

lemma send_can_end:
  assumes "sound_state s" and "watch_over s" and "t_ready s \<noteq> Reading"
  shows "can_reach s threads_over"
proof (cases "t_sent s")
  case True
  then show ?thesis using assms by (intro can_reach_here) (simp add: threads_over_def)
next
  case False
  then show ?thesis using assms
    by (intro can_move [where l = SendL]) (auto simp: send_step_def sound_state_def threads_over_def watch_over_def intro!: can_reach_here)
qed

definition returned :: "tstate \<Rightarrow> bool" where
  "returned s \<longleftrightarrow> (\<exists>r. t_main s = Finished r)"

lemma main_over_send: "t_main s = JoinSend x \<Longrightarrow> t_sent s \<Longrightarrow> can_reach s returned"
  by (rule can_move [where l = MainL]) (simp_all add: main_step_def returned_def can_reach_here)

lemma main_over_join:
  "t_main s = JoinChild x \<Longrightarrow> t_watch s = WatchDone wr \<Longrightarrow> t_sent s \<Longrightarrow> can_reach s returned"
  by (rule can_move [where l = MainL]) (simp_all add: main_step_def main_over_send split: sum.split)

lemma main_over_store:
  "t_main s = StoreFlag x \<Longrightarrow> t_watch s = WatchDone wr \<Longrightarrow> t_sent s \<Longrightarrow> can_reach s returned"
  by (rule can_move [where l = MainL]) (simp_all add: main_step_def main_over_join)

lemma main_over_ready:
  "t_main s = JoinReady \<Longrightarrow> t_ready s = ReadyDone x \<Longrightarrow> t_watch s = WatchDone wr \<Longrightarrow> t_sent s \<Longrightarrow> can_reach s returned"
  by (rule can_move [where l = MainL]) (simp_all add: main_step_def main_over_store)

lemma main_can_end:
  assumes "threads_over s"
  shows "can_reach s returned"
proof -
  obtain wr rr where "t_watch s = WatchDone wr" and "t_ready s = ReadyDone rr" and "t_sent s"
    using assms by (cases "t_ready s") (auto simp: watch_over_def threads_over_def)
  then show ?thesis
    by (cases "t_main s")
      (simp_all add: main_over_send main_over_join main_over_store main_over_ready returned_def can_reach_here)
qed


text \<open>
  C36. It can get stuck when another process holds the write end of the ready pipe (one forked between
  \<open>ready_pipes\<close>, which leaves that end without close-on-exec in the parent, and the launch): the
  child exits and is reaped, and then no schedule whatever makes the call return.
\<close>

definition stuck_state :: "tstate \<Rightarrow> bool" where
  "stuck_state s \<longleftrightarrow> t_other_holder s \<and> t_child s = Reaped \<and> t_ready s = Reading \<and> t_main s = JoinReady
    \<and> length (t_wrote s) < 2 \<and> (\<exists>r. t_watch s = WatchDone r)"

lemma stuck_step: "stuck_state s \<Longrightarrow> tstep l s = Some s' \<Longrightarrow> stuck_state s'"
  by (cases l) (auto simp: stuck_state_def main_step_def ready_step_def watch_step_def send_step_def split: if_splits)

theorem upgrade_hangs_with_other_holder:
  "\<exists>s. treach True s \<and> t_child s = Reaped \<and> \<not> (\<exists>ls s'. trun ls s = Some s' \<and> t_main s' \<noteq> JoinReady)"
proof -
  obtain s where s: "trun [WatchL, ExitL, TickL 500, WatchL, WatchL] (tinit True True True) = Some s" "stuck_state s"
    by (simp add: tinit_def watch_step_def proc_wait_def timeout_ms_def sleep_ms_def stuck_state_def)
  then have "treach True s" using trun_treach treach.start by blast
  moreover have "stuck_state s'" if "trun ls s = Some s'" for ls s'
    using trun_invariant [OF that, where P = stuck_state and A = UNIV] s(2) stuck_step by blast
  ultimately show ?thesis using s(2) by (auto simp: stuck_state_def)
qed

subsection \<open>The call as a whole\<close>

lemma upgrade_okE:
  assumes "upgrade os env args holder fits sched fds s = Some (Ret (Inr ()), (up', w'))"
  obtains child rr sl up1 w1 t where "upgrade_begin os env args fds s = (Ret (Inr (child, rr, sl)), (up1, w1))"
    and "trun sched (tinit holder fits (cp_start child \<noteq> None)) = Some t" and "t_main t = Finished (Inr ())"
    and "up' = t_upgrading t" and "w' = close_raw os sl (close_raw os rr w1)"
  using assms by (auto simp: upgrade_def split: prod.splits outcome.splits sum.splits option.splits main_pc.splits)

lemma trun_no_other:
  assumes "trun ls s = Some s'" and "OtherStartL \<notin> set ls" and "\<not> t_other_active s"
  shows "\<not> t_other_active s'"
proof -
  have "\<not> t_other_active s'" if "l \<noteq> OtherStartL" "\<not> t_other_active s" "tstep l s = Some s'" for l s s'
    using that by (cases l) (auto elim!: main_stepE ready_stepE simp: watch_step_frame send_step_def split: if_splits)
  then show ?thesis
    using trun_invariant [OF assms(1), where P = "\<lambda>s. \<not> t_other_active s" and A = "- {OtherStartL}"] assms(2,3)
    by blast
qed

text \<open>
  C6. \<open>upgrade\<close> returns \<open>Ok\<close> only if no upgrade was running, the child was launched and started its
  program, and the child wrote \<open>OK\<close> on its ready pipe; the flag is then down, unless another upgrade
  has begun since, and the parent keeps neither end of the two pipes.
\<close>

theorem upgrade_ok_means_ready:
  assumes "posix os fdt" and "args \<noteq> []" and "\<forall>li\<in>set fds. fdt w (li_fd li) \<noteq> None"
    and "upgrade os env args holder fits sched fds (up, w) = Some (Ret (Inr ()), (up', w'))"
  shows "\<not> up \<and> fdt w' = fdt w \<and> (\<exists>t. trun sched (tinit holder fits True) = Some t \<and> said_ok t
    \<and> \<not> t_killed t \<and> (OtherStartL \<notin> set sched \<longrightarrow> \<not> up'))"
proof -
  obtain child rr sl w1 up1 t where
    b: "upgrade_begin os env args fds (up, w) = (Ret (Inr (child, rr, sl)), (up1, w1))"
    and t: "trun sched (tinit holder fits (cp_start child \<noteq> None)) = Some t" "t_main t = Finished (Inr ())"
    and res: "up' = t_upgrading t" "w' = close_raw os sl (close_raw os rr w1)"
    using upgrade_okE [OF assms(4)] by metis
  have up: "\<not> up" and l: "upgrade_launch os env args fds w = (Ret (Inr (child, rr, sl)), w1)"
    using b by (auto simp: upgrade_begin_def onSnd_def split: if_splits prod.splits)
  have ok: "launch_ok (fdt w) env (li_fd ` set fds) fdt child rr sl (fdt w1)"
    using posix.launch_descriptors [OF assms(1-3) l] by simp
  then have "fdt w' = fdt w" using res posix.close_raw_fds [OF assms(1)] by (auto simp: launch_ok_def fun_eq_iff)
  moreover have st: "cp_start child \<noteq> None" using ok by (auto simp: launch_ok_def)
  moreover have re: "treach holder t" using trun_treach [OF treach.start t(1)] .
  moreover have "result_means t (Inr ())" using re t(2) treach_inv tinv_result by blast
  moreover have "OtherStartL \<notin> set sched \<Longrightarrow> \<not> t_upgrading t"
    using trun_no_other [OF t(1)] treach_inv [OF re] t(2) by (auto simp: tinv_def flag_inv_def tinit_def)
  ultimately show ?thesis using up t(1) res by auto
qed

subsection \<open>Concrete runs\<close>

text \<open>A child that is ready at once, one that never answers, and one that crashes.\<close>

definition good_schedule :: "label list" where
  "good_schedule = [WatchL, WriteL CHR ''O'', WriteL CHR ''K'', ReadyL, MainL, MainL, TickL 500, WatchL, WatchL, WatchL, WatchL, SendL, MainL, MainL]"

lemmas run_defs = good_schedule_def tinit_def main_step_def ready_step_def watch_step_def send_step_def proc_wait_def said_ok_def
  timeout_ms_def sleep_ms_def

definition good_end :: tstate where
  "good_end = the (trun good_schedule (tinit False True True))"

lemma good_end_run: "trun good_schedule (tinit False True True) = Some good_end"
  and good_end_main: "t_main good_end = Finished (Inr ())"
  by (simp_all add: good_end_def run_defs)

lemma good_end_reach: "treach False good_end"
  by (rule trun_treach [OF treach.start good_end_run])

theorem upgrade_result_sound_witness:
  "t_main good_end = Finished (Inr ()) \<and> said_ok good_end \<and> \<not> t_killed good_end"
  using upgrade_result_sound [OF good_end_reach good_end_main] good_end_main by simp


theorem store_cancels_kill_witness:
  "\<exists>s s'. trun (take 5 good_schedule) (tinit False True True) = Some s \<and> t_watch s = Asleep 500
    \<and> trun [MainL, TickL 60000, WatchL, WatchL, WatchL, WatchL, MainL] s = Some s' \<and> \<not> t_killed s'"
proof -
  obtain s where s: "trun (take 5 good_schedule) (tinit False True True) = Some s" "t_watch s = Asleep 500"
      "t_main s = StoreFlag (Inr ())" "t_child s = Running"
    by (simp add: run_defs)
  obtain s' where s': "trun [MainL, TickL 60000, WatchL, WatchL, WatchL, WatchL, MainL] s = Some s'"
    using s by (simp add: run_defs)
  have "\<not> t_killed s' \<and> t_main s' \<noteq> Finished (Inl ChildTimeout)"
    by (rule store_cancels_kill [OF trun_treach [OF treach.start s(1)] s(3) _ s']) (use s in auto)
  with s s' show ?thesis by blast
qed


lemma upgrade_ex_run:
  "\<exists>up w. upgrade kern Map.empty [''srv''] False True good_schedule [\<lparr>li_fd = 4, li_sock = Tcp (SockV4 0 80)\<rparr>]
    (False, launch_ex_world 16) = Some (Ret (Inr ()), (up, w))"
proof -
  let ?lis = "[\<lparr>li_fd = 4, li_sock = Tcp (SockV4 0 80)\<rparr>]"
  obtain child rr sl w' where
    run: "upgrade_launch kern Map.empty [''srv''] ?lis (launch_ex_world 16) = (Ret (Inr (child, rr, sl)), w')"
    using is_okD [OF launch_ex_ok] by auto
  have "\<forall>li\<in>set ?lis. k_fdt (launch_ex_world 16) (li_fd li) \<noteq> None"
    by (simp add: launch_ex_world_def kw0_def k_fdt_def)
  then have "cp_start child \<noteq> None"
    using posix.launch_descriptors [OF kern.posix_axioms _ _ run] by (auto simp: launch_ok_def)
  with run show ?thesis
    by (simp add: upgrade_def upgrade_begin_def onSnd_def good_end_run good_end_main)
qed

theorem upgrade_ok_means_ready_witness:
  "\<exists>up w. upgrade kern Map.empty [''srv''] False True good_schedule [\<lparr>li_fd = 4, li_sock = Tcp (SockV4 0 80)\<rparr>]
      (False, launch_ex_world 16) = Some (Ret (Inr ()), (up, w)) \<and> k_fdt w = k_fdt (launch_ex_world 16) \<and> \<not> up"
proof -
  obtain up w where run: "upgrade kern Map.empty [''srv''] False True good_schedule [\<lparr>li_fd = 4, li_sock = Tcp (SockV4 0 80)\<rparr>]
    (False, launch_ex_world 16) = Some (Ret (Inr ()), (up, w))" using upgrade_ex_run by blast
  have "\<forall>li\<in>set [\<lparr>li_fd = 4, li_sock = Tcp (SockV4 0 80)\<rparr>]. k_fdt (launch_ex_world 16) (li_fd li) \<noteq> None"
    by (simp add: launch_ex_world_def kw0_def k_fdt_def)
  from upgrade_ok_means_ready [OF kern.posix_axioms _ this run] run show ?thesis
    by (auto simp: good_schedule_def)
qed

end
