(* ===== verification/Ecdysis.thy ===== *)
theory Ecdysis
  imports Listener Upgrade_Threads Inheriter
begin

text \<open>
  \<open>src/lib.rs\<close>: \<open>Ecdysis\<close>, the object a server keeps. Its methods work on the object
  and the world; \<open>onReg\<close> runs an operation of the registry it holds. \<open>exit(1)\<close> is
  the outcome \<open>Exit 1\<close>. The closures \<open>sock_build\<close> of the caller are arguments. Log
  messages are left out.
\<close>

subsection \<open>The object\<close>

record ecdysis =
  ec_registry :: registry
  ready_notifier :: "fd option"
  pid_file :: "path option"
  ec_child :: bool

type_synonym 'w estate = "ecdysis \<times> 'w"

definition onReg :: "('w rstate, 'a) prog \<Rightarrow> ('w estate, 'a) prog" where
  "onReg m = (\<lambda>(e, w). case m (ec_registry e, w) of (x, (r, w')) \<Rightarrow> (x, (e\<lparr>ec_registry := r\<rparr>, w')))"

lemma onReg_run [simp, prog_simps]:
  "m (ec_registry e, w) = (x, (r, w')) \<Longrightarrow> onReg m (e, w) = (x, (e\<lparr>ec_registry := r\<rparr>, w'))"
  by (simp add: onReg_def)

definition ecdysis_new :: "'w os \<Rightarrow> codec \<Rightarrow> environment \<Rightarrow> ('w, ecdysis) prog" where
  "ecdysis_new os codec env = bindP (init_child os codec env) (\<lambda>res. case res of
      Inr (fds, ready_pipe) \<Rightarrow> returnP \<lparr>ec_registry = from_inherited fds,
        ready_notifier = Some ready_pipe, pid_file = None, ec_child = True\<rparr>
    | Inl NotAnUpgrade \<Rightarrow> returnP \<lparr>ec_registry = registry_new,
        ready_notifier = None, pid_file = None, ec_child = False\<rparr>
    | Inl e \<Rightarrow> (\<lambda>w. (Exit 1, w)))"

definition is_child :: "ecdysis \<Rightarrow> bool" where
  "is_child e = ec_child e"

definition set_pid_file :: "path \<Rightarrow> ecdysis \<Rightarrow> ecdysis" where
  "set_pid_file p e = e\<lparr>pid_file := Some p\<rparr>"

definition write_pidfile :: "'w os \<Rightarrow> ecdysis \<Rightarrow> ('w, io_error + unit) prog" where
  "write_pidfile os e = (case pid_file e of
      Some p \<Rightarrow> write_pid_file os p
    | None \<Rightarrow> returnP (Inr ()))"

subsection \<open>ready, upgrade, quit\<close>

text \<open>The notifier is taken out of the object, written to and dropped.\<close>

definition notify_parent :: "'w os \<Rightarrow> ('w estate, io_error + unit) prog" where
  "notify_parent os = (\<lambda>(e, w). case ready_notifier e of
      Some notifier \<Rightarrow> (case pipe_write_all os notifier ''OK'' w of
          (res, w') \<Rightarrow> (Ret res, (e\<lparr>ready_notifier := None\<rparr>, snd (sys_close os notifier w'))))
    | None \<Rightarrow> (Ret (Inr ()), (e, w)))"

definition ready :: "'w os \<Rightarrow> ('w estate, io_error + unit) prog" where
  "ready os = bindP (onReg (close_inherited os)) (\<lambda>u.
    bindP (\<lambda>(e, w). onSnd (write_pidfile os e) (e, w)) (\<lambda>ignored.
    notify_parent os))"

text \<open>\<open>upgrade\<close> on the object, the flag \<open>UPGRADING\<close> and the world; \<open>None\<close> when the schedule of the
  threads ends before the call returns. On an error the pid file is written again.\<close>

definition ecdysis_upgrade ::
    "'w os \<Rightarrow> environment \<Rightarrow> string list \<Rightarrow> bool \<Rightarrow> bool \<Rightarrow> label list \<Rightarrow> ecdysis
      \<Rightarrow> 'w ustate \<Rightarrow> (upgrade_finished outcome \<times> 'w ustate) option" where
  "ecdysis_upgrade os env args holder fits sched e = (\<lambda>(up, w).
    case get_fds_for_child (ec_registry e, w) of
      (Ret fds, (r, w1)) \<Rightarrow> (case upgrade os env args holder fits sched fds (up, w1) of
          Some (Ret (Inl err), (up', w2)) \<Rightarrow>
            Some (bindP (onSnd (write_pidfile os e)) (\<lambda>ignored. returnP (Inl err)) (up', w2))
        | res \<Rightarrow> res)
    | (Panic m, (r, w1)) \<Rightarrow> Some (Panic m, (up, w1))
    | (Exit n, (r, w1)) \<Rightarrow> Some (Exit n, (up, w1)))"

definition quit :: "'w os \<Rightarrow> ('w estate, unit) prog" where
  "quit os = onReg (close_used os)"

text \<open>Dropping the object drops the registry, then the pipe.\<close>

definition drop_ecdysis :: "'w os \<Rightarrow> ('w estate, unit) prog" where
  "drop_ecdysis os = bindP (onReg (drop_registry os)) (\<lambda>u (e, w). case ready_notifier e of
      None \<Rightarrow> (Ret (), (e, w))
    | Some fd \<Rightarrow> (Ret (), (e\<lparr>ready_notifier := None\<rparr>, snd (sys_close os fd w))))"

subsection \<open>Listening\<close>

definition listen_unix :: "'w os \<Rightarrow> path \<Rightarrow> ('w estate, io_error + fd) prog" where
  "listen_unix os path = onReg (listen_with os (Unix (Some path)) (liftP (unix_bind os path)) UnixListenerK)"

definition listen_unix_seqpacket :: "'w os \<Rightarrow> path \<Rightarrow> ('w estate, io_error + fd) prog" where
  "listen_unix_seqpacket os path =
    onReg (listen_with os (UnixSeqpacket (Some path)) (liftP (seqpacket_bind os path)) SeqpacketListenerK)"

text \<open>A new socket handed to the caller's closure.\<close>

definition build_socket ::
    "'w os \<Rightarrow> sock_type \<Rightarrow> (fd \<Rightarrow> socket_addr \<Rightarrow> ('w, io_error + fd) prog) \<Rightarrow> socket_addr \<Rightarrow> ('w, io_error + fd) prog" where
  "build_socket os ty sock_build addr =
    tryP (liftP (socket_new os (domain_for_address addr) ty)) (\<lambda>builder. sock_build builder addr)"

definition build_listen_tcp ::
    "'w os \<Rightarrow> socket_addr \<Rightarrow> (fd \<Rightarrow> socket_addr \<Rightarrow> ('w, io_error + fd) prog) \<Rightarrow> ('w estate, io_error + fd) prog" where
  "build_listen_tcp os addr sock_build =
    onReg (listen_with os (Tcp addr) (build_socket os STREAM sock_build addr) TcpListenerK)"

definition build_socket_udp ::
    "'w os \<Rightarrow> socket_addr \<Rightarrow> (fd \<Rightarrow> socket_addr \<Rightarrow> ('w, io_error + fd) prog) \<Rightarrow> ('w estate, io_error + fd) prog" where
  "build_socket_udp os addr sock_build =
    onReg (listen_with os (Udp addr) (build_socket os DGRAM sock_build addr) UdpSocketK)"

text \<open>The closure of \<open>listen_tcp\<close>: bind, listen, convert. The socket is dropped on an error.\<close>

definition tcp_bind_listen :: "'w os \<Rightarrow> fd \<Rightarrow> socket_addr \<Rightarrow> ('w, io_error + fd) prog" where
  "tcp_bind_listen os b addr = owning (\<lambda>w. snd (sys_close os b w))
    (tryP (liftP (socket_bind os b addr)) (\<lambda>u.
     tryP (liftP (socket_listen os b 128)) (\<lambda>v. returnP (Inr b))))"

definition listen_tcp :: "'w os \<Rightarrow> socket_addr \<Rightarrow> ('w estate, io_error + fd) prog" where
  "listen_tcp os addr = build_listen_tcp os addr (tcp_bind_listen os)"

text \<open>Of a new pair one end is the caller's; the other is registered as a duplicate, then dropped. The
  caller's end is dropped too when the registration fails.\<close>

definition pair_for_child :: "'w os \<Rightarrow> sock_info \<Rightarrow> ('w rstate, io_error + fd) prog" where
  "pair_for_child os si = tryP (onSnd (liftP (datagram_pair os))) (\<lambda>(to_child, childs).
     scoped (drop_fd os childs) (owning (drop_fd os to_child)
       (tryP (add os \<lparr>li_fd = childs, li_sock = si\<rparr>) (\<lambda>u. returnP (Inr to_child)))))"

definition unix_datagram_pair :: "'w os \<Rightarrow> string \<Rightarrow> ('w estate, fd option \<times> (io_error + fd)) prog" where
  "unix_datagram_pair os name = onReg
    (bindP (take_fd os (UnboundUnixDatagram name)) (\<lambda>to_parent (r, w).
      case pair_for_child os (UnboundUnixDatagram name) (r, w) of
        (Ret to_child, s) \<Rightarrow> (Ret (to_parent, to_child), s)
      | (Panic m, s) \<Rightarrow> (Panic m, (case to_parent of None \<Rightarrow> s | Some fd \<Rightarrow> drop_fd os fd s))
      | (Exit n, s) \<Rightarrow> (Exit n, s)))"

subsection \<open>The sources of sockets\<close>

definition source_ok :: "('w \<Rightarrow> fdtable) \<Rightarrow> 'w \<Rightarrow> ('w, io_error + fd) prog \<Rightarrow> bool" where
  "source_ok fdt w c \<longleftrightarrow> (\<exists>x w'. c w = (Ret x, w') \<and>
    (case x of Inr fd \<Rightarrow> opens_fresh (fdt w) fd (fdt w') | Inl e \<Rightarrow> fdt w' = fdt w))"

context posix_sockets
begin

lemma source_by_cases:
  assumes "\<And>w. source_ok fdt w c"
  shows "socket_source os fdt c"
proof unfold_locales
  fix w new w' assume "c w = (Ret (Inr new), w')"
  then show "opens_fresh (fdt w) new (fdt w')" using assms [of w] by (auto simp: source_ok_def)
next
  fix w e w' assume "c w = (Ret (Inl e), w')"
  then show "fdt w' = fdt w" using assms [of w] by (auto simp: source_ok_def)
next
  fix w show "\<exists>x. fst (c w) = Ret x" using assms [of w] by (auto simp: source_ok_def)
qed

lemma liftP_source:
  assumes "\<And>w fd w'. op w = (Inr fd, w') \<Longrightarrow> opens_fresh (fdt w) fd (fdt w')"
    and "\<And>w e w'. op w = (Inl e, w') \<Longrightarrow> fdt w' = fdt w"
  shows "socket_source os fdt (liftP op)"
  by unfold_locales (use assms in \<open>auto simp: liftP_def split: prod.splits\<close>)

lemma unix_bind_source: "socket_source os fdt (liftP (unix_bind os p))"
  by (rule liftP_source) (fact unix_bind_ok, fact unix_bind_err)

lemma seqpacket_bind_source: "socket_source os fdt (liftP (seqpacket_bind os p))"
  by (rule liftP_source) (fact seqpacket_bind_ok, fact seqpacket_bind_err)

lemma tcp_bind_listen_cases:
  obtains (ok) w' where "tcp_bind_listen os b a w = (Ret (Inr b), w')" and "fdt w' = fdt w"
  | (err) e w' where "tcp_bind_listen os b a w = (Ret (Inl e), w')" and "fdt w' = (fdt w)(b := None)"
proof -
  obtain x w1 where x: "socket_bind os b a w = (x, w1)" by fastforce
  obtain y w2 where y: "socket_listen os b 128 w1 = (y, w2)" by fastforce
  have f1: "fdt w1 = fdt w" and f2: "fdt w2 = fdt w"
    using socket_bind_fds [of b a w] socket_listen_fds [of b 128 w1] x y by simp_all
  show thesis
  proof (cases x)
    case (Inl e)
    then show thesis using that(2) [of e "snd (sys_close os b w1)"] x f1 close_gone
      by (simp add: tcp_bind_listen_def)
  next
    case (Inr u)
    then show thesis
      using that(1) [of w2] that(2) [of _ "snd (sys_close os b w2)"] x y f2 close_gone [of b w2]
      by (cases y) (simp_all add: tcp_bind_listen_def)
  qed
qed

lemma tcp_create_source: "socket_source os fdt (build_socket os ty (tcp_bind_listen os) addr)"
proof -
  have "source_ok fdt w (build_socket os ty (tcp_bind_listen os) addr)" for w
  proof -
    obtain x w1 where x: "socket_new os (domain_for_address addr) ty w = (x, w1)" by fastforce
    show ?thesis
    proof (cases x)
      case (Inl e)
      then show ?thesis using x socket_new_err by (simp add: build_socket_def source_ok_def)
    next
      case (Inr fd)
      then have new: "opens_fresh (fdt w) fd (fdt w1)" using x socket_new_ok by blast
      show ?thesis
        by (cases rule: tcp_bind_listen_cases [of fd addr w1])
          (use new x Inr opens_freshD(4) [OF new] in \<open>simp_all add: build_socket_def source_ok_def\<close>)
    qed
  qed
  then show ?thesis by (rule source_by_cases)
qed

end

sublocale posix_sockets \<subseteq> unix_source: socket_source os fdt "liftP (unix_bind os p)" for p
  by (rule unix_bind_source)

sublocale posix_sockets \<subseteq> seqpacket_source: socket_source os fdt "liftP (seqpacket_bind os p)" for p
  by (rule seqpacket_bind_source)

interpretation kern_tcp: socket_source kern k_fdt "build_socket kern STREAM (tcp_bind_listen kern) addr" for addr
  by (rule kern_sockets.tcp_create_source)

subsection \<open>Properties: listening\<close>

lemma onRegE:
  assumes "onReg m (e, w) = (x, (e', w'))"
  obtains r where "m (ec_registry e, w) = (x, (r, w'))" and "e' = e\<lparr>ec_registry := r\<rparr>"
  using assms by (auto simp: onReg_def split: prod.splits)

lemma listen_on_registry:
  assumes "socket_source os fdt create" and "reg_inv (fdt w) (ec_registry e)"
    and "onReg (listen_with os k create kind) (e, w) = (x, (e', w'))"
  shows "reg_inv (fdt w') (ec_registry e') \<and> e' = e\<lparr>ec_registry := ec_registry e'\<rparr>
    \<and> listen_outcome (fdt w) (ec_registry e) x (fdt w') (ec_registry e')"
  using assms(3)
proof (rule onRegE)
  fix r assume "listen_with os k create kind (ec_registry e, w) = (x, (r, w'))" and "e' = e\<lparr>ec_registry := r\<rparr>"
  then show ?thesis using socket_source.listen_registers [OF assms(1,2)] by auto
qed

lemma posix_sources:
  assumes "posix os fdt"
  shows "socket_source os fdt (liftP (unix_bind os p))" "socket_source os fdt (liftP (seqpacket_bind os p))"
    "socket_source os fdt (build_socket os STREAM (tcp_bind_listen os) a)"
  using posix_sockets.unix_bind_source posix_sockets.seqpacket_bind_source posix_sockets.tcp_create_source
    posix.axioms(1) [OF assms] by blast+

text \<open>
  \<open>listen_unix\<close>, \<open>listen_unix_seqpacket\<close> and \<open>listen_tcp\<close>, on every
  branch (inherited, created, any failure): the registry keeps its invariant and nothing else of the object
  changes; on success the caller's descriptor and the registry's new one are different, close-on-exec, and
  refer to one socket; no other descriptor was opened, and on failure none outside the registry.
\<close>

theorem listen_shares_one_socket:
  assumes "posix os fdt" and "reg_inv (fdt w) (ec_registry e)"
    and "op \<in> {listen_unix os p, listen_unix_seqpacket os p, listen_tcp os a}"
    and "op (e, w) = (x, (e', w'))"
  shows "reg_inv (fdt w') (ec_registry e') \<and> e' = e\<lparr>ec_registry := ec_registry e'\<rparr>
    \<and> listen_outcome (fdt w) (ec_registry e) x (fdt w') (ec_registry e')"
  using assms(3,4) listen_on_registry [OF posix_sources(1) [OF assms(1)] assms(2)]
    listen_on_registry [OF posix_sources(2) [OF assms(1)] assms(2)]
    listen_on_registry [OF posix_sources(3) [OF assms(1)] assms(2)]
  unfolding listen_unix_def listen_unix_seqpacket_def listen_tcp_def build_listen_tcp_def by blast

text \<open>
  The same for \<open>build_listen_tcp\<close> and \<open>build_socket_udp\<close> with any closure that returns the
  socket it was given, or fails and drops it; and when nothing is inherited under the address, a success
  opens exactly two descriptors, on one new socket, and a failure changes neither table nor registry.
\<close>

theorem build_creates_one_socket:
  assumes "socket_source os fdt (build_socket os ty sock_build a)" and "reg_inv (fdt w) (ec_registry e)"
    and "\<forall>li\<in>set (inherited_list (ec_registry e)). \<not> sock_info_eq (li_sock li) (if ty = STREAM then Tcp a else Udp a)"
    and "(if ty = STREAM then build_listen_tcp os a sock_build else build_socket_udp os a sock_build) (e, w)
      = (x, (e', w'))"
  shows "case x of
      Ret (Inr fd) \<Rightarrow> (\<exists>n j si. fdt w fd = None \<and> fdt w n = None \<and> fd < n \<and> j \<notin> ofds (fdt w)
        \<and> fdt w' = (fdt w)(fd \<mapsto> \<lparr>cloexec = True, ofd = j\<rparr>, n \<mapsto> \<lparr>cloexec = True, ofd = j\<rparr>)
        \<and> ec_registry e' = set_used (used_list (ec_registry e) @ [\<lparr>li_fd = n, li_sock = si\<rparr>]) (ec_registry e))
    | Ret (Inl err) \<Rightarrow> fdt w' = fdt w \<and> e' = e
    | _ \<Rightarrow> False"
proof -
  let ?k = "if ty = STREAM then Tcp a else Udp a" and ?kind = "if ty = STREAM then TcpListenerK else UdpSocketK"
  have "onReg (listen_with os ?k (build_socket os ty sock_build a) ?kind) (e, w) = (x, (e', w'))"
    using assms(4) by (cases ty) (simp_all add: build_listen_tcp_def build_socket_udp_def)
  then obtain r where r: "listen_with os ?k (build_socket os ty sock_build a) ?kind (ec_registry e, w) = (x, (r, w'))"
    "e' = e\<lparr>ec_registry := r\<rparr>" by (rule onRegE)
  show ?thesis
    by (rule socket_source.listen_new_cases [OF assms(1-3), where kind = ?kind]) (use r in auto)
qed

lemma ofds_iff: "k \<in> ofds t \<longleftrightarrow> (\<exists>fd. socket_of t fd = Some k)"
  by (auto simp: ofds_def ran_def socket_of_def)

lemma ofds_same_entry:
  assumes "t n = None" and "t fd = Some d" and "ofd d' = ofd d"
  shows "ofds (t(fd \<mapsto> d', n \<mapsto> d')) = ofds t"
proof -
  have "socket_of (t(fd \<mapsto> d', n \<mapsto> d')) x = (if x = n then socket_of t fd else socket_of t x)" for x
    using assms by (simp add: socket_of_def)
  moreover have "socket_of t n = None" using assms(1) by (simp add: socket_of_def)
  ultimately show ?thesis by (intro set_eqI) (metis ofds_iff option.distinct(1))
qed

context posix_fds
begin

lemma inherit_adopts:
  assumes "reg_inv (fdt w) r" and "position (\<lambda>li. sock_info_eq (li_sock li) k) (inherited_list r) = Some i"
    and "fd = li_fd (inherited_list r ! i)" and "set_cloexec os fd w = (Ret (), w1)" and "clone_fd os fd w1 = (Ret (Inr n), w2)"
  shows "inherit os k (r, w) = (Ret (Some fd), (set_used (used_list r @ [\<lparr>li_fd = n, li_sock = k\<rparr>])
      (set_inherited (remove_at i (inherited_list r)) r), w2))"
    and "socket_of (fdt w2) fd = socket_of (fdt w) fd \<and> socket_of (fdt w2) n = socket_of (fdt w) fd \<and> ofds (fdt w2) = ofds (fdt w)"
proof -
  show run: "inherit os k (r, w) = (Ret (Some fd), (set_used (used_list r @ [\<lparr>li_fd = n, li_sock = k\<rparr>])
      (set_inherited (remove_at i (inherited_list r)) r), w2))"
    using assms by (simp add: inherit_def take_fd_def add_def Let_def reg_inv_def)
  have "i < length (inherited_list r)" using position_SomeD [OF assms(2)] by simp
  then obtain d where d: "fdt w fd = Some d" using assms(1,3) nth_mem by (fastforce simp: reg_inv_def)
  then have w1: "fdt w1 = (fdt w)(fd \<mapsto> d\<lparr>cloexec := True\<rparr>)" using set_cloexec_open [OF d] assms(4) by auto
  show "socket_of (fdt w2) fd = socket_of (fdt w) fd \<and> socket_of (fdt w2) n = socket_of (fdt w) fd
      \<and> ofds (fdt w2) = ofds (fdt w)"
  proof (cases rule: clone_fd_cases [of fd w1])
    case (ok n' d' w')
    then have "fdt w2 = (fdt w)(fd \<mapsto> d\<lparr>cloexec := True\<rparr>, n \<mapsto> d\<lparr>cloexec := True\<rparr>)" "fdt w n = None"
      using assms(5) w1 by (auto split: if_splits)
    then show ?thesis using d ofds_same_entry [of "fdt w" n fd d] by (auto simp: socket_of_def)
  qed (use assms(5) in simp)
qed

end

text \<open>
  A server that listens on what its parent listened on gets the parent's socket: if an entry of
  the inherited list has the key and there is room for one descriptor, \<open>listen_unix\<close> and
  \<open>listen_tcp\<close> return the descriptor of the first such entry, bind nothing and create no socket, and move the
  entry from the inherited to the used list, as a duplicate of the same socket for the next upgrade.
\<close>

theorem listen_adopts_inherited:
  assumes "posix os fdt" and "reg_inv (fdt w) (ec_registry e)"
    and "(op, k) \<in> {(listen_unix os p, Unix (Some p)), (listen_tcp os a, Tcp a)}"
    and "position (\<lambda>li. sock_info_eq (li_sock li) k) (inherited_list (ec_registry e)) = Some i"
    and "fd = li_fd (inherited_list (ec_registry e) ! i)"
    and "set_cloexec os fd w = (Ret (), w1)" and "clone_fd os fd w1 = (Ret (Inr n), w2)"
  shows "op (e, w) = (Ret (Inr fd), (e\<lparr>ec_registry := set_used (used_list (ec_registry e) @ [\<lparr>li_fd = n, li_sock = k\<rparr>])
        (set_inherited (remove_at i (inherited_list (ec_registry e))) (ec_registry e))\<rparr>, w2))
    \<and> socket_of (fdt w2) fd = socket_of (fdt w) fd \<and> socket_of (fdt w2) n = socket_of (fdt w) fd
    \<and> ofds (fdt w2) = ofds (fdt w)"
proof -
  have pf: "posix_fds os fdt" using assms(1) by (simp add: posix_def posix_sockets_def)
  note ad = posix_fds.inherit_adopts [OF pf assms(2,4-7)]
  have "op (e, w) = (Ret (Inr fd), (e\<lparr>ec_registry := set_used (used_list (ec_registry e) @ [\<lparr>li_fd = n, li_sock = k\<rparr>])
        (set_inherited (remove_at i (inherited_list (ec_registry e))) (ec_registry e))\<rparr>, w2))"
    using assms(3) ad(1) by (auto simp: listen_unix_def listen_tcp_def build_listen_tcp_def listen_with_def onReg_def)
  then show ?thesis using ad(2) by blast
qed

subsection \<open>Properties: life cycle\<close>


lemma posix_parts:
  assumes "posix os fdt"
  shows "posix_fds os fdt" "posix_sockets os fdt"
  using assms by (simp_all add: posix_def posix_sockets_def)

text \<open>
  C33. The order of \<open>ready\<close> in a child with a pid file: first every inherited descriptor nobody asked
  for is closed; then the pid file is replaced; only then is \<open>OK\<close> written to the parent, once, and the
  pipe closed and forgotten. If the pid file cannot be written the call panics, the file is as it
  was and nothing is reported to the parent.
\<close>

theorem ready_order:
  assumes "posix os fdt" and "posix_files os fs" and "\<not> m_poisoned (inherited_fds (ec_registry e))"
    and "ready_notifier e = Some nfd" and "pid_file e = Some pf" and "ready os (e, w) = (x, (e', w'))"
  shows "\<exists>w1. close_inherited os (ec_registry e, w) = (Ret (), (set_inherited [] (ec_registry e), w1))
    \<and> fdt w1 = fdt w |` (- li_fd ` set (inherited_list (ec_registry e)))
    \<and> ((\<exists>m. x = Panic m \<and> fs w' = fs w1 \<and> ready_notifier e' = Some nfd)
      \<or> (\<exists>w2 res w3. fs w2 = (fs w1)(pf \<mapsto> show_int (sys_getpid os w1))
          \<and> pipe_write_all os nfd ''OK'' w2 = (res, w3) \<and> x = Ret res
          \<and> w' = snd (sys_close os nfd w3) \<and> ready_notifier e' = None))"
proof -
  obtain w1 where ci: "close_inherited os (ec_registry e, w) = (Ret (), (set_inherited [] (ec_registry e), w1))"
    "fdt w1 = fdt w |` (- set (map li_fd (inherited_list (ec_registry e))))"
    using posix_fds.close_inherited_run [OF posix_parts(1) [OF assms(1)] assms(3)] by metis
  let ?e = "e\<lparr>ec_registry := set_inherited [] (ec_registry e)\<rparr>"
  obtain y w2 where wp: "write_pid_file os pf w1 = (y, w2)" by fastforce
  have run: "ready os (e, w) = bindP (\<lambda>(e, w). onSnd (write_pidfile os e) (e, w)) (\<lambda>ignored. notify_parent os) (?e, w1)"
    using ci by (simp add: ready_def)
  show ?thesis
  proof (rule posix_files.write_pid_file_cases [OF assms(2) wp])
    assume ok: "y = Ret (Inr ())" "fs w2 = (fs w1)(pf \<mapsto> show_int (sys_getpid os w1))"
    obtain res w3 where "pipe_write_all os nfd ''OK'' w2 = (res, w3)" by fastforce
    then show ?thesis
      using ok wp run assms(4-6) ci by (auto simp: write_pidfile_def notify_parent_def)
  next
    fix m assume "y = Panic m" "fs w2 = fs w1"
    then show ?thesis using wp run assms(4-6) ci by (auto simp: write_pidfile_def)
  qed
qed

text \<open>
  After a failed upgrade the pid file names the parent again: when \<open>Ecdysis::upgrade\<close> returns an
  error, whatever the error, the file holds the pid of the calling process.
\<close>

theorem failed_upgrade_restores_pid_file:
  assumes "posix_files os fs" and "pid_file e = Some pf"
    and "ecdysis_upgrade os env args holder fits sched e (up, w) = Some (Ret (Inl err), (up', w'))"
  shows "\<exists>w1. upgrade os env args holder fits sched (used_list (ec_registry e)) (up, w) = Some (Ret (Inl err), (up', w1))
    \<and> fs w' = (fs w1)(pf \<mapsto> show_int (sys_getpid os w1))"
proof -
  obtain w1 up1 err1 where u: "upgrade os env args holder fits sched (used_list (ec_registry e)) (up, w) = Some (Ret (Inl err1), (up1, w1))"
    and b: "bindP (onSnd (write_pidfile os e)) (\<lambda>ignored. returnP (Inl err1)) (up1, w1)
      = (Ret (Inl err :: upgrade_finished), (up', w'))"
    using assms(3) by (auto simp: ecdysis_upgrade_def get_fds_for_child_def
        split: if_splits option.splits outcome.splits sum.splits prod.splits)
  obtain y w2 where wp: "write_pid_file os pf w1 = (y, w2)" by fastforce
  show ?thesis
    by (rule posix_files.write_pid_file_cases [OF assms(1) wp])
      (use u b wp assms(2) in \<open>auto simp: write_pidfile_def\<close>)
qed

text \<open>
  \<open>quit\<close> closes exactly the registry's duplicates of the sockets in use and forgets them; a
  descriptor \<open>listen_tcp\<close> returned stays open, on the same socket, until the application closes it.
\<close>

theorem quit_leaves_callers_listener:
  assumes "posix os fdt" and "reg_inv (fdt w) (ec_registry e)"
    and "listen_tcp os a (e, w) = (Ret (Inr fd), (e1, w1))" and "quit os (e1, w1) = (x, (e2, w2))"
  shows "x = Ret () \<and> fdt w2 = fdt w1 |` (- li_fd ` set (used_list (ec_registry e1)))
    \<and> used_list (ec_registry e2) = [] \<and> inherited_list (ec_registry e2) = inherited_list (ec_registry e1)
    \<and> fdt w2 fd = fdt w1 fd \<and> fdt w2 fd \<noteq> None"
proof -
  have l: "reg_inv (fdt w1) (ec_registry e1)"
    "listen_outcome (fdt w) (ec_registry e) (Ret (Inr fd)) (fdt w1) (ec_registry e1)"
    using listen_on_registry [OF posix_sources(3) [OF assms(1)] assms(2)] assms(3)
    by (auto simp: listen_tcp_def build_listen_tcp_def)
  then have "\<not> m_poisoned (used_fds (ec_registry e1))" by (simp add: reg_inv_def)
  then obtain w' where "close_used os (ec_registry e1, w1) = (Ret (), (set_used [] (ec_registry e1), w'))"
    and "fdt w' = fdt w1 |` (- set (map li_fd (used_list (ec_registry e1))))"
    using posix_fds.close_used_run [OF posix_parts(1) [OF assms(1)]] by metis
  moreover have "fd \<notin> li_fd ` set (used_list (ec_registry e1))" and "fdt w1 fd \<noteq> None"
    using l(2) by (auto simp: listen_outcome_def owned_fds_def)
  ultimately show ?thesis using assms(4) by (auto simp: quit_def)
qed

subsection \<open>Properties: pairs of datagram sockets\<close>

context posix
begin

lemma pair_for_child_cases:
  assumes "\<not> m_poisoned (used_fds r)"
  obtains (ok) c n j k w' where "fdt w c = None" and "fdt w n = None" and "c \<noteq> n"
      and "j \<notin> ofds (fdt w)" and "k \<notin> ofds (fdt w)" and "j \<noteq> k"
      and "fdt w' = (fdt w)(c \<mapsto> \<lparr>cloexec = True, ofd = j\<rparr>, n \<mapsto> \<lparr>cloexec = True, ofd = k\<rparr>)"
      and "pair_for_child os si (r, w) = (Ret (Inr c), (set_used (used_list r @ [\<lparr>li_fd = n, li_sock = si\<rparr>]) r, w'))"
  | (err) e w' where "fdt w' = fdt w" and "pair_for_child os si (r, w) = (Ret (Inl e), (r, w'))"
proof -
  obtain x w1 where x: "datagram_pair os w = (x, w1)" by fastforce
  show thesis
  proof (cases x)
    case (Inl e)
    then show thesis using that(2) x datagram_pair_err by (simp add: pair_for_child_def)
  next
    case (Inr ab)
    obtain a b where ab: "ab = (a, b)" by fastforce
    obtain t where t: "opens_fresh (fdt w) a t" "opens_fresh t b (fdt w1)" using datagram_pair_ok x Inr ab by blast
    then obtain j where j: "fdt w a = None" "j \<notin> ofds (fdt w)" "t = (fdt w)(a \<mapsto> \<lparr>cloexec = True, ofd = j\<rparr>)"
      by (auto simp: opens_fresh_def)
    with t obtain k where k: "t b = None" "k \<notin> ofds t" "fdt w1 = t(b \<mapsto> \<lparr>cloexec = True, ofd = k\<rparr>)"
      by (auto simp: opens_fresh_def)
    have b: "b \<noteq> a" "fdt w b = None" using j k by (auto split: if_splits)
    from assms show thesis
    proof (cases rule: add_cases [of r w1 "\<lparr>li_fd = b, li_sock = si\<rparr>"])
      case (ok n d w2)
      let ?w = "snd (sys_close os b w2)"
      have "fdt ?w = (fdt w)(a \<mapsto> \<lparr>cloexec = True, ofd = j\<rparr>, n \<mapsto> \<lparr>cloexec = True, ofd = k\<rparr>)"
        and "fdt w n = None" and "a \<noteq> n"
        using ok j k b close_gone [of b w2] by (auto simp: fun_eq_iff split: if_splits)
      then show thesis
        using that(1) [of a n j k ?w] j k ok x Inr ab by (auto simp: pair_for_child_def drop_fd_def)
    next
      case (err e w2)
      let ?w = "snd (sys_close os b (snd (sys_close os a w2)))"
      have "fdt ?w = fdt w" using err j k b close_gone by (auto simp: fun_eq_iff)
      then show thesis using that(2) [of ?w e] err x Inr ab by (simp add: pair_for_child_def drop_fd_def)
    qed
  qed
qed

end

text \<open>What the two results of \<open>unix_datagram_pair\<close> are, over tables and registries.\<close>

definition taken_end :: "string \<Rightarrow> fdtable \<Rightarrow> registry \<Rightarrow> fd option \<Rightarrow> fdtable \<Rightarrow> registry \<Rightarrow> bool" where
  "taken_end name t r tp t' r' \<longleftrightarrow> (case tp of
      None \<Rightarrow> \<forall>li\<in>set (inherited_list r). li_sock li \<noteq> UnboundUnixDatagram name
    | Some fd \<Rightarrow> fd \<in> li_fd ` set (inherited_list r) \<and> fd \<notin> set (owned_fds r')
        \<and> (\<exists>d. t fd = Some d \<and> t' fd = Some (d\<lparr>cloexec := True\<rparr>)))"

definition pair_result :: "string \<Rightarrow> fdtable \<Rightarrow> registry \<Rightarrow> io_error + fd \<Rightarrow> fdtable \<Rightarrow> registry \<Rightarrow> bool" where
  "pair_result name t1 r1 tc t' r' \<longleftrightarrow> (case tc of
      Inl err \<Rightarrow> t' = t1 \<and> r' = r1
    | Inr c \<Rightarrow> \<exists>n j k. t1 c = None \<and> t1 n = None \<and> c \<noteq> n \<and> j \<noteq> k \<and> j \<notin> ofds t1 \<and> k \<notin> ofds t1
        \<and> t' = t1(c \<mapsto> \<lparr>cloexec = True, ofd = j\<rparr>, n \<mapsto> \<lparr>cloexec = True, ofd = k\<rparr>)
        \<and> r' = set_used (used_list r1 @ [\<lparr>li_fd = n, li_sock = UnboundUnixDatagram name\<rparr>]) r1)"

lemma sock_info_eq_datagram [simp]:
  "sock_info_eq s (UnboundUnixDatagram name) \<longleftrightarrow> s = UnboundUnixDatagram name"
  by (cases s) auto

context posix
begin

lemma take_datagram:
  assumes "reg_inv (fdt w) r"
  obtains tp r1 w1 where "take_fd os (UnboundUnixDatagram name) (r, w) = (Ret tp, (r1, w1))"
    and "reg_inv (fdt w1) r1" and "taken_end name (fdt w) r tp (fdt w1) r1" and "used_list r1 = used_list r"
  using assms
proof (cases rule: take_fd_cases [of w r "UnboundUnixDatagram name"])
  case absent
  then show thesis using that [of None r w] assms by (simp add: taken_end_def)
next
  case (found p d w')
  let ?r = "set_inherited (remove_at p (inherited_list r)) r"
  have "reg_inv (fdt w') ?r" using take_fd_inv [OF assms found(5)] by simp
  moreover have "taken_end name (fdt w) r (Some (li_fd (inherited_list r ! p))) (fdt w') ?r"
    using found(2-4) removed_not_owned [OF assms found(2)] by (auto simp: taken_end_def)
  ultimately show thesis using that found(5) by simp
qed

lemma pair_result_inv:
  assumes "reg_inv t1 r1" and "pair_result name t1 r1 tc t' r'"
  shows "reg_inv t' r'"
proof (cases tc)
  case (Inl e)
  then show ?thesis using assms by (simp add: pair_result_def)
next
  case (Inr c)
  then obtain n j k where c: "t1 c = None" "t1 n = None" "c \<noteq> n"
    "t' = t1(c \<mapsto> \<lparr>cloexec = True, ofd = j\<rparr>, n \<mapsto> \<lparr>cloexec = True, ofd = k\<rparr>)"
    "r' = set_used (used_list r1 @ [\<lparr>li_fd = n, li_sock = UnboundUnixDatagram name\<rparr>]) r1"
    using assms(2) by (auto simp: pair_result_def)
  then show ?thesis
    using reg_inv_push [OF reg_inv_new_entry [OF assms(1) c(1), of "\<lparr>cloexec = True, ofd = j\<rparr>"], of n
        "\<lparr>cloexec = True, ofd = k\<rparr>" "\<lparr>li_fd = c, li_sock = UnboundUnixDatagram name\<rparr>"] by simp
qed

lemma pair_for_child_result:
  assumes "\<not> m_poisoned (used_fds r)"
  obtains tc r' w' where "pair_for_child os (UnboundUnixDatagram name) (r, w) = (Ret tc, (r', w'))"
    and "pair_result name (fdt w) r tc (fdt w') r'"
  using assms
proof (cases rule: pair_for_child_cases [of r w "UnboundUnixDatagram name"])
  case (ok c n j k w')
  then show thesis by (intro that [of "Inr c"]) (auto simp: pair_result_def)
next
  case (err e w')
  then show thesis using that [of "Inl e" r w'] by (simp add: pair_result_def)
qed

lemma datagram_pair_ends:
  assumes "reg_inv (fdt w) r"
  obtains tp tc r1 w1 r' w' where "take_fd os (UnboundUnixDatagram name) (r, w) = (Ret tp, (r1, w1))"
    and "pair_for_child os (UnboundUnixDatagram name) (r1, w1) = (Ret tc, (r', w'))"
    and "reg_inv (fdt w') r'" and "taken_end name (fdt w) r tp (fdt w1) r1" and "used_list r1 = used_list r"
    and "pair_result name (fdt w1) r1 tc (fdt w') r'"
proof -
  obtain tp r1 w1 where t: "take_fd os (UnboundUnixDatagram name) (r, w) = (Ret tp, (r1, w1))"
    "reg_inv (fdt w1) r1" "taken_end name (fdt w) r tp (fdt w1) r1" "used_list r1 = used_list r"
    using take_datagram [OF assms] .
  then have "\<not> m_poisoned (used_fds r1)" by (simp add: reg_inv_def)
  then obtain tc r' w' where "pair_for_child os (UnboundUnixDatagram name) (r1, w1) = (Ret tc, (r', w'))"
    "pair_result name (fdt w1) r1 tc (fdt w') r'" by (rule pair_for_child_result)
  then show thesis using that t pair_result_inv by blast
qed

end

text \<open>
  \<open>unix_datagram_pair\<close> builds the chain between successive upgrades, and never panics. The first
  result is the end inherited under the name, if there is one, now close-on-exec and no longer the
  registry's. If the new pair is made, the caller has one end and the registry one descriptor of the
  other end, under the same name, so that the next child inherits it; the original descriptor of that
  end is closed. If it is not, no descriptor of it stays. The registry keeps its invariant.
\<close>

theorem datagram_pair_chain:
  assumes "posix os fdt" and "reg_inv (fdt w) (ec_registry e)"
    and "unix_datagram_pair os name (e, w) = (x, (e', w'))"
  shows "\<exists>tp tc t1 r1. x = Ret (tp, tc) \<and> reg_inv (fdt w') (ec_registry e')
    \<and> taken_end name (fdt w) (ec_registry e) tp t1 r1 \<and> used_list r1 = used_list (ec_registry e)
    \<and> pair_result name t1 r1 tc (fdt w') (ec_registry e')"
proof (rule posix.datagram_pair_ends [OF assms(1,2)])
  fix tp tc r1 w1 r' w2
  assume "take_fd os (UnboundUnixDatagram name) (ec_registry e, w) = (Ret tp, (r1, w1))"
    and "pair_for_child os (UnboundUnixDatagram name) (r1, w1) = (Ret tc, (r', w2))"
  then have "unix_datagram_pair os name (e, w) = (Ret (tp, tc), (e\<lparr>ec_registry := r'\<rparr>, w2))"
    by (simp add: unix_datagram_pair_def onReg_def)
  moreover assume "reg_inv (fdt w2) r'" and "taken_end name (fdt w) (ec_registry e) tp (fdt w1) r1"
    and "used_list r1 = used_list (ec_registry e)" and "pair_result name (fdt w1) r1 tc (fdt w2) r'"
  ultimately show ?thesis using assms(3) by auto
qed

subsection \<open>Concrete runs\<close>

text \<open>A child that inherited a TCP socket at descriptor 5, with its report pipe at 7 and a pid file.\<close>

definition ec_ex :: ecdysis where
  "ec_ex = \<lparr>ec_registry = from_inherited [\<lparr>li_fd = 5, li_sock = Tcp (SockV4 0 80)\<rparr>],
     ready_notifier = Some 7, pid_file = Some ''/run/srv.pid'', ec_child = True\<rparr>"

definition ec_ex_world :: kworld where
  "ec_ex_world = kw0\<lparr>k_fds := (5, \<lparr>cloexec = False, ofd = 9\<rparr>) # (7, \<lparr>cloexec = False, ofd = 10\<rparr>) # k_fds kw0,
     k_names := [(9, KInet (SockV4 0 80))]\<rparr>"

lemma ec_ex_inv: "reg_inv (k_fdt ec_ex_world) (ec_registry ec_ex)"
  by (auto simp: reg_inv_def ec_ex_def from_inherited_def mutex_new_def owned_fds_def ec_ex_world_def k_fdt_def)

lemma ec_ex_runs:
  "is_ok (fst (listen_unix kern ''/run/s'' (ec_ex, ec_ex_world)))"
  "is_ok (fst (listen_tcp kern (SockV4 0 80) (ec_ex, ec_ex_world)))"
  "is_ok (fst (build_listen_tcp kern (SockV4 0 8080) (tcp_bind_listen kern) (ec_ex, ec_ex_world)))"
  "is_ok (fst (ready kern (ec_ex, ec_ex_world)))"
  by code_simp+

theorem listen_shares_one_socket_witness:
  "\<exists>fd e' w'. listen_unix kern ''/run/s'' (ec_ex, ec_ex_world) = (Ret (Inr fd), (e', w'))
    \<and> listen_outcome (k_fdt ec_ex_world) (ec_registry ec_ex) (Ret (Inr fd)) (k_fdt w') (ec_registry e')"
proof -
  obtain fd e' w' where run: "listen_unix kern ''/run/s'' (ec_ex, ec_ex_world) = (Ret (Inr fd), (e', w'))"
    using is_okD [OF ec_ex_runs(1)] by auto
  then show ?thesis
    using listen_shares_one_socket [OF kern.posix_axioms ec_ex_inv, of "listen_unix kern ''/run/s''"] by blast
qed

theorem build_creates_one_socket_witness:
  "\<exists>fd e' w'. build_listen_tcp kern (SockV4 0 8080) (tcp_bind_listen kern) (ec_ex, ec_ex_world) = (Ret (Inr fd), (e', w'))
    \<and> k_fdt ec_ex_world fd = None \<and> k_fdt w' fd \<noteq> None"
proof -
  obtain fd e' w' where
    run: "build_listen_tcp kern (SockV4 0 8080) (tcp_bind_listen kern) (ec_ex, ec_ex_world) = (Ret (Inr fd), (e', w'))"
    using is_okD [OF ec_ex_runs(3)] by auto
  have "\<forall>li\<in>set (inherited_list (ec_registry ec_ex)). \<not> sock_info_eq (li_sock li)
      (if STREAM = STREAM then Tcp (SockV4 0 8080) else Udp (SockV4 0 8080))"
    by (simp add: ec_ex_def from_inherited_def mutex_new_def)
  from build_creates_one_socket [OF kern_tcp.socket_source_axioms ec_ex_inv this, of "Ret (Inr fd)" e' w'] run
  show ?thesis by (auto split: if_splits)
qed

lemma ec_ex_adopt:
  "\<exists>w1 n w2. set_cloexec kern 5 ec_ex_world = (Ret (), w1) \<and> clone_fd kern 5 w1 = (Ret (Inr n), w2)"
  by (simp add: reg_eval kern_eval ec_ex_world_def)

theorem listen_adopts_inherited_witness:
  "\<exists>e' w'. listen_tcp kern (SockV4 0 80) (ec_ex, ec_ex_world) = (Ret (Inr 5), (e', w'))
    \<and> socket_of (k_fdt w') 5 = socket_of (k_fdt ec_ex_world) 5 \<and> ofds (k_fdt w') = ofds (k_fdt ec_ex_world)"
proof -
  obtain w1 n w2 where adopt: "set_cloexec kern 5 ec_ex_world = (Ret (), w1)" "clone_fd kern 5 w1 = (Ret (Inr n), w2)"
    using ec_ex_adopt by blast
  have pos: "position (\<lambda>li. sock_info_eq (li_sock li) (Tcp (SockV4 0 80))) (inherited_list (ec_registry ec_ex)) = Some 0"
    and fd: "5 = li_fd (inherited_list (ec_registry ec_ex) ! 0)"
    by (simp_all add: ec_ex_def from_inherited_def mutex_new_def)
  from listen_adopts_inherited [OF kern.posix_axioms ec_ex_inv _ pos fd adopt, of "listen_tcp kern (SockV4 0 80)"]
  show ?thesis by blast
qed

theorem ready_order_witness:
  "\<exists>e' w' w2 w3. ready kern (ec_ex, ec_ex_world) = (Ret (Inr ()), (e', w')) \<and> ready_notifier e' = None
    \<and> k_fs w2 ''/run/srv.pid'' \<noteq> None \<and> pipe_write_all kern 7 ''OK'' w2 = (Inr (), w3)"
proof -
  obtain e' w' where run: "ready kern (ec_ex, ec_ex_world) = (Ret (Inr ()), (e', w'))"
    using is_okD [OF ec_ex_runs(4)] by auto
  have "\<not> m_poisoned (inherited_fds (ec_registry ec_ex))" "ready_notifier ec_ex = Some 7" "pid_file ec_ex = Some ''/run/srv.pid''"
    by (simp_all add: ec_ex_def from_inherited_def mutex_new_def)
  from ready_order [OF kern.posix_axioms kern_files.posix_files_axioms this run] run show ?thesis
    by (metis (no_types, lifting) fun_upd_same option.distinct(1) outcome.distinct(1) outcome.inject(1))
qed

lemma ec_ex_pid: "is_ok (fst (write_pid_file kern ''/run/srv.pid'' ec_ex_world))"
  by code_simp

lemma ec_ex_getpid: "sys_getpid kern ec_ex_world = 42"
  by (simp add: kern_def ec_ex_world_def kw0_def)

lemma ec_ex_upgrade_begin:
  "upgrade kern Map.empty [''srv''] False True [] fds (True, ec_ex_world)
    = Some (Ret (Inl (NotStarted ''Already in upgrade'')), (True, ec_ex_world))"
  by (simp add: upgrade_def upgrade_begin_def)

lemma ec_ex_upgrade:
  "\<exists>w'. ecdysis_upgrade kern Map.empty [''srv''] False True [] ec_ex (True, ec_ex_world)
      = Some (Ret (Inl (NotStarted ''Already in upgrade'')), (True, w'))"
proof -
  obtain u w' where "write_pid_file kern ''/run/srv.pid'' ec_ex_world = (Ret (Inr u), w')"
    using is_okD [OF ec_ex_pid] by blast
  moreover have "pid_file ec_ex = Some ''/run/srv.pid''" "\<not> m_poisoned (used_fds (ec_registry ec_ex))"
    by (simp_all add: ec_ex_def from_inherited_def mutex_new_def)
  ultimately show ?thesis
    by (simp add: ecdysis_upgrade_def get_fds_for_child_def ec_ex_upgrade_begin write_pidfile_def)
qed

theorem failed_upgrade_restores_pid_file_witness:
  "\<exists>w'. ecdysis_upgrade kern Map.empty [''srv''] False True [] ec_ex (True, ec_ex_world)
      = Some (Ret (Inl (NotStarted ''Already in upgrade'')), (True, w'))
    \<and> k_fs w' ''/run/srv.pid'' = Some (show_int 42)"
proof -
  obtain w' where run: "ecdysis_upgrade kern Map.empty [''srv''] False True [] ec_ex (True, ec_ex_world)
      = Some (Ret (Inl (NotStarted ''Already in upgrade'')), (True, w'))" using ec_ex_upgrade by blast
  have "pid_file ec_ex = Some ''/run/srv.pid''" by (simp add: ec_ex_def)
  from failed_upgrade_restores_pid_file [OF kern_files.posix_files_axioms this run] run show ?thesis
    by (auto simp: ec_ex_upgrade_begin ec_ex_getpid)
qed

theorem quit_leaves_callers_listener_witness:
  "\<exists>fd e1 w1 e2 w2. listen_tcp kern (SockV4 0 80) (ec_ex, ec_ex_world) = (Ret (Inr fd), (e1, w1))
    \<and> quit kern (e1, w1) = (Ret (), (e2, w2)) \<and> k_fdt w2 fd \<noteq> None"
proof -
  obtain fd e1 w1 where l: "listen_tcp kern (SockV4 0 80) (ec_ex, ec_ex_world) = (Ret (Inr fd), (e1, w1))"
    using is_okD [OF ec_ex_runs(2)] by auto
  obtain x e2 w2 where "quit kern (e1, w1) = (x, (e2, w2))" by (cases "quit kern (e1, w1)") auto
  with quit_leaves_callers_listener [OF kern.posix_axioms ec_ex_inv l this] l show ?thesis by blast
qed

theorem datagram_pair_chain_witness:
  "\<exists>tp tc e' w'. unix_datagram_pair kern ''chan'' (ec_ex, ec_ex_world) = (Ret (tp, tc), (e', w'))
    \<and> reg_inv (k_fdt w') (ec_registry e')"
proof -
  obtain x e' w' where run: "unix_datagram_pair kern ''chan'' (ec_ex, ec_ex_world) = (x, (e', w'))"
    by (cases "unix_datagram_pair kern ''chan'' (ec_ex, ec_ex_world)") auto
  from datagram_pair_chain [OF kern.posix_axioms ec_ex_inv this] run show ?thesis by auto
qed

end
