(* ===== verification/Trigger.thy ===== *)
theory Trigger
  imports Supervisor Ecdysis
begin

text \<open>
  \<open>src/tokio_ecdysis/trigger.rs\<close>: what can start an upgrade or a stop, a signal stream or a
  supervised listener on a Unix socket, as a stream of reasons. The stream under a socket trigger is a
  \<open>stoppable_stream\<close> over a listening descriptor; \<open>uds_next\<close> of \<open>os\<close> is
  the poll of its accept.
\<close>

subsection \<open>Data\<close>

datatype trigger =
    SignalT signal_kind handle
  | Uds path "fd stoppable_stream"

datatype trigger_reason =
    SignalR signal_kind
  | UnixStreamR path fd

subsection \<open>Operations\<close>

definition uds_inner :: "'w os \<Rightarrow> (fd \<times> 'w, (io_error + fd) option poll) prog" where
  "uds_inner os = (\<lambda>(fd, w). case uds_next os fd w of (p, w') \<Rightarrow> (Ret p, (fd, w')))"

text \<open>What an answer of the listener means to the trigger.\<close>

fun uds_reason :: "'w os \<Rightarrow> path \<Rightarrow> (io_error + fd) option \<Rightarrow> io_error + trigger_reason" where
  "uds_reason os path None = Inl (io_error_other ''Socket shut down unexpectedly.'')"
| "uds_reason os path (Some (Inl e)) =
    Inl (io_error_other (''Unexpected error accepting connection on socket: '' @ fmt_io_display os e))"
| "uds_reason os path (Some (Inr stream)) = Inr (UnixStreamR path stream)"

definition unreachable_panic :: string where
  "unreachable_panic = ''internal error: entered unreachable code''"

definition trigger_poll_next ::
    "'t rt \<Rightarrow> 'w os \<Rightarrow> trigger \<times> 't \<times> 'w
      \<Rightarrow> ((io_error + trigger_reason) option poll outcome \<times> trigger \<times> 't \<times> 'w) option" where
  "trigger_poll_next rt os = (\<lambda>(tr, t, w). case tr of
      SignalT kind signal_stream \<Rightarrow> (case signal_next rt signal_stream t of
          (Pending, t') \<Rightarrow> Some (Ret Pending, tr, t', w)
        | (Ready None, t') \<Rightarrow> Some (Panic unreachable_panic, tr, t', w)
        | (Ready (Some u), t') \<Rightarrow> Some (Ret (Ready (Some (Inr (SignalR kind)))), tr, t', w))
    | Uds path listener_stream \<Rightarrow>
        (case stoppable_poll_next rt (uds_inner os) (listener_stream, t, w) of
          None \<Rightarrow> None
        | Some (x, (ss', t', w')) \<Rightarrow> Some (case x of
              Ret Pending \<Rightarrow> Ret Pending
            | Ret (Ready r) \<Rightarrow> Ret (Ready (Some (uds_reason os path r)))
            | Panic m \<Rightarrow> Panic m
            | Exit n \<Rightarrow> Exit n, Uds path ss', t', w')))"

text \<open>Dropping a supervised listener drops the receiver and closes the socket.\<close>

definition drop_stream :: "'t rt \<Rightarrow> 'w os \<Rightarrow> fd stoppable_stream \<Rightarrow> 't \<times> 'w \<Rightarrow> 't \<times> 'w" where
  "drop_stream rt os ss = (\<lambda>(t, w). (watch_drop rt (ss_rx ss) t, snd (sys_close os (ss_stream ss) w)))"

fun cleanup :: "'t rt \<Rightarrow> 'w os \<Rightarrow> trigger \<Rightarrow> ('t \<times> 'w, string + unit) prog" where
  "cleanup rt os (SignalT kind stream) = returnP (Inr ())"
| "cleanup rt os (Uds path listener_stream) = scoped (drop_stream rt os listener_stream)
    (mapErrP (fmt_io_display os) (onSnd (liftP (remove_file os path))))"

fun drop_trigger :: "'t rt \<Rightarrow> 'w os \<Rightarrow> trigger \<Rightarrow> 't \<times> 'w \<Rightarrow> 't \<times> 'w" where
  "drop_trigger rt os (SignalT kind stream) = id"
| "drop_trigger rt os (Uds path listener_stream) = drop_stream rt os listener_stream"

subsection \<open>Triggers are infinite streams\<close>

text \<open>A trigger in step with the channel \<open>c\<close> of value \<open>st\<close>.\<close>

fun trigger_synced :: "watch_view \<Rightarrow> nat \<Rightarrow> run_state \<Rightarrow> trigger \<Rightarrow> bool" where
  "trigger_synced v c st (SignalT kind h) = True"
| "trigger_synced v c st (Uds path ss) = (synced v c st ss \<and> ss_policy ss = Yes)"

text \<open>The answer of a poll, by the run state and the answer of what is below.\<close>

fun trigger_answer ::
    "'t rt \<Rightarrow> 'w os \<Rightarrow> run_state \<Rightarrow> trigger \<Rightarrow> 't \<Rightarrow> 'w \<Rightarrow> (io_error + trigger_reason) poll" where
  "trigger_answer rt os st (SignalT kind h) t w = poll_map (\<lambda>u. Inr (SignalR kind)) (fst (signal_next rt h t))"
| "trigger_answer rt os st (Uds path ss) t w =
    (if should_continue (ss_policy ss) st then poll_map (uds_reason os path) (fst (uds_next os (ss_stream ss) w))
     else Ready (uds_reason os path None))"

fun trigger_rx :: "trigger \<Rightarrow> handle option" where
  "trigger_rx (SignalT kind h) = None"
| "trigger_rx (Uds path ss) = Some (ss_rx ss)"

fun see_trigger :: "trigger \<Rightarrow> nat \<Rightarrow> watch_view \<Rightarrow> watch_view" where
  "see_trigger (SignalT kind h) c v = v"
| "see_trigger (Uds path ss) c v = see (ss_rx ss) c v"

lemma synced_stream_update [simp]: "synced v c st (ss\<lparr>ss_stream := s\<rparr>) = synced v c st ss"
  by (simp add: synced_def split: option.splits)

context watch_runtime
begin

lemma signal_trigger_poll:
  "\<exists>t'. trigger_poll_next rt os (SignalT kind h, t, w) = Some (
      Ret (poll_map Some (trigger_answer rt os st (SignalT kind h) t w)), SignalT kind h, t', w) \<and> view t' = view t"
proof -
  obtain p t' where p: "signal_next rt h t = (p, t')" by fastforce
  have "view t' = view t" "p \<noteq> Ready None" using signal_next_view [of h t] signal_infinite [of h t] p by simp_all
  then show ?thesis using p by (auto simp: trigger_poll_next_def split: poll.splits option.splits)
qed

lemma uds_trigger_poll:
  assumes "chan_value (view t) c = Some st" and "synced (view t) c st ss"
  shows "\<exists>ss' t' w'. trigger_poll_next rt os (Uds path ss, t, w) = Some (
      Ret (poll_map Some (trigger_answer rt os st (Uds path ss) t w)), Uds path ss', t', w')
    \<and> ss' = ss\<lparr>ss_state := st\<rparr> \<and> view t' = see (ss_rx ss) c (view t)"
proof -
  obtain t' where t': "stoppable_poll_next rt (uds_inner os) (ss, t, w) = Some (
      if should_continue (ss_policy ss) st
      then (case uds_inner os (ss_stream ss, w) of (x, (s', w')) \<Rightarrow> (x, (ss\<lparr>ss_state := st, ss_stream := s'\<rparr>, t', w')))
      else (Ret (Ready None), (ss\<lparr>ss_state := st\<rparr>, t', w)))"
    and v: "view t' = see (ss_rx ss) c (view t)"
    by (rule stoppable_poll [OF assms, of "uds_inner os" w])
  obtain p w' where p: "uds_next os (ss_stream ss) w = (p, w')" by fastforce
  show ?thesis
  proof (cases "should_continue (ss_policy ss) st")
    case True
    then show ?thesis using t' p v by (cases p) (simp_all add: trigger_poll_next_def uds_inner_def)
  next
    case False
    then show ?thesis using t' v by (simp add: trigger_poll_next_def)
  qed
qed

end

text \<open>
  A trigger is an infinite stream, as the monitor relies on: while its receiver is in step, a poll
  returns, neither panics nor ends the stream, and answers with a reason, with an error of its socket, or that it is
  pending. Once the supervisor has stopped the streams, a socket trigger answers with an error.
\<close>

theorem trigger_never_ends:
  assumes "watch_runtime rt view" and "chan_value (view t) c = Some st" and "trigger_synced (view t) c st tr"
  shows "\<exists>tr' t' w'. trigger_poll_next rt os (tr, t, w) = Some (Ret (poll_map Some (trigger_answer rt os st tr t w)), tr', t', w')
    \<and> trigger_synced (view t') c st tr' \<and> chan_value (view t') c = Some st"
proof (cases tr)
  case (SignalT kind h)
  then show ?thesis using watch_runtime.signal_trigger_poll [OF assms(1), of os kind h t w st] assms(2) by auto
next
  case (Uds path ss)
  then have ss: "synced (view t) c st ss" "ss_policy ss = Yes" using assms(3) by simp_all
  obtain t' w' where "trigger_poll_next rt os (Uds path ss, t, w) = Some (
      Ret (poll_map Some (trigger_answer rt os st (Uds path ss) t w)), Uds path (ss\<lparr>ss_state := st\<rparr>), t', w')"
    "view t' = see (ss_rx ss) c (view t)"
    using watch_runtime.uds_trigger_poll [OF assms(1,2) ss(1), of os path w] by auto
  then show ?thesis using Uds ss assms(2) by (auto simp: synced_def see_def simp del: trigger_answer.simps)
qed

subsection \<open>Concrete runs\<close>

text \<open>A socket trigger after a stop.\<close>

theorem trigger_never_ends_witness:
  "\<exists>tr' t' w'. trigger_poll_next trt kern
      (Uds ''/run/up'' \<lparr>ss_stream = 5, ss_policy = Yes, ss_rx = 1, ss_state = None\<rparr>, sup_ex_rt (Some Stop) True, kw0)
    = Some (Ret (Ready (Some (Inl (io_error_other ''Socket shut down unexpectedly.'')))), tr', t', w')"
proof -
  have "trigger_synced (trt_view (sup_ex_rt (Some Stop) True)) 1 (Some Stop)
      (Uds ''/run/up'' \<lparr>ss_stream = 5, ss_policy = Yes, ss_rx = 1, ss_state = None\<rparr>)"
    by (simp add: synced_def sup_ex_rt_def trt_view_def)
  from trigger_never_ends [OF trt.watch_runtime_axioms sup_ex_view(2) this, of kern kw0] show ?thesis by auto
qed

end
