(* ===== verification/Systemd_Notify.thy ===== *)
theory Systemd_Notify
  imports Inheriter
begin

text \<open>
  \<open>src/tokio_ecdysis/systemd_notify.rs\<close>: the client for \<open>sd_notify\<close>. A notifier is its connected
  datagram socket. A message is its lines \<open>KEY=value\<close>; durations are counted in microseconds, which must
  fit 64 bits. The kernel clock and the datagram calls are fields of \<open>os\<close>.
\<close>

subsection \<open>Data\<close>

record systemd_notifier =
  notify_socket :: fd

datatype systemd_notifier_error =
    NotifySocketUnset
  | SocketCreateError io_error
  | SocketConnectError io_error

definition fmt_notifier_error :: "'w os \<Rightarrow> systemd_notifier_error \<Rightarrow> string" where
  "fmt_notifier_error os e = (case e of
      NotifySocketUnset \<Rightarrow> ''The NOTIFY_SOCKET environment variable is not set!''
    | SocketCreateError err \<Rightarrow>
        ''Error creating unbound unix datagram socket to receive systemd notifications: '' @ fmt_io_display os err
    | SocketConnectError err \<Rightarrow> ''Error connecting to NOTIFY_SOCKET: '' @ fmt_io_display os err)"

text \<open>\<open>std::time::Duration\<close>: seconds and nanoseconds; \<open>as_micros\<close> counts in 128 bits.\<close>

record duration =
  d_secs :: "64 word"
  d_nanos :: "32 word"

definition as_micros :: "duration \<Rightarrow> nat" where
  "as_micros d = unat (d_secs d) * 1000000 + unat (d_nanos d) div 1000"

definition u64_try_from :: "nat \<Rightarrow> nat option" where
  "u64_try_from n = (if n < 2 ^ 64 then Some n else None)"

subsection \<open>Operations\<close>

definition systemd_notifier_new :: "'w os \<Rightarrow> environment \<Rightarrow> ('w, systemd_notifier_error + systemd_notifier) prog" where
  "systemd_notifier_new os env = (case env_var env ''NOTIFY_SOCKET'' of
      Inl e \<Rightarrow> returnP (Inl NotifySocketUnset)
    | Inr notify_sock_path \<Rightarrow>
        tryP (mapErrP SocketCreateError (liftP (dgram_unbound os))) (\<lambda>socket.
          owning (\<lambda>w. snd (sys_close os socket w))
            (tryP (mapErrP SocketConnectError (liftP (dgram_connect os socket notify_sock_path)))
              (\<lambda>u. returnP (Inr \<lparr>notify_socket = socket\<rparr>)))))"

definition notify_message :: "(string \<times> string) list \<Rightarrow> string" where
  "notify_message states = join_with [CHR 0x0A] (map (\<lambda>(k, v). k @ ''='' @ v) states)"

text \<open>Sending bytes over the connected socket.\<close>

definition notify_bytes :: "'w os \<Rightarrow> systemd_notifier \<Rightarrow> string \<Rightarrow> ('w, io_error + unit) prog" where
  "notify_bytes os n buf =
    mapErrP (\<lambda>e. Custom (io_error_kind e) (''Failed to send notification to systemd: '' @ fmt_io_display os e))
      (liftP (dgram_send os (notify_socket n) buf))"

definition notify :: "'w os \<Rightarrow> systemd_notifier \<Rightarrow> (string \<times> string) list \<Rightarrow> ('w, io_error + unit) prog" where
  "notify os n states = notify_bytes os n (notify_message states)"

definition notify_ready :: "'w os \<Rightarrow> systemd_notifier \<Rightarrow> ('w, io_error + unit) prog" where
  "notify_ready os n = (\<lambda>w. notify os n [(''READY'', ''1''), (''MAINPID'', show_int (sys_getpid os w))] w)"

text \<open>The clock's seconds and nanoseconds are not negative: the conversion to \<open>Duration\<close> is exact.\<close>

definition notify_reloading :: "'w os \<Rightarrow> systemd_notifier \<Rightarrow> ('w, io_error + unit) prog" where
  "notify_reloading os n = (\<lambda>w. case clock_monotonic os w of
      Inl errno \<Rightarrow> (Ret (Inl (OsError errno)), w)
    | Inr (secs, nanos) \<Rightarrow> (case u64_try_from (secs * 1000000 + nanos div 1000) of
          None \<Rightarrow> (Ret (Inl (Custom KindOther ''CLOCK_MONOTONIC value is greater than the size of a u64'')), w)
        | Some monotime_mus \<Rightarrow>
            notify os n [(''RELOADING'', ''1''), (''MONOTONIC_USEC'', show_nat monotime_mus)] w))"

definition notify_stopping :: "'w os \<Rightarrow> systemd_notifier \<Rightarrow> ('w, io_error + unit) prog" where
  "notify_stopping os n = notify os n [(''STOPPING'', ''1'')]"

definition notify_extend_timeouts :: "'w os \<Rightarrow> systemd_notifier \<Rightarrow> duration \<Rightarrow> ('w, io_error + unit) prog" where
  "notify_extend_timeouts os n extension = (case u64_try_from (as_micros extension) of
      None \<Rightarrow> returnP (Inl (Custom KindOther ''extension value is greater than the size of a u64''))
    | Some extension_mus \<Rightarrow> notify os n [(''EXTEND_TIMEOUT_USEC'', show_nat extension_mus)])"

subsection \<open>What systemd reads\<close>

text \<open>The receiver's side of the protocol: one assignment per line, the key up to the first equals sign.\<close>

definition parse_state :: "string \<Rightarrow> string \<times> string" where
  "parse_state line = (takeWhile (\<lambda>c. c \<noteq> CHR ''='') line, drop 1 (dropWhile (\<lambda>c. c \<noteq> CHR ''='') line))"

definition parse_message :: "string \<Rightarrow> (string \<times> string) list" where
  "parse_message b = map parse_state (split_char (CHR 0x0A) b)"

lemma parse_state_assign: "CHR ''='' \<notin> set k \<Longrightarrow> parse_state (k @ CHR ''='' # v) = (k, v)"
  by (induction k) (auto simp: parse_state_def)

lemma parse_notify_message:
  assumes "states \<noteq> []" and "\<forall>(k, v)\<in>set states. CHR ''='' \<notin> set k \<and> CHR 0x0A \<notin> set k \<and> CHR 0x0A \<notin> set v"
  shows "parse_message (notify_message states) = states"
proof -
  have "split_char (CHR 0x0A) (notify_message states) = map (\<lambda>(k, v). k @ ''='' @ v) states"
    unfolding notify_message_def using assms by (intro split_join) auto
  moreover have "map (parse_state \<circ> (\<lambda>(k, v). k @ ''='' @ v)) states = states"
    using assms(2) by (intro map_idI) (fastforce simp: parse_state_assign)
  ultimately show ?thesis by (simp add: parse_message_def)
qed

lemma show_nat_digits: "set (show_nat n) \<subseteq> digit_char ` {..<10}"
  by (induction n rule: show_nat.induct) (auto simp: show_nat.simps)

lemma show_nat_no_newline: "CHR 0x0A \<notin> set (show_nat n)"
proof
  assume "CHR 0x0A \<in> set (show_nat n)"
  then obtain d where "d < 10" "CHR 0x0A = digit_char d" using show_nat_digits by blast
  then have "to_digit (CHR 0x0A) = Some d" by simp
  then show False by (simp add: to_digit_def)
qed

lemma show_int_no_newline: "CHR 0x0A \<notin> set (show_int i)"
  by (simp add: show_int_def show_nat_no_newline)

text \<open>A run that hands the socket one message, which reads as \<open>states\<close>.\<close>

definition sends :: "'w os \<Rightarrow> systemd_notifier \<Rightarrow> ('w, io_error + unit) prog \<Rightarrow> 'w \<Rightarrow> (string \<times> string) list \<Rightarrow> bool" where
  "sends os n m w states \<longleftrightarrow> (\<exists>b. m w = notify_bytes os n b w \<and> parse_message b = states)"

lemma notify_sends:
  assumes "states \<noteq> []" and "\<forall>(k, v)\<in>set states. CHR ''='' \<notin> set k \<and> CHR 0x0A \<notin> set k \<and> CHR 0x0A \<notin> set v"
    and "m w = notify os n states w"
  shows "sends os n m w states"
  unfolding sends_def using parse_notify_message [OF assms(1,2)] assms(3) by (auto simp: notify_def)

text \<open>
  C27. What systemd reads is what was meant. The bytes \<open>notify_ready\<close> sends parse to \<open>READY=1\<close> and the
  pid of the sender, those of \<open>notify_stopping\<close> to \<open>STOPPING=1\<close>; \<open>notify_reloading\<close> and
  \<open>notify_extend_timeouts\<close> send a count of microseconds, in decimal, exactly when it is below \<open>2 ^ 64\<close>,
  and otherwise return an error and send nothing.
\<close>

theorem notifications_parse:
  "sends os n (notify_ready os n) w [(''READY'', ''1''), (''MAINPID'', show_int (sys_getpid os w))]
    \<and> sends os n (notify_stopping os n) w [(''STOPPING'', ''1'')]
    \<and> (case clock_monotonic os w of
        Inl errno \<Rightarrow> notify_reloading os n w = (Ret (Inl (OsError errno)), w)
      | Inr (secs, nanos) \<Rightarrow>
          if secs * 1000000 + nanos div 1000 < 2 ^ 64
          then sends os n (notify_reloading os n) w
            [(''RELOADING'', ''1''), (''MONOTONIC_USEC'', show_nat (secs * 1000000 + nanos div 1000))]
          else \<exists>e. notify_reloading os n w = (Ret (Inl e), w))
    \<and> (if as_micros d < 2 ^ 64
       then sends os n (notify_extend_timeouts os n d) w [(''EXTEND_TIMEOUT_USEC'', show_nat (as_micros d))]
       else \<exists>e. notify_extend_timeouts os n d w = (Ret (Inl e), w))"
proof (intro conjI)
  show "sends os n (notify_ready os n) w [(''READY'', ''1''), (''MAINPID'', show_int (sys_getpid os w))]"
    by (rule notify_sends) (simp_all add: show_int_no_newline notify_ready_def)
  show "sends os n (notify_stopping os n) w [(''STOPPING'', ''1'')]"
    by (rule notify_sends) (simp_all add: notify_stopping_def)
  show "case clock_monotonic os w of
        Inl errno \<Rightarrow> notify_reloading os n w = (Ret (Inl (OsError errno)), w)
      | Inr (secs, nanos) \<Rightarrow>
          if secs * 1000000 + nanos div 1000 < 2 ^ 64
          then sends os n (notify_reloading os n) w
            [(''RELOADING'', ''1''), (''MONOTONIC_USEC'', show_nat (secs * 1000000 + nanos div 1000))]
          else \<exists>e. notify_reloading os n w = (Ret (Inl e), w)"
  proof (cases "clock_monotonic os w")
    case (Inr c)
    obtain secs nanos where "c = (secs, nanos)" by fastforce
    with Inr show ?thesis
      by (auto simp: notify_reloading_def u64_try_from_def show_nat_no_newline intro!: notify_sends)
  qed (simp add: notify_reloading_def)
  show "if as_micros d < 2 ^ 64
       then sends os n (notify_extend_timeouts os n d) w [(''EXTEND_TIMEOUT_USEC'', show_nat (as_micros d))]
       else \<exists>e. notify_extend_timeouts os n d w = (Ret (Inl e), w)"
    by (auto simp: notify_extend_timeouts_def u64_try_from_def show_nat_no_newline intro!: notify_sends)
qed

end
