(* ===== verification/Tokio_Ecdysis.thy ===== *)
theory Tokio_Ecdysis
  imports Trigger Systemd_Notify
begin

text \<open>
  \<open>TokioEcdysis\<close> of \<open>src/tokio_ecdysis/mod.rs\<close>: an \<open>Ecdysis\<close> with a
  supervisor and the sockets systemd passed. Its methods work on the object, the runtime and the world;
  \<open>onInner\<close>, \<open>onRt\<close> and \<open>onWorld\<close> run an operation of one of the three.
  The read lock of the supervisor does not fail. A method of the same name as one of \<open>Ecdysis\<close>
  has the prefix \<open>t_\<close>.
\<close>

subsection \<open>The object\<close>

record tokio_ecdysis =
  te_supervisor :: supervisor
  te_inner :: ecdysis
  te_systemd :: "systemd_sockets option"

type_synonym ('t, 'w) testate = "tokio_ecdysis \<times> 't \<times> 'w"

definition onInner :: "('w estate, 'a) prog \<Rightarrow> (('t, 'w) testate, 'a) prog" where
  "onInner m = (\<lambda>(te, t, w). case m (te_inner te, w) of (x, (e, w')) \<Rightarrow> (x, (te\<lparr>te_inner := e\<rparr>, t, w')))"

definition onRt :: "('t, 'a) prog \<Rightarrow> (('t, 'w) testate, 'a) prog" where
  "onRt m = (\<lambda>(te, t, w). case m t of (x, t') \<Rightarrow> (x, (te, t', w)))"

definition onWorld :: "('w, 'a) prog \<Rightarrow> (('t, 'w) testate, 'a) prog" where
  "onWorld m = (\<lambda>(te, t, w). case m w of (x, w') \<Rightarrow> (x, (te, t, w')))"

lemma onInner_run [simp, prog_simps]:
  "m (te_inner te, w) = (x, (e, w')) \<Longrightarrow> onInner m (te, t, w) = (x, (te\<lparr>te_inner := e\<rparr>, t, w'))"
  by (simp add: onInner_def)

lemma onRt_run [simp, prog_simps]: "m t = (x, t') \<Longrightarrow> onRt m (te, t, w) = (x, (te, t', w))"
  by (simp add: onRt_def)

lemma onWorld_run [simp, prog_simps]: "m w = (x, w') \<Longrightarrow> onWorld m (te, t, w) = (x, (te, t, w'))"
  by (simp add: onWorld_def)

definition tokio_ecdysis_new :: "'t rt \<Rightarrow> 'w os \<Rightarrow> codec \<Rightarrow> environment \<Rightarrow> ('t \<times> 'w, tokio_ecdysis) prog" where
  "tokio_ecdysis_new rt os codec env = (\<lambda>(t, w). case supervisor_new rt t of
      (Ret s, t') \<Rightarrow> (case ecdysis_new os codec env w of
          (Ret e, w') \<Rightarrow> (Ret \<lparr>te_supervisor = s, te_inner = e, te_systemd = None\<rparr>, (t', w'))
        | (Panic m, w') \<Rightarrow> (Panic m, (t', w'))
        | (Exit n, w') \<Rightarrow> (Exit n, (t', w')))
    | (Panic m, t') \<Rightarrow> (Panic m, (t', w))
    | (Exit n, t') \<Rightarrow> (Exit n, (t', w)))"

definition t_is_child :: "tokio_ecdysis \<Rightarrow> bool" where
  "t_is_child te = is_child (te_inner te)"

definition std_ecdysis :: "tokio_ecdysis \<Rightarrow> ecdysis" where
  "std_ecdysis te = te_inner te"

subsection \<open>Listening\<close>

text \<open>Dropping a socket in the scope of a method.\<close>

definition close_te :: "'w os \<Rightarrow> fd \<Rightarrow> ('t, 'w) testate \<Rightarrow> ('t, 'w) testate" where
  "close_te os fd = (\<lambda>(te, t, w). (te, t, snd (sys_close os fd w)))"

text \<open>\<open>set_nonblocking(true)?\<close> and \<open>from_std\<close>; the socket is dropped when either fails.\<close>

definition into_tokio :: "'w os \<Rightarrow> fd \<Rightarrow> (('t, 'w) testate, io_error + fd) prog" where
  "into_tokio os fd = owning (close_te os fd)
    (tryP (onWorld (liftP (std_set_nonblocking os fd True))) (\<lambda>u.
     tryP (onWorld (liftP (tokio_from_std os fd))) (\<lambda>v. returnP (Inr fd))))"

text \<open>\<open>self.supervisor.read().supervise_stream(..)\<close>\<close>

definition supervised :: "'t rt \<Rightarrow> stop_on_shutdown \<Rightarrow> fd \<Rightarrow> (('t, 'w) testate, 'e + fd stoppable_stream) prog" where
  "supervised rt p fd = (\<lambda>(te, t, w).
    bindP (onRt (supervise_stream rt (te_supervisor te) fd p)) (\<lambda>ss. returnP (Inr ss)) (te, t, w))"

definition t_listen_unix ::
    "'t rt \<Rightarrow> 'w os \<Rightarrow> stop_on_shutdown \<Rightarrow> path \<Rightarrow> (('t, 'w) testate, io_error + fd stoppable_stream) prog" where
  "t_listen_unix rt os p path =
    tryP (onInner (listen_unix os path)) (\<lambda>listener. tryP (into_tokio os listener) (supervised rt p))"

definition t_listen_unix_seqpacket ::
    "'t rt \<Rightarrow> 'w os \<Rightarrow> stop_on_shutdown \<Rightarrow> path \<Rightarrow> (('t, 'w) testate, io_error + fd stoppable_stream) prog" where
  "t_listen_unix_seqpacket rt os p path = tryP (onInner (listen_unix_seqpacket os path)) (supervised rt p)"

definition t_build_listen_tcp ::
    "'t rt \<Rightarrow> 'w os \<Rightarrow> stop_on_shutdown \<Rightarrow> socket_addr \<Rightarrow> (fd \<Rightarrow> socket_addr \<Rightarrow> ('w, io_error + fd) prog)
      \<Rightarrow> (('t, 'w) testate, io_error + fd stoppable_stream) prog" where
  "t_build_listen_tcp rt os p addr sock_build =
    tryP (onInner (build_listen_tcp os addr sock_build)) (\<lambda>listener. tryP (into_tokio os listener) (supervised rt p))"

definition t_listen_tcp ::
    "'t rt \<Rightarrow> 'w os \<Rightarrow> stop_on_shutdown \<Rightarrow> socket_addr \<Rightarrow> (('t, 'w) testate, io_error + fd stoppable_stream) prog" where
  "t_listen_tcp rt os p addr = t_build_listen_tcp rt os p addr (tcp_bind_listen os)"

definition t_build_socket_udp ::
    "'w os \<Rightarrow> socket_addr \<Rightarrow> (fd \<Rightarrow> socket_addr \<Rightarrow> ('w, io_error + fd) prog) \<Rightarrow> (('t, 'w) testate, io_error + fd) prog" where
  "t_build_socket_udp os addr sock_build = tryP (onInner (build_socket_udp os addr sock_build)) (into_tokio os)"

definition t_build_stream_udp ::
    "'t rt \<Rightarrow> 'w os \<Rightarrow> stop_on_shutdown \<Rightarrow> socket_addr \<Rightarrow> (fd \<Rightarrow> socket_addr \<Rightarrow> ('w, io_error + fd) prog)
      \<Rightarrow> (('t, 'w) testate, io_error + fd stoppable_stream) prog" where
  "t_build_stream_udp rt os p addr sock_build = tryP (t_build_socket_udp os addr sock_build) (supervised rt p)"

definition t_build_stoppable_socket_udp ::
    "'t rt \<Rightarrow> 'w os \<Rightarrow> stop_on_shutdown \<Rightarrow> socket_addr \<Rightarrow> (fd \<Rightarrow> socket_addr \<Rightarrow> ('w, io_error + fd) prog)
      \<Rightarrow> (('t, 'w) testate, io_error + fd stoppable) prog" where
  "t_build_stoppable_socket_udp rt os p addr sock_build =
    tryP (t_build_socket_udp os addr sock_build) (\<lambda>socket (te, t, w).
      bindP (onRt (supervise rt (te_supervisor te) socket p)) (\<lambda>st. returnP (Inr st)) (te, t, w))"

text \<open>Both ends that \<open>Ecdysis::unix_datagram_pair\<close> gives are converted, the parent's first.\<close>

definition t_unix_datagram_pair ::
    "'w os \<Rightarrow> string \<Rightarrow> (('t, 'w) testate, (io_error + fd) option \<times> (io_error + fd)) prog" where
  "t_unix_datagram_pair os name =
    bindP (onInner (unix_datagram_pair os name)) (\<lambda>(to_parent, to_child).
    bindP (case to_parent of None \<Rightarrow> returnP None | Some s \<Rightarrow> bindP (into_tokio os s) (\<lambda>r. returnP (Some r))) (\<lambda>parent.
    bindP (case to_child of Inl e \<Rightarrow> returnP (Inl e) | Inr s \<Rightarrow> into_tokio os s) (\<lambda>child.
    returnP (parent, child))))"

subsection \<open>Sockets from systemd\<close>

definition t_read_systemd_sockets ::
    "'w os \<Rightarrow> debug_text \<Rightarrow> environment \<Rightarrow> (('t, 'w) testate, systemd_sockets_read_error + unit) prog" where
  "t_read_systemd_sockets os dbg env = (\<lambda>(te, t, w).
    if t_is_child te then (Ret (Inr ()), (te, t, w))
    else if te_systemd te \<noteq> None then (Ret (Inl DuplicateSystemdSocketsRead), (te, t, w))
    else tryP (onWorld (systemd_sockets_new os dbg env))
      (\<lambda>sockets (te, t, w). (Ret (Inr ()), (te\<lparr>te_systemd := Some sockets\<rparr>, t, w))) (te, t, w))"

definition read_sock_from_registry_of_proto ::
    "'w os \<Rightarrow> debug_text \<Rightarrow> listener_kind \<Rightarrow> sock_info \<Rightarrow> (('t, 'w) testate, systemd_socket_error + fd) prog" where
  "read_sock_from_registry_of_proto os dbg kind sock_info =
    bindP (onInner (onReg (inherit os sock_info))) (\<lambda>found. case found of
        Some fd \<Rightarrow> mapErrP systemd_socket_error_from_io (onWorld (try_from_raw_fd os kind fd))
      | None \<Rightarrow> returnP (Inl (SocketNotFoundInChildRegistry (''socket not found with SockInfo '' @ dbg_sock dbg sock_info))))"

text \<open>The part after the listener is made, which owns it: the first \<open>info\<close> is checked, the second one is
  registered.\<close>

definition check_and_register ::
    "'w os \<Rightarrow> debug_text \<Rightarrow> listener_kind \<Rightarrow> sock_info \<Rightarrow> fd \<Rightarrow> (('t, 'w) testate, systemd_socket_error + fd) prog" where
  "check_and_register os dbg kind sock_info listener = owning (close_te os listener)
    (tryP (mapErrP systemd_socket_error_from_io (onWorld (listener_info_of os kind listener))) (\<lambda>info.
      if \<not> sock_info_eq (li_sock info) sock_info
      then returnP (Inl (SockInfoIncorrect (''systemd sock info '' @ dbg_sock dbg (li_sock info)
        @ '' does not match expected sock info '' @ dbg_sock dbg sock_info)))
      else tryP (mapErrP systemd_socket_error_from_io (onWorld (listener_info_of os kind listener))) (\<lambda>info2.
        tryP (mapErrP systemd_socket_error_from_io (onInner (onReg (add os info2)))) (\<lambda>u.
        returnP (Inr listener)))))"

definition systemd_sock_of_proto ::
    "'w os \<Rightarrow> debug_text \<Rightarrow> listener_kind \<Rightarrow> string \<Rightarrow> sock_info \<Rightarrow> (('t, 'w) testate, systemd_socket_error + fd) prog" where
  "systemd_sock_of_proto os dbg kind name sock_info = (\<lambda>(te, t, w).
    if t_is_child te then read_sock_from_registry_of_proto os dbg kind sock_info (te, t, w)
    else (case te_systemd te of
        None \<Rightarrow> (Ret (Inl SystemdSocketsNotInitialized), (te, t, w))
      | Some s \<Rightarrow> (case find_socket dbg s name of
            Inl e \<Rightarrow> (Ret (Inl e), (te, t, w))
          | Inr fd \<Rightarrow> tryP (mapErrP systemd_socket_error_from_io (onWorld (try_from_raw_fd os kind fd)))
              (check_and_register os dbg kind sock_info) (te, t, w))))"

definition systemd_listen_unix ::
    "'t rt \<Rightarrow> 'w os \<Rightarrow> debug_text \<Rightarrow> stop_on_shutdown \<Rightarrow> string \<Rightarrow> path
      \<Rightarrow> (('t, 'w) testate, systemd_socket_error + fd stoppable_stream) prog" where
  "systemd_listen_unix rt os dbg p name path =
    tryP (systemd_sock_of_proto os dbg UnixListenerK name (Unix (Some path))) (\<lambda>listener.
    tryP (mapErrP systemd_socket_error_from_io (into_tokio os listener)) (supervised rt p))"

definition systemd_listen_unix_seqpacket ::
    "'t rt \<Rightarrow> 'w os \<Rightarrow> debug_text \<Rightarrow> stop_on_shutdown \<Rightarrow> string \<Rightarrow> path
      \<Rightarrow> (('t, 'w) testate, systemd_socket_error + fd stoppable_stream) prog" where
  "systemd_listen_unix_seqpacket rt os dbg p name path =
    tryP (systemd_sock_of_proto os dbg SeqpacketListenerK name (UnixSeqpacket (Some path))) (\<lambda>listener.
    tryP (owning (close_te os listener)
           (mapErrP systemd_socket_error_from_io (onWorld (set_nonblocking os listener True)))) (\<lambda>u.
    supervised rt p listener))"

definition systemd_listen_tcp ::
    "'t rt \<Rightarrow> 'w os \<Rightarrow> debug_text \<Rightarrow> stop_on_shutdown \<Rightarrow> string \<Rightarrow> socket_addr
      \<Rightarrow> (('t, 'w) testate, systemd_socket_error + fd stoppable_stream) prog" where
  "systemd_listen_tcp rt os dbg p name addr =
    tryP (systemd_sock_of_proto os dbg TcpListenerK name (Tcp addr)) (\<lambda>listener.
    tryP (mapErrP systemd_socket_error_from_io (into_tokio os listener)) (supervised rt p))"

definition systemd_socket_udp ::
    "'w os \<Rightarrow> debug_text \<Rightarrow> string \<Rightarrow> socket_addr \<Rightarrow> (('t, 'w) testate, systemd_socket_error + fd) prog" where
  "systemd_socket_udp os dbg name addr =
    tryP (systemd_sock_of_proto os dbg UdpSocketK name (Udp addr)) (\<lambda>socket.
    mapErrP systemd_socket_error_from_io (into_tokio os socket))"

definition systemd_stream_udp ::
    "'t rt \<Rightarrow> 'w os \<Rightarrow> debug_text \<Rightarrow> stop_on_shutdown \<Rightarrow> string \<Rightarrow> socket_addr
      \<Rightarrow> (('t, 'w) testate, systemd_socket_error + fd stoppable_stream) prog" where
  "systemd_stream_udp rt os dbg p name addr = tryP (systemd_socket_udp os dbg name addr) (supervised rt p)"

subsection \<open>Properties: supervised listeners\<close>

abbreviation te_registry :: "tokio_ecdysis \<Rightarrow> registry" where
  "te_registry te \<equiv> ec_registry (te_inner te)"

lemma reg_inv_close_other: "reg_inv t r \<Longrightarrow> fd \<notin> set (owned_fds r) \<Longrightarrow> reg_inv (t(fd := None)) r"
  by (erule reg_inv_frame) auto

context posix_sockets
begin

lemma into_tokio_cases:
  obtains (ok) w' where "into_tokio os fd (te, t, w) = (Ret (Inr fd), (te, t, w'))" and "fdt w' = fdt w"
  | (err) e w' where "into_tokio os fd (te, t, w) = (Ret (Inl e), (te, t, w'))" and "fdt w' = (fdt w)(fd := None)"
proof -
  obtain x w1 where x: "std_set_nonblocking os fd True w = (x, w1)" by fastforce
  obtain y w2 where y: "tokio_from_std os fd w1 = (y, w2)" by fastforce
  have f: "fdt w1 = fdt w" "fdt w2 = fdt w"
    using set_nonblocking_fds [of fd True w] from_std_fds [of fd w1] x y by simp_all
  show thesis
  proof (cases x)
    case (Inl e)
    then show thesis using that(2) [of e "snd (sys_close os fd w1)"] x f close_gone
      by (simp add: into_tokio_def close_te_def)
  next
    case (Inr u)
    then show thesis
      using that(1) [of w2] that(2) [of _ "snd (sys_close os fd w2)"] x y f close_gone [of fd w2]
      by (cases y) (simp_all add: into_tokio_def close_te_def)
  qed
qed

end

text \<open>The table and the registry after a method, the runtime after it: a success adds one receiver, on the
  supervisor's channel \<open>c\<close>, with the current value unseen.\<close>

definition supervised_outcome ::
    "nat \<Rightarrow> stop_on_shutdown \<Rightarrow> watch_view \<Rightarrow> ('e + fd stoppable_stream) outcome \<Rightarrow> watch_view \<Rightarrow> bool" where
  "supervised_outcome c p v x v' \<longleftrightarrow> (case x of
      Ret (Inr ss) \<Rightarrow> ss_policy ss = p \<and> receivers v (ss_rx ss) = None
        \<and> v' = v\<lparr>receivers := (receivers v)(ss_rx ss \<mapsto> (c, True))\<rparr>
    | _ \<Rightarrow> v' = v)"

lemma supervised_run:
  assumes "watch_runtime rt view" and "receivers (view t) (sup_rx (te_supervisor te)) = Some (c, u)"
  shows "\<exists>ss t'. supervised rt p fd (te, t, w) = (Ret (Inr ss), (te, t', w)) \<and> ss_stream ss = fd
    \<and> supervised_outcome c p (view t) (Ret (Inr ss)) (view t')"
  by (rule watch_runtime.supervise_stream_run [OF assms, of fd p])
    (auto simp: supervised_def supervised_outcome_def)

lemma listen_then_supervise:
  assumes "posix os fdt" and "watch_runtime rt view" and "receivers (view t) (sup_rx (te_supervisor te)) = Some (c, u)"
    and inner: "m (te_inner te, w) = (y, (e1, w1))" "reg_inv (fdt w1) (ec_registry e1)"
      "listen_outcome (fdt w) (te_registry te) y (fdt w1) (ec_registry e1)"
    and run: "tryP (onInner m) (\<lambda>l. tryP (into_tokio os l) (supervised rt p)) (te, t, w) = (x, (te', t', w'))"
  shows "reg_inv (fdt w') (ec_registry e1) \<and> te' = te\<lparr>te_inner := e1\<rparr>
    \<and> listen_outcome (fdt w) (te_registry te) (map_outcome (map_sum id ss_stream) x) (fdt w') (ec_registry e1)
    \<and> supervised_outcome c p (view t) x (view t')"
proof (cases y)
  case (Ret r)
  show ?thesis
  proof (cases r)
    case (Inl e)
    then show ?thesis using inner run Ret by (auto simp: supervised_outcome_def)
  next
    case (Inr fd)
    have fd: "fd \<notin> set (owned_fds (ec_registry e1))" using inner(3) Ret Inr by (simp add: listen_outcome_def)
    have posix: "posix_sockets os fdt" using assms(1) posix.axioms(1) by blast
    let ?te = "te\<lparr>te_inner := e1\<rparr>"
    show ?thesis
    proof (rule posix_sockets.into_tokio_cases [OF posix, of fd ?te t w1])
      fix w2 assume w2: "into_tokio os fd (?te, t, w1) = (Ret (Inr fd), (?te, t, w2))" "fdt w2 = fdt w1"
      have "receivers (view t) (sup_rx (te_supervisor ?te)) = Some (c, u)" using assms(3) by simp
      from supervised_run [OF assms(2) this, of p fd w2] obtain ss t2 where
        "supervised rt p fd (?te, t, w2) = (Ret (Inr ss :: io_error + fd stoppable_stream), (?te, t2, w2))" "ss_stream ss = fd"
        "supervised_outcome c p (view t) (Ret (Inr ss :: io_error + fd stoppable_stream)) (view t2)" by blast
      moreover from this have "x = Ret (Inr ss)" "te' = ?te" "t' = t2" "w' = w2" using inner w2 run Ret Inr by simp_all
      ultimately show ?thesis using inner w2 Ret Inr by simp
    next
      fix e w2 assume w2: "into_tokio os fd (?te, t, w1) = (Ret (Inl e), (?te, t, w2))" "fdt w2 = (fdt w1)(fd := None)"
      then have "reg_inv (fdt w2) (ec_registry e1)" using inner(2) fd reg_inv_close_other by metis
      moreover have "x = Ret (Inl e)" "te' = ?te" "t' = t" "w' = w2" using inner w2 run Ret Inr by auto
      moreover have "listen_outcome (fdt w) (te_registry te) (Ret (Inl e)) (fdt w2) (ec_registry e1)"
        using inner(3) w2(2) Ret Inr by (auto simp: listen_outcome_def)
      ultimately show ?thesis by (simp add: supervised_outcome_def)
    qed
  qed
qed (use inner(3) in \<open>auto simp: listen_outcome_def\<close>)

text \<open>The same without a conversion, as for seqpacket listeners.\<close>

lemma listen_then_only_supervise:
  assumes "watch_runtime rt view" and "receivers (view t) (sup_rx (te_supervisor te)) = Some (c, u)"
    and inner: "m (te_inner te, w) = (y, (e1, w1))" "reg_inv (fdt w1) (ec_registry e1)"
      "listen_outcome (fdt w) (te_registry te) y (fdt w1) (ec_registry e1)"
    and run: "tryP (onInner m) (supervised rt p) (te, t, w) = (x, (te', t', w'))"
  shows "reg_inv (fdt w') (ec_registry e1) \<and> te' = te\<lparr>te_inner := e1\<rparr>
    \<and> listen_outcome (fdt w) (te_registry te) (map_outcome (map_sum id ss_stream) x) (fdt w') (ec_registry e1)
    \<and> supervised_outcome c p (view t) x (view t')"
proof (cases y)
  case (Ret r)
  show ?thesis
  proof (cases r)
    case (Inl e)
    then show ?thesis using inner run Ret by (auto simp: supervised_outcome_def)
  next
    case (Inr fd)
    let ?te = "te\<lparr>te_inner := e1\<rparr>"
    have "receivers (view t) (sup_rx (te_supervisor ?te)) = Some (c, u)" using assms(2) by simp
    from supervised_run [OF assms(1) this, of p fd w1] obtain ss t2 where
      "supervised rt p fd (?te, t, w1) = (Ret (Inr ss :: io_error + fd stoppable_stream), (?te, t2, w1))" "ss_stream ss = fd"
      "supervised_outcome c p (view t) (Ret (Inr ss :: io_error + fd stoppable_stream)) (view t2)" by blast
    moreover from this have "x = Ret (Inr ss)" "te' = ?te" "t' = t2" "w' = w1" using inner run Ret Inr by simp_all
    ultimately show ?thesis using inner Ret Inr by simp
  qed
qed (use inner(3) in \<open>auto simp: listen_outcome_def\<close>)

text \<open>What a listening method of \<open>TokioEcdysis\<close> promises.\<close>

definition listen_contract ::
    "('w \<Rightarrow> fdtable) \<Rightarrow> ('t \<Rightarrow> watch_view) \<Rightarrow> stop_on_shutdown \<Rightarrow> (('t, 'w) testate, io_error + fd stoppable_stream) prog \<Rightarrow> bool" where
  "listen_contract fdt view p op \<longleftrightarrow> (\<forall>te t w c u x te' t' w'. receivers (view t) (sup_rx (te_supervisor te)) = Some (c, u)
    \<and> reg_inv (fdt w) (te_registry te) \<and> op (te, t, w) = (x, (te', t', w')) \<longrightarrow>
      reg_inv (fdt w') (te_registry te') \<and> te' = te\<lparr>te_inner := (te_inner te)\<lparr>ec_registry := te_registry te'\<rparr>\<rparr>
      \<and> listen_outcome (fdt w) (te_registry te) (map_outcome (map_sum id ss_stream) x) (fdt w') (te_registry te')
      \<and> supervised_outcome c p (view t) x (view t'))"

lemma listen_contracts:
  assumes "posix os fdt" and "watch_runtime rt view" and "socket_source os fdt create"
    and "op \<in> {tryP (onInner (onReg (listen_with os k create kind))) (\<lambda>l. tryP (into_tokio os l) (supervised rt p)),
      tryP (onInner (onReg (listen_with os k create kind))) (supervised rt p)}"
  shows "listen_contract fdt view p op"
  unfolding listen_contract_def
proof (intro allI impI, elim conjE)
  fix te t w c u x te' t' w'
  assume rx: "receivers (view t) (sup_rx (te_supervisor te)) = Some (c, u)" and inv: "reg_inv (fdt w) (te_registry te)"
    and run: "op (te, t, w) = (x, (te', t', w'))"
  let ?m = "onReg (listen_with os k create kind)"
  obtain y e1 w1 where y: "?m (te_inner te, w) = (y, (e1, w1))" by (metis surj_pair)
  have inner: "reg_inv (fdt w1) (ec_registry e1)" "e1 = (te_inner te)\<lparr>ec_registry := ec_registry e1\<rparr>"
    "listen_outcome (fdt w) (te_registry te) y (fdt w1) (ec_registry e1)"
    using listen_on_registry [OF assms(3) inv y] by simp_all
  have "reg_inv (fdt w') (ec_registry e1) \<and> te' = te\<lparr>te_inner := e1\<rparr>
    \<and> listen_outcome (fdt w) (te_registry te) (map_outcome (map_sum id ss_stream) x) (fdt w') (ec_registry e1)
    \<and> supervised_outcome c p (view t) x (view t')"
    using assms(4)
  proof (elim insertE emptyE)
    assume "op = tryP (onInner ?m) (\<lambda>l. tryP (into_tokio os l) (supervised rt p))"
    then show ?thesis using listen_then_supervise [OF assms(1,2) rx, where m = ?m and w = w] y inner run by blast
  next
    assume "op = tryP (onInner ?m) (supervised rt p)"
    then show ?thesis using listen_then_only_supervise [OF assms(2) rx, where m = ?m and w = w] y inner run by blast
  qed
  moreover from this have "te_registry te' = ec_registry e1" by simp
  moreover have "(te_inner te)\<lparr>ec_registry := ec_registry e1\<rparr> = e1" using inner(2) by simp
  ultimately show "reg_inv (fdt w') (te_registry te') \<and> te' = te\<lparr>te_inner := (te_inner te)\<lparr>ec_registry := te_registry te'\<rparr>\<rparr>
      \<and> listen_outcome (fdt w) (te_registry te) (map_outcome (map_sum id ss_stream) x) (fdt w') (te_registry te')
      \<and> supervised_outcome c p (view t) x (view t')" by simp
qed

lemma stream_contracts:
  assumes "posix os fdt" and "watch_runtime rt view"
  shows "listen_contract fdt view p (t_listen_unix rt os p path)" and "listen_contract fdt view p (t_listen_unix_seqpacket rt os p path)"
    and "socket_source os fdt (build_socket os STREAM f a) \<Longrightarrow> listen_contract fdt view p (t_build_listen_tcp rt os p a f)"
    and "socket_source os fdt (build_socket os DGRAM f a) \<Longrightarrow> listen_contract fdt view p (t_build_stream_udp rt os p a f)"
    and "listen_contract fdt view p (t_listen_tcp rt os p a)"
proof -
  show tcp: "listen_contract fdt view p (t_build_listen_tcp rt os p a f)" if "socket_source os fdt (build_socket os STREAM f a)" for f
    unfolding t_build_listen_tcp_def build_listen_tcp_def by (rule listen_contracts [OF assms that]) blast
  show "listen_contract fdt view p (t_build_stream_udp rt os p a f)" if "socket_source os fdt (build_socket os DGRAM f a)"
    unfolding t_build_stream_udp_def t_build_socket_udp_def build_socket_udp_def tryP_assoc by (rule listen_contracts [OF assms that]) blast
  show "listen_contract fdt view p (t_listen_unix rt os p path)"
    unfolding t_listen_unix_def listen_unix_def by (rule listen_contracts [OF assms posix_sources(1) [OF assms(1)]]) blast
  show "listen_contract fdt view p (t_listen_unix_seqpacket rt os p path)"
    unfolding t_listen_unix_seqpacket_def listen_unix_seqpacket_def by (rule listen_contracts [OF assms posix_sources(2) [OF assms(1)]]) blast
  show "listen_contract fdt view p (t_listen_tcp rt os p a)"
    unfolding t_listen_tcp_def by (rule tcp [OF posix_sources(3) [OF assms(1)]])
qed


subsection \<open>Properties: sockets from systemd\<close>

lemma ofds_close: "ofds (t(fd := None)) \<subseteq> ofds t"
  by (auto simp: ofds_def ran_def)

lemma ofds_put_same: "t fd = Some d \<Longrightarrow> ofd d' = ofd d \<Longrightarrow> ofds (t(n \<mapsto> d')) \<subseteq> ofds t"
  by (auto simp: ofds_iff socket_of_def split: if_splits) blast+

text \<open>No socket is created. A success returns a descriptor that is not the registry's, whose duplicate is registered
  under a key equal to the requested one.\<close>

definition systemd_outcome ::
    "sock_info \<Rightarrow> fdtable \<Rightarrow> registry \<Rightarrow> ('e + fd) outcome \<Rightarrow> fdtable \<Rightarrow> registry \<Rightarrow> bool" where
  "systemd_outcome k t r x t' r' \<longleftrightarrow> ofds t' \<subseteq> ofds t \<and> (case x of
      Ret (Inr fd) \<Rightarrow> fd \<notin> set (owned_fds r') \<and> (\<exists>n si. socket_of t' fd \<noteq> None \<and> socket_of t' n = socket_of t' fd
        \<and> sock_info_eq si k \<and> used_list r' = used_list r @ [\<lparr>li_fd = n, li_sock = si\<rparr>])
    | Ret (Inl e) \<Rightarrow> True
    | _ \<Rightarrow> False)"

context posix_sockets
begin

lemma check_and_register_cases:
  assumes "\<not> m_poisoned (used_fds (te_registry te))" and "fdt w fd = Some d"
  obtains (ok) n si w' where "fdt w n = None" and "fd < n" and "sock_info_eq si k"
      and "fdt w' = (fdt w)(n \<mapsto> d\<lparr>cloexec := True\<rparr>)"
      and "check_and_register os dbg kind k fd (te, t, w) = (Ret (Inr fd), (te\<lparr>te_inner := (te_inner te)\<lparr>ec_registry :=
        set_used (used_list (te_registry te) @ [\<lparr>li_fd = n, li_sock = si\<rparr>]) (te_registry te)\<rparr>\<rparr>, t, w'))"
  | (err) e w' where "fdt w' = (fdt w)(fd := None)"
      and "check_and_register os dbg kind k fd (te, t, w) = (Ret (Inl e), (te, t, w'))"
proof (cases rule: listener_info_of_cases [of os kind fd w])
  case (err e)
  then show thesis using that(2) [of "snd (sys_close os fd w)"] close_gone [of fd w]
    by (simp add: check_and_register_def close_te_def)
next
  case info: (ok si)
  show thesis
  proof (cases "sock_info_eq si k")
    case False
    then show thesis using info that(2) [of "snd (sys_close os fd w)"] close_gone [of fd w]
      by (simp add: check_and_register_def close_te_def)
  next
    case True
    from assms(1) show thesis
    proof (cases rule: add_cases [of "te_registry te" w "\<lparr>li_fd = fd, li_sock = si\<rparr>"])
      case (ok n e w')
      then show thesis using info True assms(2) that(1) [of n si w'] by (simp add: check_and_register_def)
    next
      case (err e w')
      then show thesis using info True that(2) [of "snd (sys_close os fd w')"] close_gone [of fd w']
        by (simp add: check_and_register_def close_te_def)
    qed
  qed
qed

lemma systemd_parent:
  assumes "\<not> t_is_child te" and "reg_inv (fdt w) (te_registry te)"
    and "\<forall>s name fd. te_systemd te = Some s \<and> s name = Some fd \<longrightarrow> fdt w fd \<noteq> None \<and> fd \<notin> set (owned_fds (te_registry te))"
    and "systemd_sock_of_proto os dbg kind name k (te, t, w) = (x, (te', t', w'))"
  shows "reg_inv (fdt w') (te_registry te') \<and> systemd_outcome k (fdt w) (te_registry te) x (fdt w') (te_registry te')"
proof (cases "\<exists>s fd. te_systemd te = Some s \<and> s name = Some fd")
  case False
  then show ?thesis using assms
    by (auto simp: systemd_sock_of_proto_def find_socket_def systemd_outcome_def split: option.splits)
next
  case True
  then obtain s fd d where s: "te_systemd te = Some s" "s name = Some fd" "fdt w fd = Some d"
    and own: "fd \<notin> set (owned_fds (te_registry te))" using assms(3) by blast
  have run: "tryP (mapErrP systemd_socket_error_from_io (onWorld (try_from_raw_fd os kind fd)))
      (check_and_register os dbg kind k) (te, t, w) = (x, (te', t', w'))"
    using assms(1,4) s by (simp add: systemd_sock_of_proto_def find_socket_def)
  have closed: "reg_inv ((fdt w)(fd := None)) (te_registry te)" by (rule reg_inv_close_other [OF assms(2) own])
  show ?thesis
  proof (cases rule: try_from_raw_fd_cases [of kind fd w])
    case (err e w1)
    then show ?thesis using run closed by (auto simp: systemd_outcome_def ofds_close)
  next
    case (ok w1)
    have pre: "\<not> m_poisoned (used_fds (te_registry te))" "fdt w1 fd = Some d"
      using assms(2) s ok by (simp_all add: reg_inv_def)
    then show ?thesis
    proof (cases rule: check_and_register_cases [where k = k and dbg = dbg and kind = kind and t = t])
      case (err e w2)
      then show ?thesis using run ok closed by (auto simp: systemd_outcome_def ofds_close)
    next
      case reg: (ok n si w2)
      have t': "fdt w' = (fdt w)(n \<mapsto> d\<lparr>cloexec := True\<rparr>)" "fdt w n = None" using reg ok run by auto
      then have "reg_inv (fdt w') (te_registry te')"
        using reg ok run reg_inv_push [OF assms(2) t'(2), of d "\<lparr>li_fd = fd, li_sock = si\<rparr>"] by auto
      moreover have "ofds (fdt w') \<subseteq> ofds (fdt w)" using t'(1) ofds_put_same [of "fdt w" fd d "d\<lparr>cloexec := True\<rparr>" n] s(3) by simp
      moreover have "socket_of (fdt w') fd \<noteq> None" "socket_of (fdt w') n = socket_of (fdt w') fd"
        using t' s(3) reg(2) by (auto simp: socket_of_def)
      ultimately show ?thesis using reg ok run own by (auto simp: systemd_outcome_def owned_fds_def)
    qed
  qed
qed

lemma systemd_child:
  assumes "t_is_child te" and "reg_inv (fdt w) (te_registry te)"
    and "systemd_sock_of_proto os dbg kind name k (te, t, w) = (x, (te', t', w'))"
  shows "reg_inv (fdt w') (te_registry te') \<and> systemd_outcome k (fdt w) (te_registry te) x (fdt w') (te_registry te')"
proof -
  have run: "read_sock_from_registry_of_proto os dbg kind k (te, t, w) = (x, (te', t', w'))"
    using assms(1,3) by (simp add: systemd_sock_of_proto_def)
  obtain y r1 w1 where y: "inherit os k (te_registry te, w) = (y, (r1, w1))" by (metis surj_pair)
  have inv1: "reg_inv (fdt w1) r1" using inherit_inv [OF assms(2) y] by simp
  show ?thesis using assms(2)
  proof (cases rule: inherit_cases [of w "te_registry te" k])
    case absent
    then show ?thesis using run assms(2) by (auto simp: read_sock_from_registry_of_proto_def systemd_outcome_def)
  next
    case (lost p fd d w2)
    then have "ofds (fdt w1) \<subseteq> ofds (fdt w)" using y ofds_put_same [of "fdt w" fd d "d\<lparr>cloexec := True\<rparr>" fd] by auto
    then show ?thesis using run lost y inv1 by (auto simp: read_sock_from_registry_of_proto_def systemd_outcome_def)
  next
    case (found p fd d n w2)
    have w1: "fdt w1 = (fdt w)(fd \<mapsto> d\<lparr>cloexec := True\<rparr>, n \<mapsto> d\<lparr>cloexec := True\<rparr>)"
      and used: "used_list r1 = used_list (te_registry te) @ [\<lparr>li_fd = n, li_sock = k\<rparr>]" and yfd: "y = Ret (Some fd)"
      using found y by auto
    have sub: "ofds (fdt w1) \<subseteq> ofds (fdt w)"
      using found(4) ofds_put_same [of "fdt w" fd d "d\<lparr>cloexec := True\<rparr>" fd]
        ofds_put_same [of "(fdt w)(fd \<mapsto> d\<lparr>cloexec := True\<rparr>)" fd "d\<lparr>cloexec := True\<rparr>" "d\<lparr>cloexec := True\<rparr>" n] w1 by auto
    have own: "fd \<notin> set (owned_fds r1)" using inherit_not_owned [OF assms(2)] y yfd by blast
    show ?thesis
    proof (cases rule: try_from_raw_fd_cases [of kind fd w1])
      case (err e w3)
      then show ?thesis
        using run y yfd sub reg_inv_close_other [OF inv1 own] ofds_close [of "fdt w1" fd]
        by (auto simp: read_sock_from_registry_of_proto_def systemd_outcome_def)
    next
      case (ok w3)
      have "socket_of (fdt w1) fd \<noteq> None" "socket_of (fdt w1) n = socket_of (fdt w1) fd"
        using w1 found(6) by (auto simp: socket_of_def)
      then show ?thesis
        using run y yfd sub inv1 own ok used
        by (auto simp: read_sock_from_registry_of_proto_def systemd_outcome_def)
    qed
  qed
qed

end

text \<open>
  C21. The \<open>systemd_listen\<close> functions never create a socket, in the first process nor in a child: whatever
  \<open>systemd_sock_of_proto\<close> returns, there is no new socket in the table and the registry keeps its
  invariant. A success gives a descriptor outside the registry and registers one duplicate of it, for the next child, under
  a key equal to the one asked for. The call does not panic.
\<close>

theorem systemd_never_creates:
  assumes "posix os fdt" and "reg_inv (fdt w) (te_registry te)"
    and "\<forall>s name fd. te_systemd te = Some s \<and> s name = Some fd \<longrightarrow> fdt w fd \<noteq> None \<and> fd \<notin> set (owned_fds (te_registry te))"
    and "systemd_sock_of_proto os dbg kind name k (te, t, w) = (x, (te', t', w'))"
  shows "reg_inv (fdt w') (te_registry te') \<and> systemd_outcome k (fdt w) (te_registry te) x (fdt w') (te_registry te')"
proof (cases "t_is_child te")
  case True
  then show ?thesis using posix_sockets.systemd_child [OF posix_parts(2) [OF assms(1)] _ assms(2,4)] by blast
next
  case False
  then show ?thesis using posix_sockets.systemd_parent [OF posix_parts(2) [OF assms(1)] _ assms(2-4)] by blast
qed

text \<open>
  A mismatch is not repairable: when the socket systemd passed under a name is not bound to what the caller
  expects, the call returns \<open>SockInfoIncorrect\<close> and has closed the descriptor, but the map still holds it. Every
  later lookup of the name returns the closed descriptor, or whatever socket has its number by then.
\<close>

theorem mismatch_leaves_closed_descriptor:
  assumes "posix os fdt" and "\<not> t_is_child te" and "te_systemd te = Some s" and "s name = Some fd"
    and "kind \<noteq> SeqpacketListenerK"
    and "listener_info_of os kind fd w = (Ret (Inr \<lparr>li_fd = fd, li_sock = si\<rparr>), w)" and "\<not> sock_info_eq si k"
  shows "\<exists>m w'. systemd_sock_of_proto os dbg kind name k (te, t, w) = (Ret (Inl (SockInfoIncorrect m)), (te, t, w'))
    \<and> fdt w' fd = None \<and> find_socket dbg s name = Inr fd"
proof -
  have "try_from_raw_fd os kind fd w = (Ret (Inr fd), w)" using assms(5) by (cases kind) simp_all
  then show ?thesis
    using assms(2-4,6,7) posix_fds.close_gone [OF posix_parts(1) [OF assms(1)], of fd w]
    by (simp add: systemd_sock_of_proto_def find_socket_def check_and_register_def close_te_def)
qed

lemma check_and_register_keeps:
  assumes "check_and_register os dbg kind k fd (te, t, w) = (Ret (Inr fd'), (te', t', w'))"
  shows "fd' = fd \<and> te_systemd te' = te_systemd te \<and> t_is_child te' = t_is_child te"
  using assms unfolding check_and_register_def
  by (auto simp: owning_def onInner_def onReg_def onWorld_def close_te_def t_is_child_def is_child_def
      elim!: tryP_OkE dest!: mapErrP_OkE split: prod.splits outcome.splits sum.splits if_splits)

lemma systemd_parent_keeps:
  assumes "posix_sockets os fdt" and "\<not> t_is_child te"
    and "systemd_sock_of_proto os dbg kind name k (te, t, w) = (Ret (Inr fd), (te', t', w'))"
  shows "\<exists>s. te_systemd te = Some s \<and> s name = Some fd \<and> te_systemd te' = Some s \<and> \<not> t_is_child te'"
proof -
  obtain s n where s: "te_systemd te = Some s" "s name = Some n"
    and run: "tryP (mapErrP systemd_socket_error_from_io (onWorld (try_from_raw_fd os kind n)))
      (check_and_register os dbg kind k) (te, t, w) = (Ret (Inr fd), (te', t', w'))"
    using assms(2,3) by (auto simp: systemd_sock_of_proto_def find_socket_def split: option.splits)
  show ?thesis
  proof (cases rule: posix_sockets.try_from_raw_fd_cases [OF assms(1), of kind n w])
    case (1 w1)
    then have "check_and_register os dbg kind k n (te, t, w1) = (Ret (Inr fd), (te', t', w'))" using run by simp
    from check_and_register_keeps [OF this] show ?thesis using s assms(2) by simp
  next
    case (2 e w1)
    then show ?thesis using run by simp
  qed
qed

text \<open>
  C39. One name, two owners: the lookup of a systemd socket does not take the descriptor out of the map. Two
  successful calls for one name, whatever happens between them, give two listeners with one raw descriptor, so
  that dropping either closes the socket of the other.
\<close>

theorem systemd_name_adopted_twice:
  assumes "posix os fdt" and "\<not> t_is_child te"
    and "systemd_sock_of_proto os dbg kind name k (te, t, w) = (Ret (Inr fd1), (te1, t1, w1))"
    and "systemd_sock_of_proto os dbg kind name k (te1, t2, w2) = (Ret (Inr fd2), (te2, t3, w3))"
  shows "fd2 = fd1 \<and> fdt (snd (sys_close os fd1 w3)) fd2 = None"
proof -
  note keeps = systemd_parent_keeps [OF posix_parts(2) [OF assms(1)]]
  have "fd2 = fd1" using keeps [OF assms(2,3)] keeps [OF _ assms(4)] by auto
  then show ?thesis using posix_fds.close_gone [OF posix_parts(1) [OF assms(1)]] by simp
qed

subsection \<open>Concrete runs\<close>

text \<open>The object of a child around the one of \<open>Ecdysis\<close>, and that of a first process with one socket from systemd, bound to
  port 80, at descriptor 3.\<close>

definition te_ex :: tokio_ecdysis where
  "te_ex = \<lparr>te_supervisor = \<lparr>sup_tx = 1, sup_rx = 1, sup_state = None\<rparr>, te_inner = ec_ex, te_systemd = None\<rparr>"

definition te_sd :: tokio_ecdysis where
  "te_sd = \<lparr>te_supervisor = \<lparr>sup_tx = 1, sup_rx = 1, sup_state = None\<rparr>,
     te_inner = \<lparr>ec_registry = registry_new, ready_notifier = None, pid_file = None, ec_child = False\<rparr>,
     te_systemd = Some (\<lambda>n. if n = ''web'' then Some 3 else None)\<rparr>"

definition te_sd_world :: kworld where
  "te_sd_world = kw0\<lparr>k_fds := (3, \<lparr>cloexec = True, ofd = 7\<rparr>) # k_fds kw0, k_names := [(7, KInet (SockV4 0 80))]\<rparr>"

lemma te_ex_runs:
  "is_ok (fst (t_listen_tcp trt kern Yes (SockV4 0 80) (te_ex, sup_ex_rt None True, ec_ex_world)))"
  "is_ok (fst (systemd_sock_of_proto kern sd_ex_dbg TcpListenerK ''web'' (Tcp (SockV4 0 80)) (te_sd, (), te_sd_world)))"
  by code_simp+


lemma te_sd_pre:
  "reg_inv (k_fdt te_sd_world) (te_registry te_sd)"
  "\<forall>s name fd. te_systemd te_sd = Some s \<and> s name = Some fd \<longrightarrow>
    k_fdt te_sd_world fd \<noteq> None \<and> fd \<notin> set (owned_fds (te_registry te_sd))"
  by (auto simp: te_sd_def reg_inv_def registry_new_def mutex_new_def owned_fds_def te_sd_world_def k_fdt_def split: if_splits)

theorem systemd_never_creates_witness:
  "\<exists>fd te' w'. systemd_sock_of_proto kern sd_ex_dbg TcpListenerK ''web'' (Tcp (SockV4 0 80)) (te_sd, (), te_sd_world)
      = (Ret (Inr fd), (te', (), w'))
    \<and> ofds (k_fdt w') \<subseteq> ofds (k_fdt te_sd_world) \<and> length (used_list (te_registry te')) = 1"
proof -
  obtain fd te' w' where
    run: "systemd_sock_of_proto kern sd_ex_dbg TcpListenerK ''web'' (Tcp (SockV4 0 80)) (te_sd, (), te_sd_world)
      = (Ret (Inr fd), (te', (), w'))"
    using is_okD [OF te_ex_runs(2)] by auto
  have "used_list (te_registry te_sd) = []" by (simp add: te_sd_def registry_new_def mutex_new_def)
  then show ?thesis
    using run systemd_never_creates [OF kern.posix_axioms te_sd_pre run] by (auto simp: systemd_outcome_def)
qed

theorem mismatch_leaves_closed_descriptor_witness:
  "\<exists>m w'. systemd_sock_of_proto kern sd_ex_dbg TcpListenerK ''web'' (Tcp (SockV4 0 443)) (te_sd, (), te_sd_world)
      = (Ret (Inl (SockInfoIncorrect m)), (te_sd, (), w')) \<and> k_fdt w' 3 = None"
proof -
  let ?s = "\<lambda>n. if n = ''web'' then Some (3::int) else None"
  have te: "\<not> t_is_child te_sd" "te_systemd te_sd = Some ?s" "?s ''web'' = Some 3"
    by (simp_all add: te_sd_def t_is_child_def is_child_def)
  have info: "listener_info_of kern TcpListenerK 3 te_sd_world = (Ret (Inr \<lparr>li_fd = 3, li_sock = Tcp (SockV4 0 80)\<rparr>), te_sd_world)"
    by (simp add: tcp_info_def te_sd_world_def kw0_def kern_eval)
  from mismatch_leaves_closed_descriptor [OF kern.posix_axioms te _ info, of "Tcp (SockV4 0 443)" sd_ex_dbg "()"]
  show ?thesis by auto
qed

theorem systemd_name_adopted_twice_witness:
  "\<exists>fd1 te1 w1 fd2 te2 w2. systemd_sock_of_proto kern sd_ex_dbg TcpListenerK ''web'' (Tcp (SockV4 0 80)) (te_sd, (), te_sd_world)
      = (Ret (Inr fd1), (te1, (), w1))
    \<and> systemd_sock_of_proto kern sd_ex_dbg TcpListenerK ''web'' (Tcp (SockV4 0 80)) (te1, (), w1) = (Ret (Inr fd2), (te2, (), w2))
    \<and> fd2 = fd1 \<and> k_fdt (snd (sys_close kern fd1 w2)) fd2 = None"
proof -
  have "(case systemd_sock_of_proto kern sd_ex_dbg TcpListenerK ''web'' (Tcp (SockV4 0 80)) (te_sd, (), te_sd_world) of
      (Ret (Inr fd), s) \<Rightarrow> is_ok (fst (systemd_sock_of_proto kern sd_ex_dbg TcpListenerK ''web'' (Tcp (SockV4 0 80)) s))
    | _ \<Rightarrow> False)"
    by code_simp
  then obtain fd1 te1 w1 where 1: "systemd_sock_of_proto kern sd_ex_dbg TcpListenerK ''web'' (Tcp (SockV4 0 80)) (te_sd, (), te_sd_world)
      = (Ret (Inr fd1), (te1, (), w1))"
    and "is_ok (fst (systemd_sock_of_proto kern sd_ex_dbg TcpListenerK ''web'' (Tcp (SockV4 0 80)) (te1, (), w1)))"
    by (auto split: prod.splits outcome.splits sum.splits)
  then obtain fd2 te2 w2 where 2: "systemd_sock_of_proto kern sd_ex_dbg TcpListenerK ''web'' (Tcp (SockV4 0 80)) (te1, (), w1)
      = (Ret (Inr fd2), (te2, (), w2))" using is_okD by fastforce
  have "\<not> t_is_child te_sd" by (simp add: te_sd_def t_is_child_def is_child_def)
  from systemd_name_adopted_twice [OF kern.posix_axioms this 1 2] show ?thesis using 1 2 by blast
qed

end
