(* ===== verification/Builder.thy ===== *)
theory Builder
  imports Tokio_Ecdysis
begin

text \<open>
  \<open>TokioEcdysisBuilder\<close> of \<open>src/tokio_ecdysis/mod.rs\<close>: it collects triggers while
  the server sets up its sockets; \<open>ready\<close> turns it into the upgrader that the monitor runs. A
  caller may make the configuration calls in any order and go on after an error; \<open>make_call\<close> is
  one such call, and the invariant \<open>builder_wf\<close> is what \<open>ready\<close> and the monitor need
  of the result.
\<close>

subsection \<open>The builder\<close>

record tokio_builder =
  tb_te :: tokio_ecdysis
  tb_triggers :: "(trigger \<times> exit_condition) list"
  tb_notifier :: "systemd_notifier option"

type_synonym ('t, 'w) bstate = "tokio_builder \<times> 't \<times> 'w"

definition onTe :: "(('t, 'w) testate, 'a) prog \<Rightarrow> (('t, 'w) bstate, 'a) prog" where
  "onTe m = (\<lambda>(b, t, w). case m (tb_te b, t, w) of (x, (te, t', w')) \<Rightarrow> (x, (b\<lparr>tb_te := te\<rparr>, t', w')))"

definition builder_new ::
    "'t rt \<Rightarrow> 'w os \<Rightarrow> codec \<Rightarrow> environment \<Rightarrow> signal_kind \<Rightarrow> ('t \<times> 'w, io_error + tokio_builder) prog" where
  "builder_new rt os codec env upgrade_signal_kind = (\<lambda>(t, w). case signal_new rt upgrade_signal_kind t of
      (Inl e, t') \<Rightarrow> (Ret (Inl e), (t', w))
    | (Inr stream, t') \<Rightarrow> bindP (tokio_ecdysis_new rt os codec env) (\<lambda>te. returnP (Inr
        \<lparr>tb_te = te, tb_triggers = [(SignalT upgrade_signal_kind stream, Upgrade)], tb_notifier = None\<rparr>)) (t', w))"

definition trigger_on_signal ::
    "'t rt \<Rightarrow> signal_kind \<Rightarrow> exit_condition \<Rightarrow> (('t, 'w) bstate, io_error + unit) prog" where
  "trigger_on_signal rt signal_kind trigger_action = (\<lambda>(b, t, w). case signal_new rt signal_kind t of
      (Inl e, t') \<Rightarrow> (Ret (Inl e), (b, t', w))
    | (Inr stream, t') \<Rightarrow> (Ret (Inr ()),
        (b\<lparr>tb_triggers := tb_triggers b @ [(SignalT signal_kind stream, trigger_action)]\<rparr>, t', w)))"

definition stop_on_signal :: "'t rt \<Rightarrow> signal_kind \<Rightarrow> (('t, 'w) bstate, io_error + unit) prog" where
  "stop_on_signal rt signal_kind = trigger_on_signal rt signal_kind Stop"

definition partial_stop_on_signal :: "'t rt \<Rightarrow> signal_kind \<Rightarrow> (('t, 'w) bstate, io_error + unit) prog" where
  "partial_stop_on_signal rt signal_kind = trigger_on_signal rt signal_kind PartialStop"

definition trigger_on_socket ::
    "'t rt \<Rightarrow> 'w os \<Rightarrow> path \<Rightarrow> exit_condition \<Rightarrow> (('t, 'w) bstate, io_error + unit) prog" where
  "trigger_on_socket rt os listen_path trigger_action =
    tryP (onTe (t_listen_unix rt os Yes listen_path)) (\<lambda>stream (b, t, w).
      (Ret (Inr ()), (b\<lparr>tb_triggers := tb_triggers b @ [(Uds listen_path stream, trigger_action)]\<rparr>, t, w)))"

definition upgrade_on_socket :: "'t rt \<Rightarrow> 'w os \<Rightarrow> path \<Rightarrow> (('t, 'w) bstate, io_error + unit) prog" where
  "upgrade_on_socket rt os listen_path = trigger_on_socket rt os listen_path Upgrade"

definition stop_on_socket :: "'t rt \<Rightarrow> 'w os \<Rightarrow> path \<Rightarrow> (('t, 'w) bstate, io_error + unit) prog" where
  "stop_on_socket rt os listen_path = trigger_on_socket rt os listen_path Stop"

definition partial_stop_on_socket :: "'t rt \<Rightarrow> 'w os \<Rightarrow> path \<Rightarrow> (('t, 'w) bstate, io_error + unit) prog" where
  "partial_stop_on_socket rt os listen_path = trigger_on_socket rt os listen_path PartialStop"

definition b_set_pid_file :: "path \<Rightarrow> tokio_builder \<Rightarrow> tokio_builder" where
  "b_set_pid_file p b = b\<lparr>tb_te := (tb_te b)\<lparr>te_inner := set_pid_file p (te_inner (tb_te b))\<rparr>\<rparr>"

text \<open>Dropping a notifier closes its socket.\<close>

definition drop_notifier :: "'w os \<Rightarrow> systemd_notifier option \<Rightarrow> 'w \<Rightarrow> 'w" where
  "drop_notifier os n w = (case n of None \<Rightarrow> w | Some n' \<Rightarrow> snd (sys_close os (notify_socket n') w))"

definition enable_systemd_notifications ::
    "'w os \<Rightarrow> environment \<Rightarrow> (('t, 'w) bstate, systemd_notifier_error + unit) prog" where
  "enable_systemd_notifications os env = (\<lambda>(b, t, w). case systemd_notifier_new os env w of
      (Ret (Inr n), w') \<Rightarrow> (Ret (Inr ()), (b\<lparr>tb_notifier := Some n\<rparr>, t, drop_notifier os (tb_notifier b) w'))
    | (Ret (Inl e), w') \<Rightarrow> (Ret (Inl e), (b, t, w'))
    | (Panic m, w') \<Rightarrow> (Panic m, (b, t, w'))
    | (Exit n, w') \<Rightarrow> (Exit n, (b, t, w')))"

definition extend_systemd_timeouts :: "'w os \<Rightarrow> duration \<Rightarrow> (('t, 'w) bstate, io_error + unit) prog" where
  "extend_systemd_timeouts os extension = (\<lambda>(b, t, w). case tb_notifier b of
      None \<Rightarrow> (Ret (Inr ()), (b, t, w))
    | Some n \<Rightarrow> (case notify_extend_timeouts os n extension w of (x, w') \<Rightarrow> (x, (b, t, w'))))"

definition b_read_systemd_sockets ::
    "'w os \<Rightarrow> debug_text \<Rightarrow> environment \<Rightarrow> (('t, 'w) bstate, systemd_sockets_read_error + unit) prog" where
  "b_read_systemd_sockets os dbg env = onTe (t_read_systemd_sockets os dbg env)"

subsection \<open>The upgrader\<close>

record upgrader =
  up_te :: tokio_ecdysis
  up_triggers :: "(trigger \<times> exit_condition) list"
  up_notifier :: "systemd_notifier option"

text \<open>Its state: itself, the runtime, the flag \<open>UPGRADING\<close> and the world.\<close>

type_synonym ('t, 'w) mstate = "upgrader \<times> 't \<times> bool \<times> 'w"

fun drop_triggers :: "'t rt \<Rightarrow> 'w os \<Rightarrow> (trigger \<times> exit_condition) list \<Rightarrow> 't \<times> 'w \<Rightarrow> 't \<times> 'w" where
  "drop_triggers rt os [] s = s"
| "drop_triggers rt os ((tr, ec) # trs) s = drop_triggers rt os trs (drop_trigger rt os tr s)"

text \<open>\<open>TokioEcdysisBuilder::ready\<close> consumes the builder; on an error everything it owns is dropped.\<close>

definition drop_builder :: "'t rt \<Rightarrow> 'w os \<Rightarrow> ('t, 'w) bstate \<Rightarrow> ('t, 'w) bstate" where
  "drop_builder rt os = (\<lambda>(b, t, w).
    case drop_triggers rt os (tb_triggers b) (t, drop_notifier os (tb_notifier b) w) of (t', w') \<Rightarrow>
    case drop_ecdysis os (te_inner (tb_te b), w') of (x, (e, w'')) \<Rightarrow>
      (b\<lparr>tb_triggers := [], tb_notifier := None, tb_te := (tb_te b)\<lparr>te_inner := e\<rparr>\<rparr>,
       watch_drop rt (sup_rx (te_supervisor (tb_te b))) t', w''))"

definition b_ready :: "'t rt \<Rightarrow> 'w os \<Rightarrow> (('t, 'w) bstate, io_error + upgrader) prog" where
  "b_ready rt os = owning (drop_builder rt os)
    (tryP (onTe (onInner (ready os))) (\<lambda>u (b, t, w).
      (Ret (Inr \<lparr>up_te = tb_te b, up_triggers = tb_triggers b, up_notifier = tb_notifier b\<rparr>), (b, t, w))))"

subsection \<open>Triggers in step with the supervisor\<close>

fun trigger_rxs :: "(trigger \<times> exit_condition) list \<Rightarrow> handle list" where
  "trigger_rxs [] = []"
| "trigger_rxs ((tr, ec) # trs) = (case trigger_rx tr of None \<Rightarrow> [] | Some h \<Rightarrow> [h]) @ trigger_rxs trs"

definition triggers_synced :: "watch_view \<Rightarrow> nat \<Rightarrow> run_state \<Rightarrow> (trigger \<times> exit_condition) list \<Rightarrow> bool" where
  "triggers_synced v c st trs \<longleftrightarrow> distinct (trigger_rxs trs) \<and> (\<forall>x\<in>set trs. trigger_synced v c st (fst x))"

lemma trigger_synced_frame:
  assumes "trigger_synced v c st tr" and "\<And>h. trigger_rx tr = Some h \<Longrightarrow> receivers v' h = receivers v h"
  shows "trigger_synced v' c st tr"
  using assms by (cases tr) (auto simp: synced_def)

lemma trigger_rx_mem: "x \<in> set trs \<Longrightarrow> trigger_rx (fst x) = Some h \<Longrightarrow> h \<in> set (trigger_rxs trs)"
  by (induction trs rule: trigger_rxs.induct) (auto split: option.splits)

subsection \<open>Any sequence of configuration calls\<close>

text \<open>The methods of the builder, and those of \<open>TokioEcdysis\<close> it gives access to by \<open>Deref\<close> that return a stream.\<close>

datatype 'w builder_call =
    CallStopOnSignal signal_kind
  | CallPartialStopOnSignal signal_kind
  | CallUpgradeOnSocket path
  | CallStopOnSocket path
  | CallPartialStopOnSocket path
  | CallSetPidFile path
  | CallEnableNotifications
  | CallExtendTimeouts duration
  | CallReadSystemdSockets
  | CallListenUnix stop_on_shutdown path
  | CallListenUnixSeqpacket stop_on_shutdown path
  | CallListenTcp stop_on_shutdown socket_addr
  | CallBuildListenTcp stop_on_shutdown socket_addr "fd \<Rightarrow> socket_addr \<Rightarrow> ('w, io_error + fd) prog"
  | CallBuildStreamUdp stop_on_shutdown socket_addr "fd \<Rightarrow> socket_addr \<Rightarrow> ('w, io_error + fd) prog"
  | CallSystemdListenUnix stop_on_shutdown string path
  | CallSystemdListenUnixSeqpacket stop_on_shutdown string path
  | CallSystemdListenTcp stop_on_shutdown string socket_addr
  | CallSystemdStreamUdp stop_on_shutdown string socket_addr

text \<open>What a caller that goes on after an error holds: the stream of a successful call. \<open>None\<close> is a panic or an exit.\<close>

definition kept :: "('e + fd stoppable_stream) outcome \<times> ('t, 'w) bstate \<Rightarrow> (fd stoppable_stream list \<times> ('t, 'w) bstate) option" where
  "kept = (\<lambda>(x, s). case x of Ret (Inr ss) \<Rightarrow> Some ([ss], s) | Ret (Inl e) \<Rightarrow> Some ([], s) | _ \<Rightarrow> None)"

definition no_stream :: "('e + unit) outcome \<times> ('t, 'w) bstate \<Rightarrow> (fd stoppable_stream list \<times> ('t, 'w) bstate) option" where
  "no_stream = (\<lambda>(x, s). case x of Ret r \<Rightarrow> Some ([], s) | _ \<Rightarrow> None)"

fun make_call ::
    "'t rt \<Rightarrow> 'w os \<Rightarrow> debug_text \<Rightarrow> environment \<Rightarrow> 'w builder_call \<Rightarrow> ('t, 'w) bstate
      \<Rightarrow> (fd stoppable_stream list \<times> ('t, 'w) bstate) option" where
  "make_call rt os dbg env (CallStopOnSignal k) s = no_stream (stop_on_signal rt k s)"
| "make_call rt os dbg env (CallPartialStopOnSignal k) s = no_stream (partial_stop_on_signal rt k s)"
| "make_call rt os dbg env (CallUpgradeOnSocket p) s = no_stream (upgrade_on_socket rt os p s)"
| "make_call rt os dbg env (CallStopOnSocket p) s = no_stream (stop_on_socket rt os p s)"
| "make_call rt os dbg env (CallPartialStopOnSocket p) s = no_stream (partial_stop_on_socket rt os p s)"
| "make_call rt os dbg env (CallSetPidFile p) (b, t, w) = Some ([], (b_set_pid_file p b, t, w))"
| "make_call rt os dbg env CallEnableNotifications s = no_stream (enable_systemd_notifications os env s)"
| "make_call rt os dbg env (CallExtendTimeouts d) s = no_stream (extend_systemd_timeouts os d s)"
| "make_call rt os dbg env CallReadSystemdSockets s = no_stream (b_read_systemd_sockets os dbg env s)"
| "make_call rt os dbg env (CallListenUnix p path) s = kept (onTe (t_listen_unix rt os p path) s)"
| "make_call rt os dbg env (CallListenUnixSeqpacket p path) s = kept (onTe (t_listen_unix_seqpacket rt os p path) s)"
| "make_call rt os dbg env (CallListenTcp p a) s = kept (onTe (t_listen_tcp rt os p a) s)"
| "make_call rt os dbg env (CallBuildListenTcp p a f) s = kept (onTe (t_build_listen_tcp rt os p a f) s)"
| "make_call rt os dbg env (CallBuildStreamUdp p a f) s = kept (onTe (t_build_stream_udp rt os p a f) s)"
| "make_call rt os dbg env (CallSystemdListenUnix p n path) s = kept (onTe (systemd_listen_unix rt os dbg p n path) s)"
| "make_call rt os dbg env (CallSystemdListenUnixSeqpacket p n path) s =
    kept (onTe (systemd_listen_unix_seqpacket rt os dbg p n path) s)"
| "make_call rt os dbg env (CallSystemdListenTcp p n a) s = kept (onTe (systemd_listen_tcp rt os dbg p n a) s)"
| "make_call rt os dbg env (CallSystemdStreamUdp p n a) s = kept (onTe (systemd_stream_udp rt os dbg p n a) s)"

fun make_calls ::
    "'t rt \<Rightarrow> 'w os \<Rightarrow> debug_text \<Rightarrow> environment \<Rightarrow> 'w builder_call list \<Rightarrow> ('t, 'w) bstate
      \<Rightarrow> (fd stoppable_stream list \<times> ('t, 'w) bstate) option" where
  "make_calls rt os dbg env [] s = Some ([], s)"
| "make_calls rt os dbg env (call # calls) s = (case make_call rt os dbg env call s of
      None \<Rightarrow> None
    | Some (ss, s') \<Rightarrow> map_option (\<lambda>(ss', s''). (ss @ ss', s'')) (make_calls rt os dbg env calls s'))"

subsection \<open>What the calls touch\<close>

named_theorems te_frames \<open>programs on the object that leave the runtime and the supervisor alone\<close>

definition te_frame :: "(('t, 'w) testate, 'a) prog \<Rightarrow> bool" where
  "te_frame m \<longleftrightarrow> (\<forall>te t w x te' t' w'. m (te, t, w) = (x, (te', t', w')) \<longrightarrow> t' = t \<and> te_supervisor te' = te_supervisor te)"

lemma te_frameI:
  "(\<And>te t w x te' t' w'. m (te, t, w) = (x, (te', t', w')) \<Longrightarrow> t' = t \<and> te_supervisor te' = te_supervisor te) \<Longrightarrow> te_frame m"
  by (simp add: te_frame_def)

lemma te_frameD: "te_frame m \<Longrightarrow> m (te, t, w) = (x, (te', t', w')) \<Longrightarrow> t' = t \<and> te_supervisor te' = te_supervisor te"
  unfolding te_frame_def by blast

lemma te_frame_lifts [te_frames]: "te_frame (onInner m)" "te_frame (onWorld n)" "te_frame (returnP a)"
  by (auto simp: te_frame_def onInner_def onWorld_def split: prod.splits)

lemma te_frame_bindP [te_frames]:
  assumes "te_frame m" and "\<And>a. te_frame (f a)"
  shows "te_frame (bindP m f)"
proof (rule te_frameI)
  fix te t w x te' t' w'
  assume run: "bindP m f (te, t, w) = (x, (te', t', w'))"
  obtain y te1 t1 w1 where y: "m (te, t, w) = (y, (te1, t1, w1))" by (metis surj_pair)
  then have "t1 = t \<and> te_supervisor te1 = te_supervisor te" using te_frameD [OF assms(1)] by blast
  then show "t' = t \<and> te_supervisor te' = te_supervisor te"
    using run y te_frameD [OF assms(2)] by (cases y) (auto simp: bindP_def)
qed

lemma te_frame_tryP [te_frames]: "te_frame m \<Longrightarrow> (\<And>a. te_frame (f a)) \<Longrightarrow> te_frame (tryP m f)"
  unfolding tryP_def by (rule te_frame_bindP) (auto intro: te_frames split: sum.splits)

lemma te_frame_mapErrP [te_frames]: "te_frame m \<Longrightarrow> te_frame (mapErrP g m)"
  unfolding mapErrP_def by (intro te_frames)

lemma te_frame_owning [te_frames]: "te_frame m \<Longrightarrow> te_frame (owning (close_te os fd) m)"
  by (rule te_frameI) (auto simp: owning_def close_te_def dest: te_frameD split: prod.splits outcome.splits sum.splits)

lemma te_frame_if [te_frames]: "te_frame m \<Longrightarrow> te_frame n \<Longrightarrow> te_frame (if b then m else n)"
  by simp

lemma te_frame_into_tokio [te_frames]: "te_frame (into_tokio os fd)"
  unfolding into_tokio_def by (intro te_frames)

lemma te_frame_check [te_frames]: "te_frame (check_and_register os dbg kind si fd)"
  unfolding check_and_register_def by (intro te_frames)

lemma te_frame_child_sock [te_frames]: "te_frame (read_sock_from_registry_of_proto os dbg kind si)"
  unfolding read_sock_from_registry_of_proto_def
  by (rule te_frame_bindP, rule te_frames) (auto split: option.splits intro!: te_frames)

lemma te_frame_systemd_sock [te_frames]: "te_frame (systemd_sock_of_proto os dbg kind name si)"
proof (rule te_frameI)
  fix te t w x te' t' w'
  assume run: "systemd_sock_of_proto os dbg kind name si (te, t, w) = (x, (te', t', w'))"
  have "te_frame (tryP (mapErrP systemd_socket_error_from_io (onWorld (try_from_raw_fd os kind fd))) (check_and_register os dbg kind si))" for fd
    by (intro te_frames)
  then show "t' = t \<and> te_supervisor te' = te_supervisor te"
    using run te_frameD te_frameD [OF te_frame_child_sock]
    by (fastforce simp: systemd_sock_of_proto_def split: if_splits option.splits sum.splits)
qed

lemma te_frame_socket_udp [te_frames]: "te_frame (t_build_socket_udp os a f)" "te_frame (systemd_socket_udp os dbg n a)"
  unfolding t_build_socket_udp_def systemd_socket_udp_def by (intro te_frames)+

lemma te_frame_store [te_frames]:
  "te_frame (tryP (onWorld m) (\<lambda>sockets (te, t, w). (Ret (Inr ()), (te\<lparr>te_systemd := Some sockets\<rparr>, t, w))))"
  by (rule te_frame_tryP, rule te_frames) (auto intro: te_frameI)

lemma te_frame_read_sockets: "te_frame (t_read_systemd_sockets os dbg env)"
  by (rule te_frameI) (auto simp: t_read_systemd_sockets_def dest: te_frameD [OF te_frame_store] split: if_splits)

text \<open>Every method that returns a stream is a program of this kind followed by \<open>supervised\<close>.\<close>

lemma supervised_after:
  fixes x :: "('e + fd stoppable_stream) outcome"
  assumes "watch_runtime rt view" and "receivers (view t) (sup_rx (te_supervisor te)) = Some (c, u)" and "te_frame m"
    and "tryP m (supervised rt p) (te, t, w) = (x, (te', t', w'))"
  shows "te_supervisor te' = te_supervisor te \<and> supervised_outcome c p (view t) x (view t')"
proof -
  obtain y te1 t1 w1 where y: "m (te, t, w) = (y, (te1, t1, w1))" by (metis surj_pair)
  then have f: "t1 = t" "te_supervisor te1 = te_supervisor te" using te_frameD [OF assms(3)] by blast+
  show ?thesis
  proof (cases "\<exists>fd. y = Ret (Inr fd)")
    case True
    then obtain fd where fd: "y = Ret (Inr fd)" by blast
    have "receivers (view t) (sup_rx (te_supervisor te1)) = Some (c, u)" using assms(2) f by simp
    from supervised_run [OF assms(1) this, of p fd w1] obtain ss t2 where
      "supervised rt p fd (te1, t, w1) = (Ret (Inr ss :: 'e + fd stoppable_stream), (te1, t2, w1))"
      "supervised_outcome c p (view t) (Ret (Inr ss :: 'e + fd stoppable_stream)) (view t2)" by blast
    then show ?thesis using assms(4) y f fd by auto
  next
    case False
    then show ?thesis using assms(4) y f
      by (cases y rule: outcome.exhaust) (auto simp: tryP_def bindP_def supervised_outcome_def split: sum.splits)
  qed
qed

lemma stream_methods:
  "\<exists>m. te_frame m \<and> t_listen_unix rt os p path = tryP m (supervised rt p)"
  "\<exists>m. te_frame m \<and> t_listen_unix_seqpacket rt os p path = tryP m (supervised rt p)"
  "\<exists>m. te_frame m \<and> t_build_listen_tcp rt os p a f = tryP m (supervised rt p)"
  "\<exists>m. te_frame m \<and> t_build_stream_udp rt os p a f = tryP m (supervised rt p)"
  "\<exists>m. te_frame m \<and> systemd_listen_unix rt os dbg p n path = tryP m (supervised rt p)"
  "\<exists>m. te_frame m \<and> systemd_listen_tcp rt os dbg p n a = tryP m (supervised rt p)"
  "\<exists>m. te_frame m \<and> systemd_stream_udp rt os dbg p n a = tryP m (supervised rt p)"
  unfolding t_listen_unix_def t_listen_unix_seqpacket_def t_build_listen_tcp_def t_build_stream_udp_def systemd_listen_unix_def
    systemd_listen_tcp_def systemd_stream_udp_def tryP_assoc [symmetric]
  by (rule exI, rule conjI [rotated], rule refl, intro te_frames)+

lemma systemd_seqpacket_method: "\<exists>m. te_frame m \<and> systemd_listen_unix_seqpacket rt os dbg p n path = tryP m (supervised rt p)"
proof (intro exI conjI)
  let ?m = "\<lambda>listener. tryP (owning (close_te os listener)
    (mapErrP systemd_socket_error_from_io (onWorld (set_nonblocking os listener True)))) (\<lambda>u. returnP (Inr listener))"
  show "te_frame (tryP (systemd_sock_of_proto os dbg SeqpacketListenerK n (UnixSeqpacket (Some path))) ?m)"
    by (intro te_frames)
  show "systemd_listen_unix_seqpacket rt os dbg p n path
      = tryP (tryP (systemd_sock_of_proto os dbg SeqpacketListenerK n (UnixSeqpacket (Some path))) ?m) (supervised rt p)"
    unfolding systemd_listen_unix_seqpacket_def tryP_assoc tryP_returnP_left ..
qed

subsection \<open>The invariant of the builder\<close>

text \<open>Before \<open>ready\<close> the supervisor's channel \<open>c\<close> carries no condition; all triggers, and the streams the caller holds, have
  receivers of their own on it and are in step; the first trigger is the signal the builder was made with.\<close>

definition builder_wf ::
    "watch_view \<Rightarrow> signal_kind \<Rightarrow> nat \<Rightarrow> supervisor \<Rightarrow> (trigger \<times> exit_condition) list \<Rightarrow> fd stoppable_stream list \<Rightarrow> bool" where
  "builder_wf v k c s trs held \<longleftrightarrow> senders v (sup_tx s) = Some c \<and> (\<exists>u. receivers v (sup_rx s) = Some (c, u))
    \<and> chan_value v c = Some None \<and> distinct (sup_rx s # trigger_rxs trs @ map ss_rx held)
    \<and> (\<forall>x\<in>set trs. trigger_synced v c None (fst x)) \<and> (\<forall>ss\<in>set held. synced v c None ss)
    \<and> (\<exists>h rest. trs = (SignalT k h, Upgrade) # rest)"

lemma trigger_rxs_append [simp]: "trigger_rxs (xs @ ys) = trigger_rxs xs @ trigger_rxs ys"
  by (induction xs rule: trigger_rxs.induct) (simp_all split: option.splits)

lemma trigger_rxs_receivers:
  "\<forall>x\<in>set trs. trigger_synced v c st (fst x) \<Longrightarrow> h \<in> set (trigger_rxs trs) \<Longrightarrow> receivers v h \<noteq> None"
proof (induction trs)
  case (Cons a trs)
  obtain tr ec where a: "a = (tr, ec)" by fastforce
  show ?case
  proof (cases "h \<in> set (trigger_rxs trs)")
    case False
    then have "trigger_rx tr = Some h" using Cons.prems(2) a by (auto split: option.splits)
    then show ?thesis using Cons.prems(1) a by (cases tr) (auto simp: synced_def split: option.splits)
  qed (use Cons in auto)
qed simp

lemma builder_wf_new_rx:
  assumes "builder_wf v k c s trs held" and "receivers v h = None" and "v' = v\<lparr>receivers := (receivers v)(h \<mapsto> (c, True))\<rparr>"
  shows "builder_wf v' k c s trs held" and "h \<notin> set (sup_rx s # trigger_rxs trs @ map ss_rx held)"
proof -
  have tr: "h \<notin> set (trigger_rxs trs)" using assms(1,2) trigger_rxs_receivers by (fastforce simp: builder_wf_def)
  have held: "h \<noteq> ss_rx ss" if "ss \<in> set held" for ss
    using assms(1,2) that by (fastforce simp: builder_wf_def synced_def)
  have sup: "h \<noteq> sup_rx s" using assms(1,2) by (auto simp: builder_wf_def)
  show "h \<notin> set (sup_rx s # trigger_rxs trs @ map ss_rx held)" using tr held sup by auto
  have "trigger_synced v' c None (fst x)" if "x \<in> set trs" for x
  proof (rule trigger_synced_frame)
    show "trigger_synced v c None (fst x)" using that assms(1) by (simp add: builder_wf_def)
    show "receivers v' h' = receivers v h'" if "trigger_rx (fst x) = Some h'" for h'
      using tr trigger_rx_mem [OF \<open>x \<in> set trs\<close> that] assms(3) by auto
  qed
  moreover have "synced v' c None ss" if "ss \<in> set held" for ss
    using that held [OF that] assms(1,3) by (simp add: builder_wf_def synced_def)
  ultimately show "builder_wf v' k c s trs held" using assms(1,3) sup by (auto simp: builder_wf_def)
qed

lemma builder_wf_held:
  assumes "builder_wf v k c s trs held" and "supervised_outcome c p v (Ret (Inr ss)) v'"
  shows "builder_wf v' k c s trs (held @ [ss])"
proof -
  have n: "receivers v (ss_rx ss) = None" "v' = v\<lparr>receivers := (receivers v)(ss_rx ss \<mapsto> (c, True))\<rparr>"
    using assms(2) by (simp_all add: supervised_outcome_def)
  show ?thesis using builder_wf_new_rx [OF assms(1) n] n by (auto simp: builder_wf_def synced_def)
qed

lemma builder_wf_socket:
  assumes "builder_wf v k c s trs held" and "supervised_outcome c Yes v (Ret (Inr ss)) v'"
  shows "builder_wf v' k c s (trs @ [(Uds path ss, ec)]) held"
proof -
  have n: "receivers v (ss_rx ss) = None" "v' = v\<lparr>receivers := (receivers v)(ss_rx ss \<mapsto> (c, True))\<rparr>" "ss_policy ss = Yes"
    using assms(2) by (simp_all add: supervised_outcome_def)
  show ?thesis using builder_wf_new_rx [OF assms(1) n(1,2)] n by (auto simp: builder_wf_def synced_def)
qed

lemma builder_wf_signal: "builder_wf v k c s trs held \<Longrightarrow> builder_wf v k c s (trs @ [(SignalT k' h, ec)]) held"
  by (auto simp: builder_wf_def)

text \<open>The invariant of a builder in a runtime, and that each kind of call keeps it.\<close>

definition bwf :: "('t \<Rightarrow> watch_view) \<Rightarrow> signal_kind \<Rightarrow> nat \<Rightarrow> fd stoppable_stream list \<Rightarrow> ('t, 'w) bstate \<Rightarrow> bool" where
  "bwf view k c held s \<longleftrightarrow> (case s of (b, t, w) \<Rightarrow> builder_wf (view t) k c (te_supervisor (tb_te b)) (tb_triggers b) held)"

lemma bwf_iff [simp]:
  "bwf view k c held (b, t, w) \<longleftrightarrow> builder_wf (view t) k c (te_supervisor (tb_te b)) (tb_triggers b) held"
  by (simp add: bwf_def)

lemma builder_wf_rx: "builder_wf v k c s trs held \<Longrightarrow> \<exists>u. receivers v (sup_rx s) = Some (c, u)"
  by (simp add: builder_wf_def)

lemma onTe_run [simp, prog_simps]:
  "m (tb_te b, t, w) = (x, (te, t', w')) \<Longrightarrow> onTe m (b, t, w) = (x, (b\<lparr>tb_te := te\<rparr>, t', w'))"
  by (simp add: onTe_def)

lemma kept_wf:
  assumes "watch_runtime rt view" and "bwf view k c held s" and "\<exists>m. te_frame m \<and> op = tryP m (supervised rt p)"
    and "kept (onTe op s) = Some (ss, s')"
  shows "bwf view k c (held @ ss) s'"
proof -
  obtain b t w where s: "s = (b, t, w)" by (cases s)
  obtain x te t' w' where x: "op (tb_te b, t, w) = (x, (te, t', w'))" by (metis surj_pair)
  obtain m u where m: "te_frame m" "op = tryP m (supervised rt p)" "receivers (view t) (sup_rx (te_supervisor (tb_te b))) = Some (c, u)"
    using assms(2,3) s builder_wf_rx by fastforce
  have o: "te_supervisor te = te_supervisor (tb_te b)" "supervised_outcome c p (view t) x (view t')"
    using supervised_after [OF assms(1) m(3,1) x [unfolded m(2)]] by simp_all
  have k: "kept (x, (b\<lparr>tb_te := te\<rparr>, t', w')) = Some (ss, s')" using assms(4) s x by simp
  show ?thesis
  proof (cases "\<exists>st. x = Ret (Inr st)")
    case True
    then obtain st where st: "x = Ret (Inr st)" by blast
    have "builder_wf (view t') k c (te_supervisor (tb_te b)) (tb_triggers b) (held @ [st])"
      using builder_wf_held [OF _ o(2) [unfolded st]] assms(2) s by simp
    then show ?thesis using k st o(1) by (auto simp: kept_def)
  next
    case False
    then have "ss = []" "s' = (b\<lparr>tb_te := te\<rparr>, t', w')" "view t' = view t"
      using k o(2) by (auto simp: kept_def supervised_outcome_def split: outcome.splits sum.splits)
    then show ?thesis using assms(2) s o(1) by simp
  qed
qed

lemmas stream_call_wf = kept_wf [OF _ _ stream_methods(1)] kept_wf [OF _ _ stream_methods(2)] kept_wf [OF _ _ stream_methods(3)]
  kept_wf [OF _ _ stream_methods(4)] kept_wf [OF _ _ stream_methods(5)] kept_wf [OF _ _ stream_methods(6)]
  kept_wf [OF _ _ stream_methods(7)] kept_wf [OF _ _ systemd_seqpacket_method]

lemma trigger_on_socket_wf:
  assumes "watch_runtime rt view" and "bwf view k c held s" and "trigger_on_socket rt os path ec s = (x, s')"
  shows "bwf view k c held s'"
proof -
  obtain b t w where s: "s = (b, t, w)" by (cases s)
  obtain y te t' w' where y: "t_listen_unix rt os Yes path (tb_te b, t, w) = (y, (te, t', w'))" by (metis surj_pair)
  obtain m u where m: "te_frame m" "t_listen_unix rt os Yes path = tryP m (supervised rt Yes)"
    "receivers (view t) (sup_rx (te_supervisor (tb_te b))) = Some (c, u)"
    using assms(2) s builder_wf_rx stream_methods(1) by fastforce
  have o: "te_supervisor te = te_supervisor (tb_te b)" "supervised_outcome c Yes (view t) y (view t')"
    using supervised_after [OF assms(1) m(3,1) y [unfolded m(2)]] by simp_all
  note run = assms(3) [unfolded s trigger_on_socket_def]
  show ?thesis
  proof (cases "\<exists>ss. y = Ret (Inr ss)")
    case True
    then obtain ss where ss: "y = Ret (Inr ss)" by blast
    then have "s' = (b\<lparr>tb_te := te, tb_triggers := tb_triggers b @ [(Uds path ss, ec)]\<rparr>, t', w')" using run y by auto
    then show ?thesis using builder_wf_socket [OF _ o(2) [unfolded ss]] assms(2) s o(1) by simp
  next
    case False
    then have "s' = (b\<lparr>tb_te := te\<rparr>, t', w')" "view t' = view t"
      using run y o(2)
      by (auto simp: tryP_def bindP_def supervised_outcome_def split: outcome.splits sum.splits)
    then show ?thesis using assms(2) s o(1) by simp
  qed
qed

lemma trigger_on_signal_wf:
  assumes "watch_runtime rt view" and "bwf view k c held s" and "trigger_on_signal rt k' ec s = (x, s')"
  shows "bwf view k c held s'"
proof -
  obtain b t w where s: "s = (b, t, w)" by (cases s)
  obtain y t' where y: "signal_new rt k' t = (y, t')" by fastforce
  then have "view t' = view t" using watch_runtime.signal_new_view [OF assms(1), of k' t] by simp
  then show ?thesis using assms(2,3) s y builder_wf_signal by (cases y) (auto simp: trigger_on_signal_def)
qed

lemma notifier_calls_wf:
  assumes "bwf view k c held s"
  shows "enable_systemd_notifications os env s = (x, s') \<Longrightarrow> bwf view k c held s'"
    and "extend_systemd_timeouts os d s = (y, s') \<Longrightarrow> bwf view k c held s'"
  using assms
  by (cases s; auto simp: enable_systemd_notifications_def extend_systemd_timeouts_def
      split: prod.splits outcome.splits sum.splits option.splits)+

lemma read_sockets_wf:
  assumes "bwf view k c held s" and "b_read_systemd_sockets os dbg env s = (x, s')"
  shows "bwf view k c held s'"
proof -
  obtain b t w where s: "s = (b, t, w)" by (cases s)
  obtain y te t' w' where y: "t_read_systemd_sockets os dbg env (tb_te b, t, w) = (y, (te, t', w'))" by (metis surj_pair)
  then show ?thesis using te_frameD [OF te_frame_read_sockets y] assms s y by (auto simp: b_read_systemd_sockets_def)
qed

lemma no_streamE:
  assumes "no_stream p = Some (ss, s')"
  obtains r where "p = (Ret r, s')" and "ss = []"
  using assms by (cases p) (auto simp: no_stream_def split: outcome.splits)

lemma make_call_wf:
  assumes "watch_runtime rt view" and "bwf view k c held s" and "make_call rt os dbg env call s = Some (ss, s')"
  shows "bwf view k c (held @ ss) s'"
proof (cases call)
  case (CallSetPidFile p)
  then show ?thesis using assms(2,3) by (cases s) (auto simp: b_set_pid_file_def)
next
  case (CallListenTcp p a)
  then show ?thesis using stream_call_wf(3) [OF assms(1,2)] assms(3) by (simp add: t_listen_tcp_def)
qed (use assms(3) in \<open>auto simp: stop_on_signal_def partial_stop_on_signal_def upgrade_on_socket_def stop_on_socket_def
    partial_stop_on_socket_def simp del: bwf_iff intro: stream_call_wf [OF assms(1,2)] trigger_on_signal_wf [OF assms(1,2)]
    trigger_on_socket_wf [OF assms(1,2)] notifier_calls_wf [OF assms(2)] read_sockets_wf [OF assms(2)] elim!: no_streamE\<close>)

lemma make_calls_wf:
  assumes "watch_runtime rt view" and "bwf view k c held s" and "make_calls rt os dbg env calls s = Some (ss, s')"
  shows "bwf view k c (held @ ss) s'"
  using assms(2,3)
proof (induction calls arbitrary: held s ss)
  case (Cons call calls)
  obtain ss1 s1 ss2 where 1: "make_call rt os dbg env call s = Some (ss1, s1)"
    and 2: "make_calls rt os dbg env calls s1 = Some (ss2, s')" and ss: "ss = ss1 @ ss2"
    using Cons.prems(2) by (auto split: option.splits)
  show ?case using Cons.IH [OF make_call_wf [OF assms(1) Cons.prems(1) 1] 2] ss by simp
qed simp

lemma builder_new_wf:
  assumes "watch_runtime rt view" and "builder_new rt os codec env k (t, w) = (Ret (Inr b), (t', w'))"
  shows "\<exists>c. bwf view k c [] (b, (t', w'))"
proof -
  obtain y t1 where y: "signal_new rt k t = (y, t1)" by fastforce
  then have v: "view t1 = view t" using watch_runtime.signal_new_view [OF assms(1), of k t] by simp
  obtain tx rx t2 where c: "watch_channel rt None t1 = ((tx, rx), t2)" by (metis surj_pair)
  obtain h e where b: "b = \<lparr>tb_te = \<lparr>te_supervisor = \<lparr>sup_tx = tx, sup_rx = rx, sup_state = None\<rparr>, te_inner = e, te_systemd = None\<rparr>,
      tb_triggers = [(SignalT k h, Upgrade)], tb_notifier = None\<rparr>" "t' = t2"
    using assms(2) y c by (auto simp: builder_new_def tokio_ecdysis_new_def supervisor_new_def bindP_def
      split: sum.splits prod.splits outcome.splits)
  show ?thesis using watch_runtime.channel_new [OF assms(1) c] b by (auto simp: builder_wf_def)
qed

lemma b_ready_run:
  assumes "b_ready rt os (b, t, w) = (Ret (Inr u), (b', t', w'))"
  shows "t' = t" and "te_supervisor (up_te u) = te_supervisor (tb_te b)" and "up_triggers u = tb_triggers b"
    and "up_notifier u = tb_notifier b"
proof -
  obtain y e w1 where y: "ready os (te_inner (tb_te b), w) = (y, (e, w1))" by (metis surj_pair)
  have "onTe (onInner (ready os)) (b, t, w) = (y, (b\<lparr>tb_te := (tb_te b)\<lparr>te_inner := e\<rparr>\<rparr>, t, w1))"
    by (rule onTe_run) (simp add: y)
  then have "t' = t \<and> te_supervisor (up_te u) = te_supervisor (tb_te b) \<and> up_triggers u = tb_triggers b \<and> up_notifier u = tb_notifier b"
    using assms by (auto simp: b_ready_def owning_def tryP_def bindP_def split: outcome.splits sum.splits prod.splits)
  then show "t' = t" "te_supervisor (up_te u) = te_supervisor (tb_te b)" "up_triggers u = tb_triggers b" "up_notifier u = tb_notifier b"
    by simp_all
qed

lemma configured:
  assumes "watch_runtime rt view" and "builder_new rt os codec env k (t, w) = (Ret (Inr b), s1)"
    and "make_calls rt os dbg env calls (b, s1) = Some (held, s2)" and "b_ready rt os s2 = (Ret (Inr u), (b', t', w'))"
  shows "\<exists>c. builder_wf (view t') k c (te_supervisor (up_te u)) (up_triggers u) held"
proof -
  obtain t1 w1 b2 t2 w2 where s: "s1 = (t1, w1)" "s2 = (b2, t2, w2)" by (cases s1; cases s2)
  obtain c where "bwf view k c [] (b, t1, w1)" using builder_new_wf [OF assms(1) assms(2) [unfolded s]] by blast
  then have "bwf view k c ([] @ held) (b2, t2, w2)" using make_calls_wf [OF assms(1) _ assms(3) [unfolded s]] by blast
  then show ?thesis using b_ready_run [of rt os b2 t2 w2 u b' t' w'] assms(4) s by auto
qed

end
