(* ===== verification/Accounting.thy ===== *)
theory Accounting
  imports Builder "HOL-Library.Multiset"
begin

text \<open>
  Who owns which descriptor while the builder of \<open>tokio_ecdysis/mod.rs\<close> is configured: the
  registry, the socket triggers and the streams the caller holds. \<open>accounted\<close> is the invariant,
  and every sequence of calls that do not involve systemd keeps it.
\<close>

subsection \<open>Ownership\<close>

fun trigger_fds :: "(trigger \<times> exit_condition) list \<Rightarrow> fd list" where
  "trigger_fds [] = []"
| "trigger_fds ((SignalT k h, ec) # trs) = trigger_fds trs"
| "trigger_fds ((Uds path ss, ec) # trs) = ss_stream ss # trigger_fds trs"

lemma trigger_fds_append [simp]: "trigger_fds (xs @ ys) = trigger_fds xs @ trigger_fds ys"
  by (induction xs rule: trigger_fds.induct) simp_all

text \<open>\<open>base\<close> is the table before, \<open>hs\<close> the descriptors held outside the registry. Every descriptor has one owner and is open, and
  whatever is open and was not before has an owner.\<close>

definition accounted :: "fdtable \<Rightarrow> fdtable \<Rightarrow> registry \<Rightarrow> fd list \<Rightarrow> bool" where
  "accounted base t r hs \<longleftrightarrow> reg_inv t r \<and> distinct (owned_fds r @ hs) \<and> (\<forall>fd\<in>set hs. t fd \<noteq> None)
    \<and> (\<forall>li\<in>set (inherited_list r). base (li_fd li) \<noteq> None)
    \<and> (\<forall>fd. t fd \<noteq> None \<longrightarrow> base fd \<noteq> None \<or> fd \<in> set (owned_fds r @ hs))"

definition result_fds :: "(io_error + fd) outcome \<Rightarrow> fd list" where
  "result_fds x = (case x of Ret (Inr fd) \<Rightarrow> [fd] | _ \<Rightarrow> [])"

lemma accounted_listen:
  assumes "accounted base t r hs" and "reg_inv t' r'" and "listen_outcome t r x t' r'"
  shows "accounted base t' r' (hs @ result_fds x)"
proof -
  have frame: "t' fd = t fd \<and> fd \<notin> set (owned_fds r')" if "t fd \<noteq> None" "fd \<notin> set (owned_fds r)" for fd
    using assms(3) that unfolding listen_outcome_def by blast
  have held: "t fd \<noteq> None" "fd \<notin> set (owned_fds r)" if "fd \<in> set hs" for fd
    using assms(1) that by (auto simp: accounted_def)
  have hs: "t' fd = t fd \<and> fd \<notin> set (owned_fds r')" if "fd \<in> set hs" for fd
    by (rule frame [OF held [OF that]])
  have x: "fd \<notin> set hs" "fd \<notin> set (owned_fds r')" "t' fd \<noteq> None" if "x = Ret (Inr fd)" for fd
    using assms(3) that held [of fd] by (auto simp: listen_outcome_def)
  have sub: "set (used_list r) \<subseteq> set (used_list r')" "set (inherited_list r') \<subseteq> set (inherited_list r)"
    using assms(3) by (simp_all add: listen_outcome_def)
  have "base fd \<noteq> None \<or> fd \<in> set (owned_fds r' @ hs @ result_fds x)" if fd: "t' fd \<noteq> None" for fd
  proof (cases "t fd = None")
    case True
    then have "fd \<in> set (owned_fds r') \<or> x = Ret (Inr fd)" using assms(3) fd by (simp add: listen_outcome_def)
    then show ?thesis by (auto simp: result_fds_def)
  next
    case False
    then have "base fd \<noteq> None \<or> fd \<in> set (owned_fds r) \<or> fd \<in> set hs" using assms(1) by (auto simp: accounted_def)
    moreover have "base fd \<noteq> None \<or> fd \<in> set (owned_fds r')" if "fd \<in> set (owned_fds r)"
      using that sub(1) assms(1) by (auto simp: owned_fds_def accounted_def)
    ultimately show ?thesis by auto
  qed
  moreover have "distinct (owned_fds r' @ hs @ result_fds x)"
    using assms(1,2) hs x by (auto simp: accounted_def reg_inv_def result_fds_def split: outcome.splits sum.splits)
  moreover have "\<forall>fd\<in>set (hs @ result_fds x). t' fd \<noteq> None"
    using assms(1) hs x by (auto simp: accounted_def result_fds_def split: outcome.splits sum.splits)
  ultimately show ?thesis using assms(1,2) sub(2) unfolding accounted_def by (simp add: subset_iff)
qed

lemma accounted_perm: "accounted base t r hs \<Longrightarrow> mset hs' = mset hs \<Longrightarrow> accounted base t r hs'"
  unfolding accounted_def using mset_eq_setD [of hs' hs] mset_eq_imp_distinct_iff [of hs' hs] by auto

subsection \<open>The calls\<close>

text \<open>Calls that do not involve systemd; a closure returns the socket it was given, or fails and drops it.\<close>

fun plain_call :: "'w os \<Rightarrow> ('w \<Rightarrow> fdtable) \<Rightarrow> 'w builder_call \<Rightarrow> bool" where
  "plain_call os fdt (CallBuildListenTcp p a f) = socket_source os fdt (build_socket os STREAM f a)"
| "plain_call os fdt (CallBuildStreamUdp p a f) = socket_source os fdt (build_socket os DGRAM f a)"
| "plain_call os fdt CallEnableNotifications = False"
| "plain_call os fdt (CallExtendTimeouts d) = False"
| "plain_call os fdt CallReadSystemdSockets = False"
| "plain_call os fdt (CallSystemdListenUnix p n path) = False"
| "plain_call os fdt (CallSystemdListenUnixSeqpacket p n path) = False"
| "plain_call os fdt (CallSystemdListenTcp p n a) = False"
| "plain_call os fdt (CallSystemdStreamUdp p n a) = False"
| "plain_call os fdt _ = True"

definition owned_by :: "fdtable \<Rightarrow> ('w \<Rightarrow> fdtable) \<Rightarrow> fd stoppable_stream list \<Rightarrow> ('t, 'w) bstate \<Rightarrow> bool" where
  "owned_by base fdt held = (\<lambda>(b, t, w). accounted base (fdt w) (te_registry (tb_te b)) (trigger_fds (tb_triggers b) @ map ss_stream held))"

lemma listen_call:
  assumes "listen_contract fdt view p op" and "bwf view k c held (b, t, w)" and "owned_by base fdt held (b, t, w)"
  obtains (ok) ss te t' w' where "op (tb_te b, t, w) = (Ret (Inr ss), (te, t', w'))"
      and "accounted base (fdt w') (te_registry te) (trigger_fds (tb_triggers b) @ map ss_stream held @ [ss_stream ss])"
  | (err) e te t' w' where "op (tb_te b, t, w) = (Ret (Inl e), (te, t', w'))"
      and "accounted base (fdt w') (te_registry te) (trigger_fds (tb_triggers b) @ map ss_stream held)"
proof -
  obtain x te t' w' where x: "op (tb_te b, t, w) = (x, (te, t', w'))" by (metis surj_pair)
  obtain u where rx: "receivers (view t) (sup_rx (te_supervisor (tb_te b))) = Some (c, u)" using assms(2) builder_wf_rx by fastforce
  have acc: "accounted base (fdt w) (te_registry (tb_te b)) (trigger_fds (tb_triggers b) @ map ss_stream held)" using assms(3) by (simp add: owned_by_def)
  have "reg_inv (fdt w) (te_registry (tb_te b))" using acc by (simp add: accounted_def)
  then have "reg_inv (fdt w') (te_registry te)"
    and out: "listen_outcome (fdt w) (te_registry (tb_te b)) (map_outcome (map_sum id ss_stream) x) (fdt w') (te_registry te)"
    using assms(1) rx x unfolding listen_contract_def by blast+
  from accounted_listen [OF acc this]
  have acc': "accounted base (fdt w') (te_registry te) (trigger_fds (tb_triggers b) @ map ss_stream held @ result_fds (map_outcome (map_sum id ss_stream) x))"
    by simp
  have "\<exists>r. x = Ret r" using out by (cases x) (auto simp: listen_outcome_def)
  then obtain r where "x = Ret r" by blast
  then show thesis using that x acc' by (cases r) (auto simp: result_fds_def)
qed

lemma kept_call:
  assumes "listen_contract fdt view p op" and "bwf view k c held s" and "owned_by base fdt held s"
  shows "\<exists>ss s'. kept (onTe op s) = Some (ss, s') \<and> owned_by base fdt (held @ ss) s'"
proof -
  obtain b t w where s: "s = (b, t, w)" by (cases s)
  show ?thesis
    by (rule listen_call [OF assms [unfolded s]]) (auto simp: s onTe_def kept_def owned_by_def)
qed

lemma socket_call:
  assumes "listen_contract fdt view Yes (t_listen_unix rt os Yes path)" and "bwf view k c held s" and "owned_by base fdt held s"
  shows "\<exists>x s'. trigger_on_socket rt os path ec s = (Ret x, s') \<and> owned_by base fdt held s'"
proof -
  obtain b t w where s: "s = (b, t, w)" by (cases s)
  show ?thesis
  proof (rule listen_call [OF assms [unfolded s]])
    fix ss te t' w'
    assume run: "t_listen_unix rt os Yes path (tb_te b, t, w) = (Ret (Inr ss), (te, t', w'))"
      and "accounted base (fdt w') (te_registry te) (trigger_fds (tb_triggers b) @ map ss_stream held @ [ss_stream ss])"
    then have "accounted base (fdt w') (te_registry te) (trigger_fds (tb_triggers b) @ ss_stream ss # map ss_stream held)"
      by (elim accounted_perm) simp
    then show ?thesis using s run by (simp add: trigger_on_socket_def owned_by_def)
  next
    fix e te t' w'
    assume "t_listen_unix rt os Yes path (tb_te b, t, w) = (Ret (Inl e), (te, t', w'))"
      and "accounted base (fdt w') (te_registry te) (trigger_fds (tb_triggers b) @ map ss_stream held)"
    then show ?thesis using s by (simp add: trigger_on_socket_def owned_by_def)
  qed
qed

lemma signal_call:
  assumes "owned_by base fdt held s"
  shows "\<exists>x s'. trigger_on_signal rt k ec s = (Ret x, s') \<and> owned_by base fdt held s'"
  using assms by (cases s) (auto simp: trigger_on_signal_def owned_by_def split: prod.splits sum.splits)

lemma no_stream_call: "\<exists>x s'. p = (Ret x, s') \<and> Q s' \<Longrightarrow> \<exists>ss s'. no_stream p = Some (ss, s') \<and> ss = [] \<and> Q s'"
  by (auto simp: no_stream_def)

lemma plain_call_owned:
  assumes "posix os fdt" and "watch_runtime rt view" and "plain_call os fdt call" and "bwf view k c held s" and "owned_by base fdt held s"
  shows "\<exists>ss s'. make_call rt os dbg env call s = Some (ss, s') \<and> owned_by base fdt (held @ ss) s'"
proof -
  note streams = stream_contracts [OF assms(1,2)]
  have kept: "\<exists>ss s'. kept (onTe op s) = Some (ss, s') \<and> owned_by base fdt (held @ ss) s'" if "listen_contract fdt view p op" for p op
    by (rule kept_call [OF that assms(4,5)])
  have socket: "\<exists>ss s'. no_stream (trigger_on_socket rt os path ec s) = Some (ss, s') \<and> owned_by base fdt (held @ ss) s'" for path ec
    using no_stream_call [OF socket_call [OF streams(1) assms(4,5)]] by fastforce
  have signal: "\<exists>ss s'. no_stream (trigger_on_signal rt j ec s) = Some (ss, s') \<and> owned_by base fdt (held @ ss) s'" for j ec
    using no_stream_call [OF signal_call [OF assms(5)]] by fastforce
  show ?thesis
  proof (cases call)
    case (CallSetPidFile p)
    then show ?thesis using assms(5) by (cases s) (simp add: b_set_pid_file_def set_pid_file_def owned_by_def)
  next
    case (CallBuildListenTcp p a f)
    then show ?thesis using kept [OF streams(3)] assms(3) by simp
  next
    case (CallBuildStreamUdp p a f)
    then show ?thesis using kept [OF streams(4)] assms(3) by simp
  qed (use assms(3) kept [OF streams(1)] kept [OF streams(2)] kept [OF streams(5)] socket signal in \<open>simp_all add:
      stop_on_signal_def partial_stop_on_signal_def upgrade_on_socket_def stop_on_socket_def partial_stop_on_socket_def\<close>)
qed

lemma plain_calls_owned:
  assumes "posix os fdt" and "watch_runtime rt view" and "\<forall>call\<in>set calls. plain_call os fdt call" and "bwf view k c held s"
    and "owned_by base fdt held s"
  shows "\<exists>ss s'. make_calls rt os dbg env calls s = Some (ss, s') \<and> owned_by base fdt (held @ ss) s'"
  using assms(3-5)
proof (induction calls arbitrary: held s)
  case (Cons call calls)
  obtain ss s1 where 1: "make_call rt os dbg env call s = Some (ss, s1)" "owned_by base fdt (held @ ss) s1"
    using plain_call_owned [OF assms(1,2) _ Cons.prems(2,3)] Cons.prems(1) by fastforce
  have "bwf view k c (held @ ss) s1" by (rule make_call_wf [OF assms(2) Cons.prems(2) 1(1)])
  from Cons.IH [OF _ this 1(2)] obtain ss' s' where "make_calls rt os dbg env calls s1 = Some (ss', s')" "owned_by base fdt (held @ ss @ ss') s'"
    using Cons.prems(1) by auto
  then show ?case using 1(1) by simp
qed simp

text \<open>
  C12. Configuring a server leaks nothing. After a successful \<open>new\<close>, in the first process or in a
  child, any sequence of calls on the builder that do not involve systemd runs without a panic, errors of
  single calls included; afterwards the registry keeps its invariant; the descriptors of the registry, of the
  socket triggers and of the streams the caller holds are all open and pairwise different; and every
  descriptor that is open and was not when the configuration began belongs to one of them.
\<close>

theorem builder_accounts_descriptors:
  assumes "posix os fdt" and "watch_runtime rt view" and "builder_new rt os codec env k (t, w) = (Ret (Inr b), (t1, w1))"
    and "reg_inv (fdt w1) (te_registry (tb_te b))" and "\<forall>call\<in>set calls. plain_call os fdt call"
  shows "\<exists>held b' t' w'. make_calls rt os dbg env calls (b, t1, w1) = Some (held, (b', t', w'))
    \<and> reg_inv (fdt w') (te_registry (tb_te b'))
    \<and> (let owners = owned_fds (te_registry (tb_te b')) @ trigger_fds (tb_triggers b') @ map ss_stream held
       in distinct owners \<and> (\<forall>fd\<in>set owners. fdt w' fd \<noteq> None) \<and> (\<forall>fd. fdt w1 fd = None \<and> fdt w' fd \<noteq> None \<longrightarrow> fd \<in> set owners))"
proof -
  obtain c where wf: "bwf view k c [] (b, t1, w1)" using builder_new_wf [OF assms(2,3)] by blast
  obtain h where h: "tb_triggers b = [(SignalT k h, Upgrade)]"
    using assms(3) by (auto simp: builder_new_def bindP_def split: sum.splits prod.splits outcome.splits)
  have "accounted (fdt w1) (fdt w1) (te_registry (tb_te b)) []" using assms(4) by (auto simp: accounted_def reg_inv_def)
  then have own: "owned_by (fdt w1) fdt [] (b, t1, w1)" by (simp add: owned_by_def h)
  obtain held b' t' w' where run: "make_calls rt os dbg env calls (b, t1, w1) = Some (held, (b', t', w'))"
    and acc: "accounted (fdt w1) (fdt w') (te_registry (tb_te b')) (trigger_fds (tb_triggers b') @ map ss_stream held)"
    using plain_calls_owned [OF assms(1,2,5) wf own, of dbg env] by (auto simp: owned_by_def)
  have "\<forall>fd\<in>set (owned_fds (te_registry (tb_te b'))). fdt w' fd \<noteq> None" using acc owned_fds_open by (auto simp: accounted_def)
  then show ?thesis using run acc by (auto simp: accounted_def Let_def)
qed

subsection \<open>A concrete configuration\<close>

definition acc_ex_calls :: "kworld builder_call list" where
  "acc_ex_calls = [CallStopOnSignal 15, CallListenTcp Yes (SockV4 0 80), CallStopOnSocket ''/run/stop'', CallListenUnix No ''/run/stop'']"

text \<open>The last call fails, the path being in use.\<close>

lemma acc_ex_new:
  "(case builder_new trt kern bincode_ref Map.empty 1 (t0, kw0) of
      (Ret (Inr b), s1) \<Rightarrow> te_registry (tb_te b) = registry_new
    | _ \<Rightarrow> False)"
  by code_simp

theorem builder_accounts_descriptors_witness:
  "\<exists>b t1 w1 held b' t' w'. builder_new trt kern bincode_ref Map.empty 1 (t0, kw0) = (Ret (Inr b), (t1, w1))
    \<and> make_calls trt kern sd_ex_dbg Map.empty acc_ex_calls (b, t1, w1) = Some (held, (b', t', w'))
    \<and> distinct (owned_fds (te_registry (tb_te b')) @ trigger_fds (tb_triggers b') @ map ss_stream held)"
proof -
  obtain b t1 w1 where new: "builder_new trt kern bincode_ref Map.empty 1 (t0, kw0) = (Ret (Inr b), (t1, w1))"
    and reg: "te_registry (tb_te b) = registry_new"
    using acc_ex_new by (auto split: prod.splits outcome.splits sum.splits)
  have inv: "reg_inv (k_fdt w1) (te_registry (tb_te b))" unfolding reg by (rule reg_inv_start(1))
  have plain: "\<forall>call\<in>set acc_ex_calls. plain_call kern k_fdt call" by (simp add: acc_ex_calls_def)
  from builder_accounts_descriptors [OF kern.posix_axioms trt.watch_runtime_axioms new inv plain, of sd_ex_dbg]
  show ?thesis using new by (auto simp: Let_def)
qed

end
