(* ===== verification/Monitor.thy ===== *)
theory Monitor
  imports Builder
begin

text \<open>
  \<open>TokioEcdysisUpgrader\<close> of \<open>src/tokio_ecdysis/mod.rs\<close>: \<open>monitor\<close> waits
  for a trigger and upgrades or stops.

  The future \<open>monitor\<close> suspends at two places, and what happens meanwhile is an argument. While
  no trigger is ready it waits to be woken: \<open>wakes\<close> is the list of changes of the runtime and the
  world, one before each further poll. While an upgrade runs: \<open>runs\<close> gives, per attempt, the
  schedule of the threads of \<open>upgrade\<close> and the change of the runtime meanwhile.
  \<open>None\<close> is a monitor that still waits when the lists end.

  Both structures share the object (an \<open>Arc\<close>): the upgrader's copy is the one that is tracked.
  Dropping an upgrader drops its triggers and its notifier.
\<close>

subsection \<open>Exits\<close>

datatype exit_mode =
    ExitUpgrade
  | FullStop
  | ExitPartialStop
  | PartialStopWithSystemd systemd_notifier

datatype exit_reason =
    ExitSignal signal_kind
  | ExitUnixListener path

subsection \<open>Notifications\<close>

definition onW :: "('w, 'a) prog \<Rightarrow> (('t, 'w) mstate, 'a) prog" where
  "onW m = (\<lambda>(u, t, up, w). case m w of (x, w') \<Rightarrow> (x, (u, t, up, w')))"

lemma onW_run [simp, prog_simps]: "m w = (x, w') \<Longrightarrow> onW m (u, t, up, w) = (x, (u, t, up, w'))"
  by (simp add: onW_def)

text \<open>\<open>if let Some(systemd_notifier) = ... { ... .map_err(|e| e.to_string())? }\<close>\<close>

definition notify_if :: "'w os \<Rightarrow> (systemd_notifier \<Rightarrow> ('w, io_error + unit) prog) \<Rightarrow> (('t, 'w) mstate, string + unit) prog" where
  "notify_if os msg = (\<lambda>(u, t, up, w). case up_notifier u of
      None \<Rightarrow> (Ret (Inr ()), (u, t, up, w))
    | Some n \<Rightarrow> mapErrP (fmt_io_display os) (onW (msg n)) (u, t, up, w))"

definition initialize :: "'w os \<Rightarrow> (('t, 'w) mstate, string + unit) prog" where
  "initialize os = notify_if os (notify_ready os)"

subsection \<open>Upgrading\<close>

text \<open>One attempt: whether another process holds a pipe end, whether the listeners fit the pipe, the schedule, and what happens
  to the runtime meanwhile.\<close>

record 't up_run =
  ur_holder :: bool
  ur_fits :: bool
  ur_sched :: "label list"
  ur_meanwhile :: "'t \<Rightarrow> 't"

text \<open>The thread sends its result over a oneshot channel; a panic of the thread drops the sender, which the receiver sees
  as an error.\<close>

definition u_upgrade ::
    "'t rt \<Rightarrow> 'w os \<Rightarrow> environment \<Rightarrow> string list \<Rightarrow> 't up_run \<Rightarrow> ('t, 'w) mstate
      \<Rightarrow> ((string + upgrade_finished) outcome \<times> ('t, 'w) mstate) option" where
  "u_upgrade rt os env args run s = (case notify_if os (notify_reloading os) s of
      (Ret (Inl e), s') \<Rightarrow> Some (Ret (Inl e), s')
    | (Panic m, s') \<Rightarrow> Some (Panic m, s')
    | (Exit n, s') \<Rightarrow> Some (Exit n, s')
    | (Ret (Inr x), (u, t, up, w)) \<Rightarrow> (case get_fds_for_child (te_registry (up_te u), w) of
          (Panic m, s') \<Rightarrow> Some (Panic m, (u, t, up, w))
        | (Exit n, s') \<Rightarrow> Some (Exit n, (u, t, up, w))
        | (Ret fds, s') \<Rightarrow>
            (case upgrade os env args (ur_holder run) (ur_fits run) (ur_sched run) fds (up, w) of
              None \<Rightarrow> None
            | Some (res, (up', w')) \<Rightarrow> Some (case res of
                  Ret r \<Rightarrow> Ret (Inr r)
                | Panic m \<Rightarrow> Ret (Inl (recv_error_text rt))
                | Exit n \<Rightarrow> Exit n, (u, ur_meanwhile run t, up', w')))))"

subsection \<open>Waiting for a trigger\<close>

fun poll_triggers ::
    "'t rt \<Rightarrow> 'w os \<Rightarrow> (trigger \<times> exit_condition) list \<Rightarrow> 't \<times> 'w
      \<Rightarrow> ((io_error + trigger_reason \<times> exit_condition) poll outcome \<times> (trigger \<times> exit_condition) list \<times> 't \<times> 'w) option" where
  "poll_triggers rt os [] s = Some (Ret Pending, [], s)"
| "poll_triggers rt os ((tr, ec) # trs) (t, w) = (case trigger_poll_next rt os (tr, t, w) of
      None \<Rightarrow> None
    | Some (Ret (Ready (Some res)), tr', s') \<Rightarrow> Some (Ret (Ready (map_sum id (\<lambda>r. (r, ec)) res)), (tr', ec) # trs, s')
    | Some (Ret (Ready None), tr', s') \<Rightarrow> Some (Panic unreachable_panic, (tr', ec) # trs, s')
    | Some (Ret Pending, tr', s') \<Rightarrow> (case poll_triggers rt os trs s' of
          None \<Rightarrow> None
        | Some (x, trs', s'') \<Rightarrow> Some (x, (tr', ec) # trs', s''))
    | Some (Panic m, tr', s') \<Rightarrow> Some (Panic m, (tr', ec) # trs, s')
    | Some (Exit n, tr', s') \<Rightarrow> Some (Exit n, (tr', ec) # trs, s'))"

type_synonym ('t, 'w) wakes = "('t \<times> 'w \<Rightarrow> 't \<times> 'w) list"

fun monitor_triggers ::
    "'t rt \<Rightarrow> 'w os \<Rightarrow> ('t, 'w) wakes \<Rightarrow> (trigger \<times> exit_condition) list \<Rightarrow> 't \<times> 'w
      \<Rightarrow> ((io_error + trigger_reason \<times> exit_condition) outcome \<times> (trigger \<times> exit_condition) list \<times> ('t \<times> 'w) \<times> ('t, 'w) wakes) option" where
  "monitor_triggers rt os wakes trs s = (case poll_triggers rt os trs s of
      None \<Rightarrow> None
    | Some (Ret (Ready r), trs', s') \<Rightarrow> Some (Ret r, trs', s', wakes)
    | Some (Ret Pending, trs', s') \<Rightarrow> (case wakes of
          [] \<Rightarrow> None
        | f # fs \<Rightarrow> monitor_triggers rt os fs trs' (f s'))
    | Some (Panic m, trs', s') \<Rightarrow> Some (Panic m, trs', s', wakes)
    | Some (Exit n, trs', s') \<Rightarrow> Some (Exit n, trs', s', wakes))"

declare monitor_triggers.simps [simp del]

subsection \<open>Shutting down\<close>

text \<open>\<open>for (trigger, _ec) in self.triggers.drain(..) { trigger.cleanup().await? }\<close>: after an error the rest is dropped.\<close>

fun cleanup_each :: "'t rt \<Rightarrow> 'w os \<Rightarrow> (trigger \<times> exit_condition) list \<Rightarrow> ('t \<times> 'w, string + unit) prog" where
  "cleanup_each rt os [] = returnP (Inr ())"
| "cleanup_each rt os ((tr, ec) # trs) = bindP (cleanup rt os tr) (\<lambda>r. case r of
      Inl e \<Rightarrow> (\<lambda>s. (Ret (Inl e), drop_triggers rt os trs s))
    | Inr u \<Rightarrow> cleanup_each rt os trs)"

definition clean_up_triggers :: "'t rt \<Rightarrow> 'w os \<Rightarrow> (('t, 'w) mstate, string + unit) prog" where
  "clean_up_triggers rt os = (\<lambda>(u, t, up, w). case cleanup_each rt os (up_triggers u) (t, w) of
      (x, (t', w')) \<Rightarrow> (x, (u\<lparr>up_triggers := []\<rparr>, t', up, w')))"

definition on_shutdown :: "'t rt \<Rightarrow> 'w os \<Rightarrow> (('t, 'w) mstate, string + unit) prog" where
  "on_shutdown rt os = tryP (clean_up_triggers rt os) (\<lambda>u. notify_if os (notify_stopping os))"

definition u_quit :: "'t rt \<Rightarrow> 'w os \<Rightarrow> exit_condition \<Rightarrow> (('t, 'w) mstate, string + unit) prog" where
  "u_quit rt os ec = (\<lambda>(u, t, up, w).
    case quit os (te_inner (up_te u), w) of
      (Panic m, (e, w')) \<Rightarrow> (Panic m, (u\<lparr>up_te := (up_te u)\<lparr>te_inner := e\<rparr>\<rparr>, t, up, w'))
    | (Exit n, (e, w')) \<Rightarrow> (Exit n, (u\<lparr>up_te := (up_te u)\<lparr>te_inner := e\<rparr>\<rparr>, t, up, w'))
    | (Ret x, (e, w')) \<Rightarrow>
        (case mapErrP (\<lambda>e. ''Cannot stop supervised listeners!'')
            (stop_all rt (send_error_text rt) (te_supervisor (up_te u)) ec) t of
          (y, t') \<Rightarrow> (y, (u\<lparr>up_te := (up_te u)\<lparr>te_inner := e\<rparr>\<rparr>, t', up, w'))))"

subsection \<open>monitor\<close>

fun exit_reason_of :: "trigger_reason \<Rightarrow> exit_reason" where
  "exit_reason_of (SignalR kind) = ExitSignal kind"
| "exit_reason_of (UnixStreamR path stream) = ExitUnixListener path"

text \<open>Dropping the reason closes the connection that came over a trigger socket.\<close>

fun drop_reason :: "'w os \<Rightarrow> trigger_reason \<Rightarrow> ('t, 'w) mstate \<Rightarrow> ('t, 'w) mstate" where
  "drop_reason os (SignalR kind) s = s"
| "drop_reason os (UnixStreamR path stream) (u, t, up, w) = (u, t, up, snd (sys_close os stream w))"

text \<open>On a partial stop the notifier moves into the result.\<close>

definition partial_exit :: "trigger_reason \<Rightarrow> (('t, 'w) mstate, string + exit_mode \<times> exit_reason) prog" where
  "partial_exit reason = (\<lambda>(u, t, up, w). case up_notifier u of
      Some n \<Rightarrow> (Ret (Inr (PartialStopWithSystemd n, exit_reason_of reason)), (u\<lparr>up_notifier := None\<rparr>, t, up, w))
    | None \<Rightarrow> (Ret (Inr (ExitPartialStop, exit_reason_of reason)), (u, t, up, w)))"

text \<open>The arm of a condition other than \<open>Upgrade\<close>; the connection of the reason is leaked on purpose
  (\<open>mem::forget\<close>).\<close>

definition monitor_stop ::
    "'t rt \<Rightarrow> 'w os \<Rightarrow> trigger_reason \<Rightarrow> exit_condition \<Rightarrow> (('t, 'w) mstate, string + exit_mode \<times> exit_reason) prog" where
  "monitor_stop rt os reason ec = tryP (u_quit rt os ec) (\<lambda>x.
    if ec = PartialStop
    then tryP (clean_up_triggers rt os) (\<lambda>y. partial_exit reason)
    else tryP (on_shutdown rt os) (\<lambda>y. returnP (Inr (FullStop, exit_reason_of reason))))"

text \<open>The arm of a successful upgrade.\<close>

definition monitor_upgraded ::
    "'t rt \<Rightarrow> 'w os \<Rightarrow> trigger_reason \<Rightarrow> (('t, 'w) mstate, string + exit_mode \<times> exit_reason) prog" where
  "monitor_upgraded rt os reason = scoped (drop_reason os reason)
    (tryP (u_quit rt os Upgrade) (\<lambda>x. returnP (Inr (ExitUpgrade, exit_reason_of reason))))"

text \<open>Dying with a message after \<open>on_shutdown\<close>.\<close>

definition shutdown_with :: "'t rt \<Rightarrow> 'w os \<Rightarrow> string \<Rightarrow> (('t, 'w) mstate, string + exit_mode \<times> exit_reason) prog" where
  "shutdown_with rt os msg = tryP (on_shutdown rt os) (\<lambda>x. returnP (Inl msg))"

text \<open>One turn of the loop: it returns, or goes round again after a failed upgrade. \<open>run\<close> is the attempt to use if
  this turn upgrades.\<close>

datatype ('t, 'w) turn =
    Returned "(string + exit_mode \<times> exit_reason) outcome" "('t, 'w) mstate"
  | Again "('t, 'w) wakes" "('t, 'w) mstate"

definition returned_turn :: "(string + exit_mode \<times> exit_reason) outcome \<times> ('t, 'w) mstate \<Rightarrow> ('t, 'w) turn" where
  "returned_turn r = Returned (fst r) (snd r)"

text \<open>After \<open>self.upgrade().await\<close>.\<close>

definition upgrade_arm ::
    "'t rt \<Rightarrow> 'w os \<Rightarrow> trigger_reason \<Rightarrow> ('t, 'w) wakes \<Rightarrow> (string + upgrade_finished) outcome \<times> ('t, 'w) mstate
      \<Rightarrow> ('t, 'w) turn" where
  "upgrade_arm rt os reason wakes = (\<lambda>(x, s). case x of
      Ret (Inr (Inr y)) \<Rightarrow> returned_turn (monitor_upgraded rt os reason s)
    | Ret (Inr (Inl e)) \<Rightarrow> (case s of (u, t, up, w) \<Rightarrow>
        (case onW (write_pidfile os (te_inner (up_te u))) s of
          (Ret ignored, s') \<Rightarrow> Again wakes (drop_reason os reason s')
        | (Panic m, s') \<Rightarrow> Returned (Panic m) (drop_reason os reason s')
        | (Exit n, s') \<Rightarrow> Returned (Exit n) s'))
    | Ret (Inl err_str) \<Rightarrow> returned_turn (scoped (drop_reason os reason)
        (shutdown_with rt os (''Encountered a problem during upgrade: '' @ err_str)) s)
    | Panic m \<Rightarrow> Returned (Panic m) (drop_reason os reason s)
    | Exit n \<Rightarrow> Returned (Exit n) s)"

definition monitor_turn ::
    "'t rt \<Rightarrow> 'w os \<Rightarrow> environment \<Rightarrow> string list \<Rightarrow> ('t, 'w) wakes \<Rightarrow> 't up_run option \<Rightarrow> ('t, 'w) mstate
      \<Rightarrow> ('t, 'w) turn option" where
  "monitor_turn rt os env args wakes run s = (case initialize os s of
      (Ret (Inl e), s1) \<Rightarrow> Some (Returned (Ret (Inl e)) s1)
    | (Panic m, s1) \<Rightarrow> Some (Returned (Panic m) s1)
    | (Exit n, s1) \<Rightarrow> Some (Returned (Exit n) s1)
    | (Ret (Inr x), (u, t, up, w)) \<Rightarrow> (case monitor_triggers rt os wakes (up_triggers u) (t, w) of
          None \<Rightarrow> None
        | Some (r, trs, (t', w'), wakes') \<Rightarrow> (let s2 = (u\<lparr>up_triggers := trs\<rparr>, t', up, w') in case r of
              Panic m \<Rightarrow> Some (Returned (Panic m) s2)
            | Exit n \<Rightarrow> Some (Returned (Exit n) s2)
            | Ret (Inl e) \<Rightarrow> Some (returned_turn
                (shutdown_with rt os (''Encountered error while polling triggers: '' @ fmt_io_display os e) s2))
            | Ret (Inr (reason, ec)) \<Rightarrow>
                if ec \<noteq> Upgrade then Some (returned_turn (monitor_stop rt os reason ec s2))
                else (case run of
                    None \<Rightarrow> None
                  | Some r \<Rightarrow> map_option (upgrade_arm rt os reason wakes') (u_upgrade rt os env args r s2)))))"

fun monitor_loop ::
    "'t rt \<Rightarrow> 'w os \<Rightarrow> environment \<Rightarrow> string list \<Rightarrow> ('t, 'w) wakes \<Rightarrow> 't up_run list \<Rightarrow> ('t, 'w) mstate
      \<Rightarrow> ((string + exit_mode \<times> exit_reason) outcome \<times> ('t, 'w) mstate) option" where
  "monitor_loop rt os env args wakes [] s = (case monitor_turn rt os env args wakes None s of
      Some (Returned x s') \<Rightarrow> Some (x, s')
    | _ \<Rightarrow> None)"
| "monitor_loop rt os env args wakes (r # runs) s = (case monitor_turn rt os env args wakes (Some r) s of
      Some (Returned x s') \<Rightarrow> Some (x, s')
    | Some (Again wakes' s') \<Rightarrow> monitor_loop rt os env args wakes' runs s'
    | None \<Rightarrow> None)"

text \<open>\<open>monitor\<close> consumes the upgrader: what is left of it is dropped at the end.\<close>

definition drop_upgrader :: "'t rt \<Rightarrow> 'w os \<Rightarrow> ('t, 'w) mstate \<Rightarrow> ('t, 'w) mstate" where
  "drop_upgrader rt os = (\<lambda>(u, t, up, w). case drop_triggers rt os (up_triggers u) (t, w) of
      (t', w') \<Rightarrow> (u\<lparr>up_triggers := [], up_notifier := None\<rparr>, t', up, drop_notifier os (up_notifier u) w'))"

definition monitor ::
    "'t rt \<Rightarrow> 'w os \<Rightarrow> environment \<Rightarrow> string list \<Rightarrow> ('t, 'w) wakes \<Rightarrow> 't up_run list \<Rightarrow> ('t, 'w) mstate
      \<Rightarrow> ((string + exit_mode \<times> exit_reason) outcome \<times> ('t, 'w) mstate) option" where
  "monitor rt os env args wakes runs s = (case monitor_loop rt os env args wakes runs s of
      Some (Ret r, s') \<Rightarrow> Some (Ret r, drop_upgrader rt os s')
    | Some (Panic m, s') \<Rightarrow> Some (Panic m, drop_upgrader rt os s')
    | Some (Exit n, s') \<Rightarrow> Some (Exit n, s')
    | None \<Rightarrow> None)"

subsection \<open>Stopped for good\<close>

text \<open>The channel of sender \<open>tx\<close> carries \<open>ec\<close>, and no receiver on it has seen it yet.\<close>

definition told :: "watch_view \<Rightarrow> handle \<Rightarrow> exit_condition \<Rightarrow> bool" where
  "told v tx ec \<longleftrightarrow> (\<exists>c. senders v tx = Some c \<and> chan_value v c = Some (Some ec)
    \<and> (\<forall>h b. receivers v h = Some (c, b) \<longrightarrow> b))"

lemma told_drop: "told v tx ec \<Longrightarrow> told (v\<lparr>receivers := (receivers v)(h := None)\<rparr>) tx ec"
  by (auto simp: told_def)

lemma cleanup_run:
  obtains x t' w' where "cleanup rt os tr (t, w) = (Ret x, (t', w'))"
    and "t' = t \<or> (\<exists>h. t' = watch_drop rt h t)"
proof (cases tr)
  case (Uds path ss)
  obtain y w1 where "remove_file os path w = (y, w1)" by fastforce
  then show thesis using that Uds by (cases y) (auto simp: drop_stream_def)
qed (use that in auto)

context watch_runtime
begin

lemma drop_trigger_told: "told (view t) tx ec \<Longrightarrow> told (view (fst (drop_trigger rt os tr (t, w)))) tx ec"
  by (cases tr) (simp_all add: drop_stream_def drop_gone told_drop)

lemma drop_triggers_told: "told (view t) tx ec \<Longrightarrow> told (view (fst (drop_triggers rt os trs (t, w)))) tx ec"
proof (induction trs arbitrary: t w)
  case (Cons a trs)
  obtain tr e where a: "a = (tr, e)" by fastforce
  obtain t1 w1 where "drop_trigger rt os tr (t, w) = (t1, w1)" by fastforce
  then show ?case using Cons drop_trigger_told [OF Cons.prems, of os tr w] a by simp
qed simp

lemma cleanup_each_told:
  assumes "cleanup_each rt os trs (t, w) = (x, (t', w'))" and "told (view t) tx ec"
  shows "told (view t') tx ec"
  using assms
proof (induction trs arbitrary: t w)
  case (Cons a trs)
  obtain tr e where a: "a = (tr, e)" by fastforce
  obtain y t1 w1 where c: "cleanup rt os tr (t, w) = (Ret y, (t1, w1))" and "t1 = t \<or> (\<exists>h. t1 = watch_drop rt h t)"
    by (rule cleanup_run)
  then have t1: "told (view t1) tx ec" using Cons.prems(2) by (auto simp: drop_gone told_drop)
  show ?case
  proof (cases y)
    case (Inl err)
    then show ?thesis using c Cons.prems(1) a drop_triggers_told [OF t1, of os trs w1] by auto
  next
    case (Inr u)
    then show ?thesis using c Cons.prems(1) a Cons.IH [OF _ t1] by simp
  qed
qed simp

lemma u_quit_okE:
  assumes "u_quit rt os ec (u, t, up, w) = (Ret (Inr x), (u', t', up', w'))"
  obtains e where "quit os (te_inner (up_te u), w) = (Ret (), (e, w'))" and "u' = u\<lparr>up_te := (up_te u)\<lparr>te_inner := e\<rparr>\<rparr>"
    and "used_list (ec_registry e) = []" and "up' = up" and "told (view t') (sup_tx (te_supervisor (up_te u))) ec"
proof -
  obtain q e w1 where q: "quit os (te_inner (up_te u), w) = (q, (e, w1))" by (metis surj_pair)
  obtain y t1 where y: "watch_send rt (sup_tx (te_supervisor (up_te u))) (Some ec) t = (y, t1)" by fastforce
  have q': "q = Ret ()" "w' = w1" "u' = u\<lparr>up_te := (up_te u)\<lparr>te_inner := e\<rparr>\<rparr>" "up' = up" "y = Inr ()" "t' = t1"
    using assms q y by (auto simp: u_quit_def stop_all_def split: outcome.splits sum.splits)
      (cases y; auto)+
  have "used_list (ec_registry e) = []"
    using q q'(1) by (auto simp: quit_def onReg_def close_used_def Let_def bindP_def onSnd_def split: if_splits prod.splits outcome.splits)
  moreover have "told (view t') (sup_tx (te_supervisor (up_te u))) ec"
    using send_means [of "sup_tx (te_supervisor (up_te u))" "Some ec" t t1] y q'
    by (auto simp: told_def mark_unseen_def split: option.splits)
  ultimately show thesis using that q q' by blast
qed

end

lemma notify_if_frame:
  "notify_if os msg (u, t, up, w) = (x, (u', t', up', w')) \<Longrightarrow> u' = u \<and> t' = t \<and> up' = up"
  by (auto simp: notify_if_def mapErrP_def bindP_def onW_def returnP_def split: option.splits prod.splits outcome.splits)

lemma clean_up_triggersD:
  "clean_up_triggers rt os (u, t, up, w) = (x, (u', t', up', w')) \<Longrightarrow>
    u' = u\<lparr>up_triggers := []\<rparr> \<and> up' = up \<and> cleanup_each rt os (up_triggers u) (t, w) = (x, (t', w'))"
  by (auto simp: clean_up_triggers_def split: prod.splits)

lemma on_shutdown_okE:
  assumes "on_shutdown rt os (u, t, up, w) = (Ret (Inr x), (u', t', up', w'))"
  obtains w1 where "cleanup_each rt os (up_triggers u) (t, w) = (Ret (Inr ()), (t', w1))"
    and "notify_if os (notify_stopping os) (u\<lparr>up_triggers := []\<rparr>, t', up, w1) = (Ret (Inr x), (u', t', up', w'))"
    and "u' = u\<lparr>up_triggers := []\<rparr>" and "up' = up"
  using assms unfolding on_shutdown_def
proof (rule tryP_OkE)
  fix a s1
  assume 1: "clean_up_triggers rt os (u, t, up, w) = (Ret (Inr a), s1)"
    and 2: "notify_if os (notify_stopping os) s1 = (Ret (Inr x), (u', t', up', w'))"
  obtain u1 t1 up1 w1 where s1: "s1 = (u1, t1, up1, w1)" by (cases s1) auto
  have c: "u1 = u\<lparr>up_triggers := []\<rparr>" "up1 = up" "cleanup_each rt os (up_triggers u) (t, w) = (Ret (Inr a), (t1, w1))"
    using clean_up_triggersD [OF 1 [unfolded s1]] by simp_all
  have "u' = u1" "t' = t1" "up' = up1" using notify_if_frame [OF 2 [unfolded s1]] by simp_all
  then show thesis using that [of w1] c 2 s1 by simp
qed

fun mode_condition :: "exit_mode \<Rightarrow> exit_condition" where
  "mode_condition ExitUpgrade = Upgrade"
| "mode_condition FullStop = Stop"
| "mode_condition ExitPartialStop = PartialStop"
| "mode_condition (PartialStopWithSystemd n) = PartialStop"

definition exit_state :: "('t \<Rightarrow> watch_view) \<Rightarrow> exit_mode \<Rightarrow> ('t, 'w) mstate \<Rightarrow> bool" where
  "exit_state view mode = (\<lambda>(u, t, up, w). used_list (te_registry (up_te u)) = []
    \<and> told (view t) (sup_tx (te_supervisor (up_te u))) (mode_condition mode))"

context watch_runtime
begin

lemma monitor_stop_exit:
  assumes "monitor_stop rt os reason ec (u, t, up, w) = (Ret (Inr (mode, r)), (u', t', up', w'))" and "ec \<noteq> Upgrade"
  obtains e w1 t1 where "quit os (te_inner (up_te u), w) = (Ret (), (e, w1))"
    and "exit_state view mode (u', t', up', w')" and "r = exit_reason_of reason"
    and "if ec = PartialStop
      then cleanup_each rt os (up_triggers u) (t1, w1) = (Ret (Inr ()), (t', w'))
        \<and> mode = (case up_notifier u of None \<Rightarrow> ExitPartialStop | Some n \<Rightarrow> PartialStopWithSystemd n)
      else mode = FullStop \<and> on_shutdown rt os (u\<lparr>up_te := (up_te u)\<lparr>te_inner := e\<rparr>\<rparr>, t1, up, w1) = (Ret (Inr ()), (u', t', up', w'))"
  using assms(1) unfolding monitor_stop_def
proof (rule tryP_OkE)
  fix a s1
  assume 1: "u_quit rt os ec (u, t, up, w) = (Ret (Inr a), s1)"
    and 2: "(if ec = PartialStop then tryP (clean_up_triggers rt os) (\<lambda>y. partial_exit reason)
      else tryP (on_shutdown rt os) (\<lambda>y. returnP (Inr (FullStop, exit_reason_of reason)))) s1
      = (Ret (Inr (mode, r)), (u', t', up', w'))"
  obtain u1 t1 up1 w1 where s1: "s1 = (u1, t1, up1, w1)" by (cases s1) auto
  obtain e where q: "quit os (te_inner (up_te u), w) = (Ret (), (e, w1))" "u1 = u\<lparr>up_te := (up_te u)\<lparr>te_inner := e\<rparr>\<rparr>"
    "used_list (ec_registry e) = []" "up1 = up" "told (view t1) (sup_tx (te_supervisor (up_te u))) ec"
    using u_quit_okE 1 s1 by metis
  show thesis
  proof (cases "ec = PartialStop")
    case True
    then obtain u2 t2 up2 w2 y where c: "clean_up_triggers rt os (u1, t1, up1, w1) = (Ret (Inr y), (u2, t2, up2, w2))"
      and res: "partial_exit reason (u2, t2, up2, w2) = (Ret (Inr (mode, r)), (u', t', up', w'))"
      using 2 s1 by (auto elim!: tryP_OkE)
    have c': "u2 = u1\<lparr>up_triggers := []\<rparr>" "up2 = up1" "cleanup_each rt os (up_triggers u1) (t1, w1) = (Ret (Inr y), (t2, w2))"
      using clean_up_triggersD [OF c] by simp_all
    then show thesis using that [of e w1 t1] q res True cleanup_each_told [OF c'(3) q(5)]
      by (auto simp: exit_state_def partial_exit_def split: option.splits)
  next
    case False
    then obtain y where d: "on_shutdown rt os (u1, t1, up1, w1) = (Ret (Inr y), (u', t', up', w'))"
      "mode = FullStop" "r = exit_reason_of reason"
      using 2 s1 by (auto elim!: tryP_OkE)
    obtain w2 where w2: "cleanup_each rt os (up_triggers u1) (t1, w1) = (Ret (Inr ()), (t', w2))" "u' = u1\<lparr>up_triggers := []\<rparr>"
      using on_shutdown_okE [OF d(1)] by metis
    have "ec = Stop" using False assms(2) by (cases ec) auto
    then show thesis using that [of e w1 t1] q d w2 False cleanup_each_told [OF w2(1) q(5)]
      by (auto simp: exit_state_def)
  qed
qed

lemma drop_reason_frame: "drop_reason os reason (u, t, up, w) = (u', t', up', w') \<Longrightarrow> u' = u \<and> t' = t \<and> up' = up"
  by (cases reason) auto

lemma exit_state_drop_reason: "exit_state view mode (drop_reason os reason s) = exit_state view mode s"
  by (cases s; cases reason) (auto simp: exit_state_def)

lemma monitor_upgraded_exit:
  assumes "monitor_upgraded rt os reason (u, t, up, w) = (Ret (Inr (mode, r)), s')"
  shows "mode = ExitUpgrade \<and> r = exit_reason_of reason \<and> exit_state view mode s'"
proof -
  obtain s1 where s1: "tryP (u_quit rt os Upgrade) (\<lambda>x. returnP (Inr (ExitUpgrade, exit_reason_of reason))) (u, t, up, w)
      = (Ret (Inr (mode, r)), s1)" and s': "s' = drop_reason os reason s1"
    using assms by (auto simp: monitor_upgraded_def scoped_def split: prod.splits outcome.splits)
  obtain a where a: "u_quit rt os Upgrade (u, t, up, w) = (Ret (Inr a), s1)" "mode = ExitUpgrade" "r = exit_reason_of reason"
    using s1 by (auto elim!: tryP_OkE)
  obtain u1 t1 up1 w1 where s: "s1 = (u1, t1, up1, w1)" by (cases s1) auto
  have "exit_state view mode s1"
    by (rule u_quit_okE [OF a(1) [unfolded s]]) (use a s in \<open>auto simp: exit_state_def\<close>)
  then show ?thesis using a s' by (simp add: exit_state_drop_reason)
qed

lemma shutdown_with_not_ok: "fst (shutdown_with rt os msg s) \<noteq> Ret (Inr y)"
  by (cases "shutdown_with rt os msg s") (auto simp: shutdown_with_def elim!: tryP_OkE)

lemma scoped_shutdown_not_ok: "fst (scoped c (shutdown_with rt os msg) s) \<noteq> Ret (Inr y)"
  using shutdown_with_not_ok [of os msg s y] by (auto simp: scoped_def split: prod.splits outcome.splits)

lemma upgrade_arm_exit:
  assumes "upgrade_arm rt os reason wakes (x, s) = Returned (Ret (Inr (mode, r))) s'"
  shows "exit_state view mode s' \<and> (\<exists>y. x = Ret (Inr (Inr y)) \<and> mode = ExitUpgrade)"
proof -
  obtain u t up w where s: "s = (u, t, up, w)" by (cases s) auto
  show ?thesis
  proof (cases "\<exists>y. x = Ret (Inr (Inr y))")
    case True
    then have "monitor_upgraded rt os reason (u, t, up, w) = (Ret (Inr (mode, r)), s')"
      using assms s by (cases "monitor_upgraded rt os reason s") (auto simp: upgrade_arm_def returned_turn_def)
    from monitor_upgraded_exit [OF this] show ?thesis using True by blast
  next
    case False
    then show ?thesis using assms s
      by (auto simp: upgrade_arm_def returned_turn_def scoped_shutdown_not_ok split: outcome.splits sum.splits prod.splits)
  qed
qed

lemma monitor_turn_exit:
  assumes "monitor_turn rt os env args wakes run s = Some (Returned (Ret (Inr (mode, r))) s')"
  shows "exit_state view mode s'"
proof -
  obtain u t up w x trs t1 w1 wakes' where m: "monitor_triggers rt os wakes (up_triggers u) (t, w) = Some (x, trs, (t1, w1), wakes')"
    and i: "initialize os s = (Ret (Inr ()), (u, t, up, w))"
    using assms by (auto simp: monitor_turn_def split: prod.splits outcome.splits sum.splits option.splits)
  let ?s2 = "(u\<lparr>up_triggers := trs\<rparr>, t1, up, w1)"
  obtain reason ec where x: "x = Ret (Inr (reason, ec))"
    using assms m i
    by (auto simp: monitor_turn_def Let_def returned_turn_def shutdown_with_not_ok split: outcome.splits sum.splits)
  show ?thesis
  proof (cases "ec = Upgrade")
    case True
    then obtain rn q where "u_upgrade rt os env args rn ?s2 = Some q" "upgrade_arm rt os reason wakes' q = Returned (Ret (Inr (mode, r))) s'"
      using assms m i x by (auto simp: monitor_turn_def Let_def split: option.splits)
    then show ?thesis using upgrade_arm_exit by (cases q) blast
  next
    case False
    then have "monitor_stop rt os reason ec ?s2 = (Ret (Inr (mode, r)), s')"
      using assms m i x by (cases "monitor_stop rt os reason ec ?s2") (auto simp: monitor_turn_def Let_def returned_turn_def)
    moreover obtain u' t' up' w' where "s' = (u', t', up', w')" by (cases s') auto
    ultimately show ?thesis using monitor_stop_exit [OF _ False] by metis
  qed
qed

lemma monitor_loop_exit:
  assumes "monitor_loop rt os env args wakes runs s = Some (Ret (Inr (mode, r)), s')"
  shows "exit_state view mode s'"
  using assms
proof (induction runs arbitrary: wakes s)
  case Nil
  then show ?case by (auto split: option.splits turn.splits dest: monitor_turn_exit)
next
  case (Cons a runs)
  then show ?case by (auto split: option.splits turn.splits dest: monitor_turn_exit)
qed

lemma drop_upgrader_exit:
  assumes "exit_state view mode s"
  shows "exit_state view mode (drop_upgrader rt os s)"
proof -
  obtain u t up w where s: "s = (u, t, up, w)" by (cases s) auto
  obtain t' w' where d: "drop_triggers rt os (up_triggers u) (t, w) = (t', w')" by fastforce
  then show ?thesis using assms s drop_triggers_told [of t "sup_tx (te_supervisor (up_te u))" "mode_condition mode" os "up_triggers u" w]
    by (simp add: exit_state_def drop_upgrader_def)
qed

lemma told_stream_ends:
  assumes "senders (view t) tx = Some c" and "told (view t) tx ec" and "receivers (view t) (ss_rx ss) = Some (c, b)"
    and "\<not> should_continue (ss_policy ss) (Some ec)"
  shows "\<exists>q. stoppable_poll_next rt inner (ss, t, w) = Some (Ret (Ready None), q)"
proof -
  have c: "chan_value (view t) c = Some (Some ec)" "b" using assms(1-3) by (auto simp: told_def)
  then have "synced (view t) c (Some ec) ss" using assms(3) by (simp add: synced_def)
  from stoppable_poll [OF c(1) this, of inner w] show ?thesis using assms(4) by fastforce
qed

end

subsection \<open>Properties: how the monitor ends\<close>

text \<open>
  C7. When \<open>monitor\<close> returns \<open>Ok\<close>, whatever the environment did and however many
  upgrades failed before: the registry has given up all its descriptors, the supervisor's channel carries the
  condition of the exit mode, and every stream it supervises whose policy does not let it continue in that
  condition ends at its next poll. For \<open>ExitMode::Upgrade\<close> these are all of them.
\<close>

theorem monitor_exit_stops_streams:
  assumes "watch_runtime rt view"
    and "monitor rt os env args wakes runs s = Some (Ret (Inr (mode, reason)), (u', t', up', w'))"
  shows "used_list (te_registry (up_te u')) = []
    \<and> (\<exists>c. senders (view t') (sup_tx (te_supervisor (up_te u'))) = Some c
      \<and> chan_value (view t') c = Some (Some (mode_condition mode))
      \<and> \<not> (\<exists>ss b. receivers (view t') (ss_rx ss) = Some (c, b) \<and> \<not> should_continue (ss_policy ss) (Some (mode_condition mode))
          \<and> \<not> (\<exists>q. stoppable_poll_next rt inner (ss, t', v) = Some (Ret (Ready None), q))))"
proof -
  obtain s1 where s1: "monitor_loop rt os env args wakes runs s = Some (Ret (Inr (mode, reason)), s1)"
    "(u', t', up', w') = drop_upgrader rt os s1"
    using assms(2) by (auto simp: monitor_def split: option.splits prod.splits outcome.splits)
  then have x: "exit_state view mode (u', t', up', w')"
    using watch_runtime.monitor_loop_exit [OF assms(1)] watch_runtime.drop_upgrader_exit [OF assms(1)] by metis
  then have told: "told (view t') (sup_tx (te_supervisor (up_te u'))) (mode_condition mode)" by (simp add: exit_state_def)
  then obtain c where c: "senders (view t') (sup_tx (te_supervisor (up_te u'))) = Some c"
    "chan_value (view t') c = Some (Some (mode_condition mode))" by (auto simp: told_def)
  have "\<exists>q. stoppable_poll_next rt inner (ss, t', v) = Some (Ret (Ready None), q)"
    if "receivers (view t') (ss_rx ss) = Some (c, b)" "\<not> should_continue (ss_policy ss) (Some (mode_condition mode))" for ss b
    by (rule watch_runtime.told_stream_ends [OF assms(1) c(1) told that])
  then show ?thesis using x c by (auto simp: exit_state_def)
qed

subsection \<open>Properties: what a stop leaves behind\<close>

text \<open>A view of what the calls of a shutdown do: the datagrams sent and the names in the file system.\<close>

locale shutdown_world =
  fixes os :: "'w os" and sent :: "'w \<Rightarrow> (fd \<times> string) list" and paths :: "'w \<Rightarrow> path set"
  assumes send_ok: "dgram_send os fd b w = (Inr x, w') \<Longrightarrow> sent w' = sent w @ [(fd, b)] \<and> paths w' = paths w"
    and close_keeps: "sent (snd (sys_close os fd w)) = sent w" "paths (snd (sys_close os fd w)) = paths w"
    and remove_ok: "remove_file os p w = (Inr x, w') \<Longrightarrow> sent w' = sent w \<and> paths w' = paths w - {p}"

fun trigger_paths :: "(trigger \<times> exit_condition) list \<Rightarrow> path set" where
  "trigger_paths [] = {}"
| "trigger_paths ((SignalT kind h, ec) # trs) = trigger_paths trs"
| "trigger_paths ((Uds path ss, ec) # trs) = insert path (trigger_paths trs)"

context shutdown_world
begin

lemma close_each_keeps: "close_each os lis w = (x, w') \<Longrightarrow> sent w' = sent w \<and> paths w' = paths w"
proof (induction lis arbitrary: w)
  case (Cons li lis)
  have "close_fd_quiet os (li_fd li) w = (Ret (), snd (sys_close os (li_fd li) w))"
    by (simp add: close_fd_quiet_def split: prod.splits)
  then show ?case using Cons close_keeps by simp
qed simp

lemma quit_keeps:
  assumes "quit os (e, w) = (Ret x, (e', w'))"
  shows "sent w' = sent w \<and> paths w' = paths w"
proof -
  obtain y w1 where y: "close_each os (used_list (ec_registry e)) w = (y, w1)" by fastforce
  then have "w' = w1"
    using assms by (cases y) (auto simp: quit_def onReg_def close_used_def Let_def split: if_splits)
  then show ?thesis using close_each_keeps [OF y] by simp
qed

lemma cleanup_each_ok:
  "cleanup_each rt os trs (t, w) = (Ret (Inr x), (t', w')) \<Longrightarrow> sent w' = sent w \<and> paths w' = paths w - trigger_paths trs"
proof (induction trs arbitrary: t w rule: trigger_paths.induct)
  case (3 path ss ec trs)
  obtain y w1 where y: "remove_file os path w = (y, w1)" by fastforce
  show ?case
  proof (cases y)
    case (Inr u)
    let ?s = "drop_stream rt os ss (t, w1)"
    have "cleanup_each rt os trs ?s = (Ret (Inr x), (t', w'))" using 3(2) y Inr by simp
    then have "sent w' = sent (snd ?s) \<and> paths w' = paths (snd ?s) - trigger_paths trs"
      using 3(1) by (cases ?s) simp
    then show ?thesis using remove_ok [of path w u w1] y Inr close_keeps by (auto simp: drop_stream_def)
  qed (use 3(2) y in simp)
qed simp_all

lemma notify_stopping_ok:
  assumes "notify_if os (notify_stopping os) (u, t, up, w) = (Ret (Inr x), (u', t', up', w'))"
  shows "paths w' = paths w
    \<and> sent w' = sent w @ (case up_notifier u of None \<Rightarrow> [] | Some n \<Rightarrow> [(notify_socket n, ''STOPPING=1'')])"
proof (cases "up_notifier u")
  case (Some n)
  obtain y w1 where y: "dgram_send os (notify_socket n) ''STOPPING=1'' w = (y, w1)" by fastforce
  have "notify_stopping os n w = mapErrP (\<lambda>e. Custom (io_error_kind e) (''Failed to send notification to systemd: '' @ fmt_io_display os e))
      (liftP (dgram_send os (notify_socket n) ''STOPPING=1'')) w"
    by (simp add: notify_stopping_def notify_def notify_message_def notify_bytes_def)
  then show ?thesis using assms Some y send_ok [of "notify_socket n" "''STOPPING=1''" w _ w1]
    by (cases y) (auto simp: notify_if_def)
qed (use assms in \<open>auto simp: notify_if_def\<close>)

end

text \<open>
  C13. A stop cleans up: when the arm of a stop returns \<open>Ok\<close>, the path of every trigger socket is
  removed and no other name, and the reason names the trigger. On a full stop systemd is told
  \<open>STOPPING=1\<close>, once, if notifications are enabled; on a partial stop nothing is sent and the
  notifier is handed to the caller instead.
\<close>

theorem stop_cleans_up:
  assumes "watch_runtime rt view" and "shutdown_world os sent paths" and "ec \<noteq> Upgrade"
    and "monitor_stop rt os reason ec (u, t, up, w) = (Ret (Inr (mode, r)), (u', t', up', w'))"
  shows "paths w' = paths w - trigger_paths (up_triggers u) \<and> r = exit_reason_of reason
    \<and> (if ec = PartialStop
       then sent w' = sent w \<and> mode = (case up_notifier u of None \<Rightarrow> ExitPartialStop | Some n \<Rightarrow> PartialStopWithSystemd n)
       else mode = FullStop
        \<and> sent w' = sent w @ (case up_notifier u of None \<Rightarrow> [] | Some n \<Rightarrow> [(notify_socket n, ''STOPPING=1'')]))"
proof (rule watch_runtime.monitor_stop_exit [OF assms(1,4,3)])
  fix e w1 t1
  assume q: "quit os (te_inner (up_te u), w) = (Ret (), (e, w1))" and r: "r = exit_reason_of reason"
    and arm: "if ec = PartialStop
      then cleanup_each rt os (up_triggers u) (t1, w1) = (Ret (Inr ()), (t', w'))
        \<and> mode = (case up_notifier u of None \<Rightarrow> ExitPartialStop | Some n \<Rightarrow> PartialStopWithSystemd n)
      else mode = FullStop \<and> on_shutdown rt os (u\<lparr>up_te := (up_te u)\<lparr>te_inner := e\<rparr>\<rparr>, t1, up, w1) = (Ret (Inr ()), (u', t', up', w'))"
  have w1: "sent w1 = sent w" "paths w1 = paths w" using shutdown_world.quit_keeps [OF assms(2) q] by simp_all
  show ?thesis
  proof (cases "ec = PartialStop")
    case True
    then show ?thesis using arm r w1 shutdown_world.cleanup_each_ok [OF assms(2), of rt "up_triggers u" t1 w1 "()" t' w'] by simp
  next
    case False
    let ?u = "u\<lparr>up_te := (up_te u)\<lparr>te_inner := e\<rparr>\<rparr>"
    have s: "on_shutdown rt os (?u, t1, up, w1) = (Ret (Inr ()), (u', t', up', w'))" using arm False by simp
    obtain w2 where c: "cleanup_each rt os (up_triggers u) (t1, w1) = (Ret (Inr ()), (t', w2))"
      and n: "notify_if os (notify_stopping os) (?u\<lparr>up_triggers := []\<rparr>, t', up, w2) = (Ret (Inr ()), (u', t', up', w'))"
      by (rule on_shutdown_okE [OF s]) simp
    then show ?thesis using arm False r w1 shutdown_world.cleanup_each_ok [OF assms(2) c] shutdown_world.notify_stopping_ok [OF assms(2) n]
      by simp
  qed
qed

text \<open>
  A successful upgrade leaves the trigger sockets to the child: it removes no name, sends systemd nothing and keeps the triggers
  until the end; the connection that asked for the upgrade is closed only after the registry and the streams are.
\<close>

theorem upgrade_leaves_paths:
  assumes "watch_runtime rt view" and "shutdown_world os sent paths"
    and "monitor_upgraded rt os reason (u, t, up, w) = (Ret (Inr (mode, r)), s')"
  shows "\<exists>u1 t1 w1. u_quit rt os Upgrade (u, t, up, w) = (Ret (Inr ()), (u1, t1, up, w1))
    \<and> up_triggers u1 = up_triggers u \<and> s' = drop_reason os reason (u1, t1, up, w1)
    \<and> sent (snd (snd (snd s'))) = sent w \<and> paths (snd (snd (snd s'))) = paths w \<and> mode = ExitUpgrade"
proof -
  obtain s1 where s1: "tryP (u_quit rt os Upgrade) (\<lambda>x. returnP (Inr (ExitUpgrade, exit_reason_of reason))) (u, t, up, w)
      = (Ret (Inr (mode, r)), s1)" and s': "s' = drop_reason os reason s1"
    using assms(3) by (auto simp: monitor_upgraded_def scoped_def split: prod.splits outcome.splits)
  obtain u1 t1 up1 w1 where s: "s1 = (u1, t1, up1, w1)" by (cases s1) auto
  have a: "u_quit rt os Upgrade (u, t, up, w) = (Ret (Inr ()), (u1, t1, up1, w1))" "mode = ExitUpgrade"
    using s1 s by (auto elim!: tryP_OkE)
  obtain e where e: "quit os (te_inner (up_te u), w) = (Ret (), (e, w1))" "u1 = u\<lparr>up_te := (up_te u)\<lparr>te_inner := e\<rparr>\<rparr>" "up1 = up"
    using watch_runtime.u_quit_okE [OF assms(1) a(1)] by metis
  have "sent w1 = sent w" "paths w1 = paths w" using shutdown_world.quit_keeps [OF assms(2) e(1)] by simp_all
  then show ?thesis using a e s s' shutdown_world.close_keeps [OF assms(2)] by (cases reason) auto
qed

interpretation kern_shutdown: shutdown_world kern k_outbox "\<lambda>w. dom (k_fs w)"
  by unfold_locales
    (auto simp: kern_def k_send_def k_close_def k_remove_def k_unlink_def k_fs_def filter_fst_map_of
      split: option.splits if_splits)

subsection \<open>Properties: a failed upgrade\<close>

lemma poll_triggers_conditions:
  "poll_triggers rt os trs s = Some (x, trs', s') \<Longrightarrow> map snd trs' = map snd trs"
proof (induction trs arbitrary: s x trs' s')
  case (Cons a trs)
  obtain tr ec t w where a: "a = (tr, ec)" "s = (t, w)" by (metis surj_pair)
  obtain y tr1 s1 where y: "trigger_poll_next rt os (tr, t, w) = Some (y, tr1, s1)"
    using Cons.prems a by (auto split: option.splits)
  show ?case
  proof (cases "y = Ret Pending")
    case True
    then show ?thesis using Cons y a by (cases s1) (auto split: option.splits)
  next
    case False
    then show ?thesis using Cons.prems y a by (auto split: outcome.splits poll.splits option.splits)
  qed
qed simp

lemma monitor_triggers_conditions:
  "monitor_triggers rt os wakes trs s = Some (x, trs', s', wakes') \<Longrightarrow> map snd trs' = map snd trs"
proof (induction wakes arbitrary: trs s)
  case Nil
  then show ?case
    by (auto simp: monitor_triggers.simps [of _ _ "[]"] dest: poll_triggers_conditions split: option.splits outcome.splits poll.splits)
next
  case (Cons f fs)
  obtain y trs1 s1 where y: "poll_triggers rt os trs s = Some (y, trs1, s1)"
    using Cons.prems by (auto simp: monitor_triggers.simps [of _ _ "f # fs"] split: option.splits)
  note y' = poll_triggers_conditions [OF y]
  show ?case
  proof (cases "y = Ret Pending")
    case True
    then show ?thesis using Cons y y' by (simp add: monitor_triggers.simps [of _ _ "f # fs"])
  next
    case False
    then show ?thesis using Cons.prems y y'
      by (auto simp: monitor_triggers.simps [of _ _ "f # fs"] split: outcome.splits poll.splits)
  qed
qed

lemma upgrade_arm_again:
  assumes "upgrade_arm rt os reason wakes (x, (u, t, up, w)) = Again wakes' (u', t', up', w')"
  obtains err ign w1 where "x = Ret (Inr (Inl err))" and "write_pidfile os (te_inner (up_te u)) w = (Ret ign, w1)"
    and "drop_reason os reason (u, t, up, w1) = (u', t', up', w')" and "wakes' = wakes"
  using assms by (cases "write_pidfile os (te_inner (up_te u)) w")
    (auto simp: upgrade_arm_def returned_turn_def split: outcome.splits sum.splits)

lemma u_upgrade_runE:
  assumes "u_upgrade rt os env args run (u, t, up, w) = Some (Ret (Inr r), (u', t', up', w'))"
  obtains w1 where "u' = u" and "upgrade os env args (ur_holder run) (ur_fits run) (ur_sched run)
    (used_list (te_registry (up_te u))) (up, w1) = Some (Ret r, (up', w'))"
proof -
  obtain n w1 where n: "notify_if os (notify_reloading os) (u, t, up, w) = (Ret (Inr n), (u, t, up, w1))"
    using assms notify_if_frame [of os "notify_reloading os" u t up w]
    by (auto simp: u_upgrade_def split: prod.splits outcome.splits sum.splits)
  then show thesis using that [of w1] assms
    by (auto simp: u_upgrade_def get_fds_for_child_def split: if_splits option.splits outcome.splits)
qed

lemma upgrade_arm_someE:
  assumes "map_option (upgrade_arm rt os reason wakes) q = Some y"
  obtains x u t up w where "q = Some (x, (u, t, up, w))" and "upgrade_arm rt os reason wakes (x, (u, t, up, w)) = y"
  using assms by (cases q) auto

lemma monitor_turn_again:
  assumes "monitor_turn rt os env args wakes run (u, t, up, w) = Some (Again wakes' (u', t', up', w'))"
  obtains r w1 t1 trs reason where "run = Some r" and "map snd trs = map snd (up_triggers u)"
    and "map_option (upgrade_arm rt os reason wakes') (u_upgrade rt os env args r (u\<lparr>up_triggers := trs\<rparr>, t1, up, w1))
      = Some (Again wakes' (u', t', up', w'))"
proof -
  obtain x u0 t0 up0 w0 where i: "initialize os (u, t, up, w) = (x, (u0, t0, up0, w0))" by (metis surj_pair)
  then have f: "u0 = u" "t0 = t" "up0 = up" using notify_if_frame unfolding initialize_def by metis+
  obtain y trs t1 w1 wakes1 where m: "monitor_triggers rt os wakes (up_triggers u) (t, w0) = Some (y, trs, (t1, w1), wakes1)"
    and x: "x = Ret (Inr ())"
    using assms i f by (auto simp: monitor_turn_def split: outcome.splits sum.splits option.splits)
  obtain reason r where y: "y = Ret (Inr (reason, Upgrade))" "run = Some r"
    and arm: "map_option (upgrade_arm rt os reason wakes1) (u_upgrade rt os env args r (u\<lparr>up_triggers := trs\<rparr>, t1, up, w1))
      = Some (Again wakes' (u', t', up', w'))"
    using assms i f m x
    by (auto simp: monitor_turn_def Let_def returned_turn_def split: outcome.splits sum.splits option.splits if_splits)
  from arm have "wakes' = wakes1" by (rule upgrade_arm_someE) (erule upgrade_arm_again, simp)
  then show thesis using that [of r trs reason t1 w1] y arm monitor_triggers_conditions [OF m] by simp
qed

lemma monitor_turn_again_object:
  assumes "monitor_turn rt os env args wakes run (u, t, up, w) = Some (Again wakes' (u', t', up', w'))"
  shows "up_te u' = up_te u"
proof (rule monitor_turn_again [OF assms])
  fix r w1 t1 trs reason
  assume "map_option (upgrade_arm rt os reason wakes') (u_upgrade rt os env args r (u\<lparr>up_triggers := trs\<rparr>, t1, up, w1))
      = Some (Again wakes' (u', t', up', w'))"
  then obtain x u2 t2 up2 w2 where u: "u_upgrade rt os env args r (u\<lparr>up_triggers := trs\<rparr>, t1, up, w1) = Some (x, (u2, t2, up2, w2))"
    and arm: "upgrade_arm rt os reason wakes' (x, (u2, t2, up2, w2)) = Again wakes' (u', t', up', w')"
    by (rule upgrade_arm_someE)
  obtain err w3 where e: "x = Ret (Inr (Inl err))" "drop_reason os reason (u2, t2, up2, w3) = (u', t', up', w')"
    using upgrade_arm_again [OF arm] by metis
  have "u2 = u\<lparr>up_triggers := trs\<rparr>" using u_upgrade_runE [OF u [unfolded e(1)]] by metis
  then show ?thesis using e(2) by (cases reason) auto
qed

text \<open>
  C10. The loop goes round only after an upgrade that returned an error, and it changes nothing it should keep: the object
  with its registry and supervisor, the notifier and the conditions of the triggers are the same, so the next turn offers the next
  child the same sockets; and the pid file, if there is one, names this process again.
\<close>

theorem failed_upgrade_keeps_serving:
  assumes "posix_files os fs"
    and "monitor_turn rt os env args wakes run (u, t, up, w) = Some (Again wakes' (u', t', up', w'))"
  shows "up_te u' = up_te u \<and> up_notifier u' = up_notifier u \<and> map snd (up_triggers u') = map snd (up_triggers u)
    \<and> (\<exists>r w1 err w2. run = Some r
      \<and> upgrade os env args (ur_holder r) (ur_fits r) (ur_sched r) (used_list (te_registry (up_te u))) (up, w1)
        = Some (Ret (Inl err), (up', w2))
      \<and> fs w' = (case pid_file (te_inner (up_te u)) of
            None \<Rightarrow> fs w2
          | Some pf \<Rightarrow> (fs w2)(pf \<mapsto> show_int (sys_getpid os w2))))"
proof (rule monitor_turn_again [OF assms(2)])
  fix r w1 t1 trs reason
  assume run: "run = Some r" and trs: "map snd trs = map snd (up_triggers u)"
    and arm: "map_option (upgrade_arm rt os reason wakes') (u_upgrade rt os env args r (u\<lparr>up_triggers := trs\<rparr>, t1, up, w1))
      = Some (Again wakes' (u', t', up', w'))"
  let ?u = "u\<lparr>up_triggers := trs\<rparr>"
  obtain x u2 t2 up2 w2 where up: "u_upgrade rt os env args r (?u, t1, up, w1) = Some (x, (u2, t2, up2, w2))"
    and arm': "upgrade_arm rt os reason wakes' (x, (u2, t2, up2, w2)) = Again wakes' (u', t', up', w')"
    using arm by (rule upgrade_arm_someE)
  obtain err ign w3 where e: "x = Ret (Inr (Inl err))" "write_pidfile os (te_inner (up_te u2)) w2 = (Ret ign, w3)"
    "drop_reason os reason (u2, t2, up2, w3) = (u', t', up', w')"
    using upgrade_arm_again [OF arm'] by metis
  obtain w4 where u: "u2 = ?u" "upgrade os env args (ur_holder r) (ur_fits r) (ur_sched r)
    (used_list (te_registry (up_te ?u))) (up, w4) = Some (Ret (Inl err), (up2, w2))"
    using u_upgrade_runE [OF up [unfolded e(1)]] by metis
  have frame: "u' = ?u" "up' = up2" "fs w' = fs w3"
    using e(3) u(1) posix_files.close_files [OF assms(1)] by (cases reason; auto)+
  have "fs w3 = (case pid_file (te_inner (up_te u)) of None \<Rightarrow> fs w2 | Some pf \<Rightarrow> (fs w2)(pf \<mapsto> show_int (sys_getpid os w2)))"
  proof (cases "pid_file (te_inner (up_te u))")
    case (Some pf)
    then have "write_pid_file os pf w2 = (Ret ign, w3)" using e(2) u(1) by (simp add: write_pidfile_def)
    then show ?thesis using Some by (cases rule: posix_files.write_pid_file_cases [OF assms(1)]) auto
  qed (use e(2) u(1) in \<open>simp add: write_pidfile_def\<close>)
  then show ?thesis using run u frame trs by auto
qed

subsection \<open>Which upgrade ended the monitor\<close>

context watch_runtime
begin

lemma monitor_turn_upgraded:
  assumes "monitor_turn rt os env args wakes run (u, t, up, w) = Some (Returned (Ret (Inr (ExitUpgrade, r))) s')"
  obtains rn w1 up2 w2 where "run = Some rn" and "upgrade os env args (ur_holder rn) (ur_fits rn) (ur_sched rn)
    (used_list (te_registry (up_te u))) (up, w1) = Some (Ret (Inr ()), (up2, w2))"
proof -
  obtain x u0 t0 up0 w0 where i: "initialize os (u, t, up, w) = (x, (u0, t0, up0, w0))" by (metis surj_pair)
  then have f: "u0 = u" "t0 = t" "up0 = up" using notify_if_frame unfolding initialize_def by metis+
  obtain y trs t1 w1 wakes1 where m: "monitor_triggers rt os wakes (up_triggers u) (t, w0) = Some (y, trs, (t1, w1), wakes1)"
    and x: "x = Ret (Inr ())"
    using assms i f by (auto simp: monitor_turn_def split: outcome.splits sum.splits option.splits)
  let ?s2 = "(u\<lparr>up_triggers := trs\<rparr>, t1, up, w1)"
  obtain reason ec where y: "y = Ret (Inr (reason, ec))"
    using assms i f m x by (auto simp: monitor_turn_def Let_def returned_turn_def shutdown_with_not_ok split: outcome.splits sum.splits)
  have ec: "ec = Upgrade"
  proof (rule ccontr)
    assume "ec \<noteq> Upgrade"
    then have stop: "monitor_stop rt os reason ec ?s2 = (Ret (Inr (ExitUpgrade, r)), s')"
      using assms i f m x y by (cases "monitor_stop rt os reason ec ?s2") (auto simp: monitor_turn_def Let_def returned_turn_def)
    obtain u' t' up' w' where s': "s' = (u', t', up', w')" by (cases s') auto
    show False using stop \<open>ec \<noteq> Upgrade\<close> unfolding s' by (rule monitor_stop_exit) (simp split: if_splits option.splits)
  qed
  then obtain rn where run: "run = Some rn"
    and arm: "map_option (upgrade_arm rt os reason wakes1) (u_upgrade rt os env args rn ?s2) = Some (Returned (Ret (Inr (ExitUpgrade, r))) s')"
    using assms i f m x y by (auto simp: monitor_turn_def Let_def split: option.splits)
  obtain z u2 t2 up2 w2 where z: "u_upgrade rt os env args rn ?s2 = Some (z, (u2, t2, up2, w2))"
    and a: "upgrade_arm rt os reason wakes1 (z, (u2, t2, up2, w2)) = Returned (Ret (Inr (ExitUpgrade, r))) s'"
    using arm by (rule upgrade_arm_someE)
  obtain v where v: "z = Ret (Inr (Inr v))" using upgrade_arm_exit [OF a] by blast
  show thesis using z unfolding v by (rule u_upgrade_runE) (use that [OF run] in simp)
qed

lemma monitor_loop_upgraded:
  assumes "monitor_loop rt os env args wakes runs (u, t, up, w) = Some (Ret (Inr (ExitUpgrade, r)), s')"
  obtains rn up1 w1 up2 w2 where "rn \<in> set runs" and "upgrade os env args (ur_holder rn) (ur_fits rn) (ur_sched rn)
    (used_list (te_registry (up_te u))) (up1, w1) = Some (Ret (Inr ()), (up2, w2))"
  using assms
proof (induction runs arbitrary: thesis wakes u t up w)
  case Nil
  then have "monitor_turn rt os env args wakes None (u, t, up, w) = Some (Returned (Ret (Inr (ExitUpgrade, r))) s')"
    by (auto split: option.splits turn.splits)
  then show ?case by (rule monitor_turn_upgraded) simp
next
  case (Cons rn runs)
  obtain tn where turn: "monitor_turn rt os env args wakes (Some rn) (u, t, up, w) = Some tn"
    using Cons.prems(2) by (auto split: option.splits)
  show ?case
  proof (cases tn)
    case (Returned x s1)
    then have "monitor_turn rt os env args wakes (Some rn) (u, t, up, w) = Some (Returned (Ret (Inr (ExitUpgrade, r))) s')"
      using Cons.prems(2) turn by simp
    then show ?thesis by (rule monitor_turn_upgraded) (use Cons.prems(1) [of rn] in simp)
  next
    case (Again wakes' s1)
    obtain u1 t1 up1 w1 where s1: "s1 = (u1, t1, up1, w1)" by (cases s1) auto
    then have u1: "up_te u1 = up_te u" using monitor_turn_again_object [of rt os env args wakes "Some rn" u t up w] turn Again by simp
    have loop: "monitor_loop rt os env args wakes' runs (u1, t1, up1, w1) = Some (Ret (Inr (ExitUpgrade, r)), s')"
      using Cons.prems(2) turn Again s1 by simp
    show ?thesis by (rule Cons.IH [OF _ loop]) (rule Cons.prems(1), erule list.set_intros(2), simp add: u1)
  qed
qed

end

subsection \<open>Properties: polling the triggers\<close>

context watch_runtime
begin

lemma trigger_poll:
  assumes "chan_value (view t) c = Some st" and "trigger_synced (view t) c st tr"
  obtains p tr' t' w' where "trigger_poll_next rt os (tr, t, w) = Some (Ret (poll_map Some p), tr', t', w')"
    and "trigger_rx tr' = trigger_rx tr" and "trigger_synced (view t') c st tr'" and "chan_value (view t') c = Some st"
    and "\<forall>h. trigger_rx tr \<noteq> Some h \<longrightarrow> receivers (view t') h = receivers (view t) h"
proof (cases tr)
  case (SignalT kind h)
  then show thesis using signal_trigger_poll [of os kind h t w st] assms(1) that [of "trigger_answer rt os st tr t w" tr] by auto
next
  case (Uds path ss)
  then have ss: "synced (view t) c st ss" "ss_policy ss = Yes" using assms(2) by simp_all
  obtain t' w' where "trigger_poll_next rt os (Uds path ss, t, w) = Some (
      Ret (poll_map Some (trigger_answer rt os st (Uds path ss) t w)), Uds path (ss\<lparr>ss_state := st\<rparr>), t', w')"
    "view t' = see (ss_rx ss) c (view t)"
    using uds_trigger_poll [OF assms(1) ss(1), of os path w] by auto
  then show thesis using Uds ss assms(1) that [of "trigger_answer rt os st tr t w" "Uds path (ss\<lparr>ss_state := st\<rparr>)" t' w']
    by (auto simp: synced_def see_def simp del: trigger_answer.simps)
qed

lemma poll_triggers_run:
  assumes "chan_value (view t) c = Some st" and "triggers_synced (view t) c st trs"
  shows "\<exists>x trs' t' w'. poll_triggers rt os trs (t, w) = Some (Ret x, trs', t', w') \<and> triggers_synced (view t') c st trs'
    \<and> trigger_rxs trs' = trigger_rxs trs \<and> chan_value (view t') c = Some st
    \<and> (\<forall>h. h \<notin> set (trigger_rxs trs) \<longrightarrow> receivers (view t') h = receivers (view t) h)"
  using assms
proof (induction trs arbitrary: t w)
  case (Cons a trs)
  obtain tr ec where a: "a = (tr, ec)" by fastforce
  have tr: "trigger_synced (view t) c st tr" using Cons.prems(2) a by (simp add: triggers_synced_def)
  obtain p tr1 t1 w1 where poll: "trigger_poll_next rt os (tr, t, w) = Some (Ret (poll_map Some p), tr1, t1, w1)"
    and tr1: "trigger_rx tr1 = trigger_rx tr" "trigger_synced (view t1) c st tr1" "chan_value (view t1) c = Some st"
    and fr: "\<forall>h. trigger_rx tr \<noteq> Some h \<longrightarrow> receivers (view t1) h = receivers (view t) h"
    by (rule trigger_poll [OF Cons.prems(1) tr, of os w])
  have d: "distinct (trigger_rxs trs)" "trigger_rx tr = Some h \<Longrightarrow> h \<notin> set (trigger_rxs trs)" for h
    using Cons.prems(2) a by (auto simp: triggers_synced_def split: option.splits)
  have "trigger_synced (view t1) c st (fst y)" if "y \<in> set trs" for y
  proof (rule trigger_synced_frame)
    show "trigger_synced (view t) c st (fst y)" using that Cons.prems(2) by (simp add: triggers_synced_def)
    show "receivers (view t1) h = receivers (view t) h" if "trigger_rx (fst y) = Some h" for h
      using fr d(2) trigger_rx_mem [OF \<open>y \<in> set trs\<close> that] by blast
  qed
  then have tail: "triggers_synced (view t1) c st trs" using d(1) by (simp add: triggers_synced_def)
  have head: "triggers_synced (view t2) c st ((tr1, ec) # trs2)"
    if "triggers_synced (view t2) c st trs2" "trigger_rxs trs2 = trigger_rxs trs" "trigger_synced (view t2) c st tr1" for t2 trs2
    using that d tr1(1) by (auto simp: triggers_synced_def split: option.splits)
  show ?case
  proof (cases p)
    case (Ready r)
    then have "poll_triggers rt os (a # trs) (t, w) = Some (Ret (Ready (map_sum id (\<lambda>r. (r, ec)) r)), (tr1, ec) # trs, t1, w1)"
      using poll a by simp
    then show ?thesis using head [OF tail _ tr1(2)] tr1 fr a by (auto split: option.splits)
  next
    case Pending
    obtain x trs2 t2 w2 where r: "poll_triggers rt os trs (t1, w1) = Some (Ret x, trs2, t2, w2)"
      "triggers_synced (view t2) c st trs2" "trigger_rxs trs2 = trigger_rxs trs" "chan_value (view t2) c = Some st"
      and fr2: "\<forall>h. h \<notin> set (trigger_rxs trs) \<longrightarrow> receivers (view t2) h = receivers (view t1) h"
      using Cons.IH [OF tr1(3) tail] by blast
    have "trigger_synced (view t2) c st tr1"
      using tr1(2) by (rule trigger_synced_frame) (use fr2 d(2) tr1(1) in auto)
    then have "triggers_synced (view t2) c st ((tr1, ec) # trs2)" using head r(2,3) by blast
    moreover have "poll_triggers rt os (a # trs) (t, w) = Some (Ret x, (tr1, ec) # trs2, t2, w2)"
      using poll a Pending r(1) by simp
    moreover have "receivers (view t2) h = receivers (view t) h" if "h \<notin> set (trigger_rxs (a # trs))" for h
      using that a fr fr2 by (auto split: option.splits)
    ultimately show ?thesis using r a tr1(1) by auto
  qed
qed (auto simp: triggers_synced_def)

end

text \<open>
  C22. Polling the triggers always returns: with every trigger in step with the supervisor's channel, one poll
  of all of them ends without a panic (the \<open>unreachable!\<close> of \<open>poll_triggers\<close> is not
  reached), in every state of the runtime and for every run state, and leaves the triggers in step.
\<close>

theorem poll_triggers_returns:
  assumes "watch_runtime rt view" and "chan_value (view t) c = Some st" and "triggers_synced (view t) c st trs"
  shows "\<exists>x trs' t' w'. poll_triggers rt os trs (t, w) = Some (Ret x, trs', t', w')
    \<and> triggers_synced (view t') c st trs' \<and> chan_value (view t') c = Some st"
  using watch_runtime.poll_triggers_run [OF assms, of os w] by blast

text \<open>
  C11. What the builder builds, the monitor can run. After a successful \<open>new\<close>, any sequence of
  configuration and listen calls (errors of single calls ignored, as a caller may) and a successful
  \<open>ready\<close>, the upgrader is well formed: its first trigger is the upgrade signal, every trigger
  and every stream the caller holds has a receiver of its own on the supervisor's channel, in step with it,
  and no condition has been broadcast; so the first poll of the triggers returns, without a panic.
\<close>

theorem builder_gives_monitorable:
  assumes "watch_runtime rt view" and "builder_new rt os codec env k (t, w) = (Ret (Inr b), s1)"
    and "make_calls rt os dbg env calls (b, s1) = Some (held, s2)" and "b_ready rt os s2 = (Ret (Inr u), (b', t', w'))"
  shows "\<exists>c. builder_wf (view t') k c (te_supervisor (up_te u)) (up_triggers u) held
    \<and> (\<exists>x trs t'' w''. poll_triggers rt os (up_triggers u) (t', w') = Some (Ret x, trs, t'', w'') \<and> triggers_synced (view t'') c None trs)"
proof -
  obtain c where wf: "builder_wf (view t') k c (te_supervisor (up_te u)) (up_triggers u) held" using configured [OF assms] by blast
  then have "chan_value (view t') c = Some None" "triggers_synced (view t') c None (up_triggers u)"
    by (auto simp: builder_wf_def triggers_synced_def)
  from watch_runtime.poll_triggers_run [OF assms(1) this, of os w'] show ?thesis using wf by blast
qed

fun reason_from :: "trigger \<Rightarrow> trigger_reason \<Rightarrow> bool" where
  "reason_from (SignalT kind h) (SignalR kind') = (kind' = kind)"
| "reason_from (Uds path ss) (UnixStreamR path' stream) = (path' = path)"
| "reason_from _ _ = False"

lemma trigger_reason_from:
  assumes "trigger_poll_next rt os (tr, t, w) = Some (Ret (Ready (Some (Inr reason))), q)"
  shows "reason_from tr reason"
proof (cases tr)
  case (SignalT kind h)
  then show ?thesis using assms by (auto simp: trigger_poll_next_def split: prod.splits poll.splits option.splits)
next
  case (Uds path ss)
  then obtain r where "uds_reason os path r = Inr reason"
    using assms by (auto simp: trigger_poll_next_def split: prod.splits poll.splits option.splits outcome.splits)
  then show ?thesis using Uds by (cases "(os, path, r)" rule: uds_reason.cases) auto
qed

lemma map_sum_pair: "map_sum id (\<lambda>r. (r, ec)) x = Inr (reason, ec') \<longleftrightarrow> x = Inr reason \<and> ec = ec'"
  by (cases x) auto

text \<open>
  C24. Triggers are asked in the order of registration: a poll that is ready was decided by one trigger, whose
  condition it carries and whose signal or path the reason names; the triggers after it were not polled. So of
  two triggers on one signal the one registered first decides.
\<close>

theorem poll_triggers_first:
  assumes "poll_triggers rt os trs (t, w) = Some (Ret (Ready (Inr (reason, ec))), trs', s')"
  shows "\<exists>i<length trs. drop (Suc i) trs' = drop (Suc i) trs \<and> ec = snd (trs ! i) \<and> reason_from (fst (trs ! i)) reason
    \<and> (\<exists>trs'' t' w'. poll_triggers rt os (take i trs) (t, w) = Some (Ret Pending, trs'', t', w') \<and> trs'' = take i trs')"
  using assms
proof (induction trs arbitrary: t w trs')
  case (Cons a trs)
  obtain tr ec1 where a: "a = (tr, ec1)" by fastforce
  obtain y tr1 t1 w1 where y: "trigger_poll_next rt os (tr, t, w) = Some (y, tr1, t1, w1)"
    using Cons.prems a by (auto split: option.splits)
  show ?case
  proof (cases "y = Ret Pending")
    case True
    obtain trs2 where r: "poll_triggers rt os trs (t1, w1) = Some (Ret (Ready (Inr (reason, ec))), trs2, s')" "trs' = (tr1, ec1) # trs2"
      using Cons.prems a y True by (auto split: option.splits)
    obtain i t2 w2 where i: "i < length trs" "drop (Suc i) trs2 = drop (Suc i) trs" "ec = snd (trs ! i)" "reason_from (fst (trs ! i)) reason"
      "poll_triggers rt os (take i trs) (t1, w1) = Some (Ret Pending, take i trs2, t2, w2)"
      using Cons.IH [OF r(1)] by blast
    then show ?thesis using a y True r(2) by (intro exI [of _ "Suc i"]) simp
  next
    case False
    then have "y = Ret (Ready (Some (Inr reason)))" "ec1 = ec" "trs' = (tr1, ec1) # trs"
      using Cons.prems a y by (auto simp: map_sum_pair split: outcome.splits poll.splits option.splits)
    then show ?thesis using a trigger_reason_from y by (intro exI [of _ 0]) auto
  qed
qed simp

subsection \<open>Concrete runs\<close>

text \<open>An upgrader that upgrades on signal 1, and stops on signal 15 or a connection to \<open>/run/stop\<close>; \<open>raised\<close> are the signal streams with
  an unread signal, \<open>up\<close> the flag.\<close>

definition mon_ex :: "systemd_notifier option \<Rightarrow> handle list \<Rightarrow> bool \<Rightarrow> (tokio_rt, kworld) mstate" where
  "mon_ex notifier raised up = (\<lparr>up_te = te_ex, up_triggers = [(SignalT 1 0, Upgrade), (SignalT 15 1, Stop),
       (Uds ''/run/stop'' \<lparr>ss_stream = 9, ss_policy = Yes, ss_rx = 2, ss_state = None\<rparr>, Stop)], up_notifier = notifier\<rparr>,
     (sup_ex_rt None True)\<lparr>t_rx := [(2, (1, True)), (1, (1, True))], t_signals := [(0, 1), (1, 15)], t_raised := raised\<rparr>, up,
     ec_ex_world\<lparr>k_files := [(''/run/stop'', [])], k_fds := (8, \<lparr>cloexec = True, ofd = 20\<rparr>) # (9, \<lparr>cloexec = True, ofd = 21\<rparr>) # k_fds ec_ex_world\<rparr>)"

definition mon_run :: "tokio_rt up_run" where
  "mon_run = \<lparr>ur_holder = False, ur_fits = True, ur_sched = [], ur_meanwhile = id\<rparr>"

lemma mon_ex_stops:
  "map_option fst (monitor trt kern Map.empty [] [] [] (mon_ex None [1] False)) = Some (Ret (Inr (FullStop, ExitSignal 15)))"
  by code_simp

lemma mon_ex_again:
  "(case monitor_turn trt kern Map.empty [''srv''] [] (Some mon_run) (mon_ex None [0] True) of Some (Again wakes s) \<Rightarrow> True | _ \<Rightarrow> False)"
  by code_simp

lemma mon_ex_stop_arm: "fst (monitor_stop trt kern (SignalR 15) Stop (mon_ex (Some \<lparr>notify_socket = 8\<rparr>) [] False)) = Ret (Inr (FullStop, ExitSignal 15))"
  by code_simp

lemma mon_ex_upgraded: "fst (monitor_upgraded trt kern (SignalR 1) (mon_ex None [] False)) = Ret (Inr (ExitUpgrade, ExitSignal 1))"
  by code_simp

lemma mon_ex_trigger:
  "map_option fst (poll_triggers trt kern (up_triggers (fst (mon_ex None [1] False))) (fst (snd (mon_ex None [1] False)), kw0))
    = Some (Ret (Ready (Inr (SignalR 15, Stop))))"
  by code_simp

theorem monitor_exit_stops_streams_witness:
  "\<exists>u' t' up' w'. monitor trt kern Map.empty [] [] [] (mon_ex None [1] False) = Some (Ret (Inr (FullStop, ExitSignal 15)), (u', t', up', w'))
    \<and> used_list (te_registry (up_te u')) = []"
proof -
  obtain u' t' up' w' where run: "monitor trt kern Map.empty [] [] [] (mon_ex None [1] False)
      = Some (Ret (Inr (FullStop, ExitSignal 15)), (u', t', up', w'))" using mon_ex_stops by auto
  then show ?thesis using monitor_exit_stops_streams [OF trt.watch_runtime_axioms run, of sup_ex_inner 0, THEN conjunct1] by blast
qed

theorem stop_cleans_up_witness:
  "\<exists>u' t' up' w'. monitor_stop trt kern (SignalR 15) Stop (mon_ex (Some \<lparr>notify_socket = 8\<rparr>) [] False)
      = (Ret (Inr (FullStop, ExitSignal 15)), (u', t', up', w'))
    \<and> k_outbox w' = [(8, ''STOPPING=1'')] \<and> ''/run/stop'' \<notin> dom (k_fs w')"
proof -
  obtain u t up w where s: "mon_ex (Some \<lparr>notify_socket = 8\<rparr>) [] False = (u, t, up, w)" by (metis surj_pair)
  then have n: "up_notifier u = Some \<lparr>notify_socket = 8\<rparr>" and p: "''/run/stop'' \<in> trigger_paths (up_triggers u)" and k: "k_outbox w = []"
    by (auto simp: mon_ex_def ec_ex_world_def kw0_def)
  obtain u' t' up' w' where run: "monitor_stop trt kern (SignalR 15) Stop (u, t, up, w)
      = (Ret (Inr (FullStop, ExitSignal 15)), (u', t', up', w'))"
    using mon_ex_stop_arm unfolding s by (metis fst_conv surj_pair)
  have "dom (k_fs w') = dom (k_fs w) - trigger_paths (up_triggers u)" "k_outbox w' = k_outbox w @ [(8, ''STOPPING=1'')]"
    using stop_cleans_up [OF trt.watch_runtime_axioms kern_shutdown.shutdown_world_axioms _ run] n by simp_all
  then have "k_outbox w' = [(8, ''STOPPING=1'')]" "''/run/stop'' \<notin> dom (k_fs w')" using p k by simp_all
  then show ?thesis unfolding s using run by (intro exI conjI)
qed

theorem upgrade_leaves_paths_witness:
  "\<exists>s'. monitor_upgraded trt kern (SignalR 1) (mon_ex None [] False) = (Ret (Inr (ExitUpgrade, ExitSignal 1)), s')
    \<and> ''/run/stop'' \<in> dom (k_fs (snd (snd (snd s'))))"
proof -
  obtain u t up w where s: "mon_ex None [] False = (u, t, up, w)" by (metis surj_pair)
  then have "''/run/stop'' \<in> dom (k_fs w)" by (auto simp: mon_ex_def k_fs_def)
  moreover obtain s' where run: "monitor_upgraded trt kern (SignalR 1) (u, t, up, w) = (Ret (Inr (ExitUpgrade, ExitSignal 1)), s')"
    using mon_ex_upgraded unfolding s by (metis fst_conv surj_pair)
  ultimately show ?thesis
    using upgrade_leaves_paths [OF trt.watch_runtime_axioms kern_shutdown.shutdown_world_axioms run] unfolding s by auto
qed

theorem failed_upgrade_keeps_serving_witness:
  "\<exists>wakes' u' t' up' w'. monitor_turn trt kern Map.empty [''srv''] [] (Some mon_run) (mon_ex None [0] True)
      = Some (Again wakes' (u', t', up', w'))
    \<and> up_te u' = te_ex \<and> map snd (up_triggers u') = [Upgrade, Stop, Stop]"
proof -
  obtain u t up w where s: "mon_ex None [0] True = (u, t, up, w)" by (metis surj_pair)
  then have te: "up_te u = te_ex" "map snd (up_triggers u) = [Upgrade, Stop, Stop]" by (auto simp: mon_ex_def)
  obtain wakes' u' t' up' w' where run: "monitor_turn trt kern Map.empty [''srv''] [] (Some mon_run) (u, t, up, w)
      = Some (Again wakes' (u', t', up', w'))"
    using mon_ex_again unfolding s by (auto split: option.splits turn.splits)
  have "up_te u' = te_ex" "map snd (up_triggers u') = [Upgrade, Stop, Stop]"
    using failed_upgrade_keeps_serving [OF kern_files.posix_files_axioms run] te by simp_all
  then show ?thesis unfolding s using run by (intro exI conjI)
qed

theorem poll_triggers_returns_witness:
  "\<exists>x q. poll_triggers trt kern [(SignalT 1 0, Upgrade), (Uds ''/run/stop'' \<lparr>ss_stream = 9, ss_policy = Yes, ss_rx = 1, ss_state = None\<rparr>, Stop)]
    (sup_ex_rt None True, kw0) = Some (Ret x, q)"
proof -
  have "triggers_synced (trt_view (sup_ex_rt None True)) 1 None
      [(SignalT 1 0, Upgrade), (Uds ''/run/stop'' \<lparr>ss_stream = 9, ss_policy = Yes, ss_rx = 1, ss_state = None\<rparr>, Stop)]"
    by (simp add: triggers_synced_def synced_def sup_ex_rt_def trt_view_def)
  from poll_triggers_returns [OF trt.watch_runtime_axioms sup_ex_view(2) this, of kern kw0] show ?thesis by auto
qed

definition conf_calls :: "kworld builder_call list" where
  "conf_calls = [CallStopOnSignal 15, CallStopOnSocket ''/run/stop'', CallListenTcp Yes (SockV4 0 80), CallListenTcp No (SockV4 0 80)]"

text \<open>The second \<open>listen_tcp\<close> fails, the address being in use: one stream is held.\<close>

lemma conf_runs:
  "(case builder_new trt kern bincode_ref Map.empty 1 (t0, kw0) of
      (Ret (Inr b), s1) \<Rightarrow> (case make_calls trt kern sd_ex_dbg Map.empty conf_calls (b, s1) of
          Some (held, s2) \<Rightarrow> length held = 1 \<and> is_ok (fst (b_ready trt kern s2))
        | None \<Rightarrow> False)
    | _ \<Rightarrow> False)"
  by code_simp

theorem builder_gives_monitorable_witness:
  "\<exists>b s1 held s2 u b' t' w' c. builder_new trt kern bincode_ref Map.empty 1 (t0, kw0) = (Ret (Inr b), s1)
    \<and> make_calls trt kern sd_ex_dbg Map.empty conf_calls (b, s1) = Some (held, s2) \<and> length held = 1
    \<and> b_ready trt kern s2 = (Ret (Inr u), (b', t', w')) \<and> builder_wf (trt_view t') 1 c (te_supervisor (up_te u)) (up_triggers u) held"
proof -
  obtain b s1 held s2 where run: "builder_new trt kern bincode_ref Map.empty 1 (t0, kw0) = (Ret (Inr b), s1)"
    "make_calls trt kern sd_ex_dbg Map.empty conf_calls (b, s1) = Some (held, s2)" "length held = 1" "is_ok (fst (b_ready trt kern s2))"
    using conf_runs by (auto split: prod.splits outcome.splits sum.splits option.splits)
  then obtain u b' t' w' where ready: "b_ready trt kern s2 = (Ret (Inr u), (b', t', w'))"
    using is_okD [of "b_ready trt kern s2"] by auto
  show ?thesis using builder_gives_monitorable [OF trt.watch_runtime_axioms run(1,2) ready] run ready by blast
qed

theorem poll_triggers_first_witness:
  "\<exists>reason trs' s'. poll_triggers trt kern (up_triggers (fst (mon_ex None [1] False))) (fst (snd (mon_ex None [1] False)), kw0)
      = Some (Ret (Ready (Inr (reason, Stop))), trs', s') \<and> (\<exists>i<3. reason_from (fst (up_triggers (fst (mon_ex None [1] False)) ! i)) reason)"
proof -
  obtain reason trs' s' where run: "poll_triggers trt kern (up_triggers (fst (mon_ex None [1] False))) (fst (snd (mon_ex None [1] False)), kw0)
      = Some (Ret (Ready (Inr (reason, Stop))), trs', s')"
    using mon_ex_trigger by auto
  moreover have "length (up_triggers (fst (mon_ex None [1] False))) = 3" by (simp add: mon_ex_def)
  ultimately show ?thesis using poll_triggers_first [OF run] by auto
qed

text \<open>
  One signal for both: \<open>stop_on_signal\<close> with the upgrade signal. The signal starts an upgrade, as
  the documentation says; but if that upgrade fails, the stop trigger still holds its copy of the same signal,
  and the next turn stops the server. Here the upgrade is refused, because the flag is up.
\<close>

theorem same_signal_stops_after_failed_upgrade:
  "(case stop_on_signal trt 1 (\<lparr>tb_te = te_ex, tb_triggers = [(SignalT 1 0, Upgrade)], tb_notifier = None\<rparr>,
        (sup_ex_rt None True)\<lparr>t_signals := [(0, 1)]\<rparr>, ec_ex_world) of
      (Ret (Inr x), (b, t, w)) \<Rightarrow>
        map_option fst (monitor trt kern Map.empty [''srv''] [] [mon_run]
          (\<lparr>up_te = tb_te b, up_triggers = tb_triggers b, up_notifier = None\<rparr>, raise_signal 1 t, True, w))
        = Some (Ret (Inr (FullStop, ExitSignal 1)))
    | _ \<Rightarrow> False)"
  by code_simp

end
