(* ===== verification/Rust_Net.thy ===== *)
theory Rust_Net
  imports Kernel
begin

text \<open>
  The parts of Rust's standard library on numbers and addresses that the example server uses:
  \<open>str::parse::<u32>\<close>, \<open>u32::to_be_bytes\<close>, \<open>IpAddr::from_str\<close> and
  \<open>SocketAddr::new\<close>. The address parser is the recursive descent of
  \<open>core::net::parser\<close>: every reader returns what it read and the rest, or nothing and consumes
  nothing, and the whole input must be used.
\<close>

subsection \<open>Parsing a u32\<close>

fun parse_u32_digits :: "int \<Rightarrow> string \<Rightarrow> parse_int_error + int" where
  "parse_u32_digits acc [] = Inr acc"
| "parse_u32_digits acc (c # cs) = (case to_digit c of
      None \<Rightarrow> Inl InvalidDigit
    | Some d \<Rightarrow>
        if 2 ^ 32 \<le> acc * 10 then Inl PosOverflow
        else if 2 ^ 32 \<le> acc * 10 + int d then Inl PosOverflow
        else parse_u32_digits (acc * 10 + int d) cs)"

text \<open>A sign alone is an invalid digit; a minus sign is one in an unsigned number.\<close>

definition parse_u32 :: "string \<Rightarrow> parse_int_error + 32 word" where
  "parse_u32 s = (case s of
      [] \<Rightarrow> Inl EmptyInput
    | c # cs \<Rightarrow>
        if cs = [] \<and> (c = CHR ''+'' \<or> c = CHR ''-'') then Inl InvalidDigit
        else map_sum id of_int (parse_u32_digits 0 (if c = CHR ''+'' then cs else s)))"

lemma parse_u32_digits_append:
  "parse_u32_digits acc (xs @ ys) = (case parse_u32_digits acc xs of Inl e \<Rightarrow> Inl e | Inr a \<Rightarrow> parse_u32_digits a ys)"
  by (induction acc xs rule: parse_u32_digits.induct) (auto split: option.splits)

lemma parse_u32_digits_show: "n < 2 ^ 32 \<Longrightarrow> parse_u32_digits 0 (show_nat n) = Inr (int n)"
proof (induction n rule: show_nat.induct)
  case (1 n)
  show ?case
  proof (cases "n < 10")
    case True
    then show ?thesis by (simp add: show_nat.simps [of n])
  next
    case False
    then have "parse_u32_digits 0 (show_nat (n div 10)) = Inr (int (n div 10))" using 1 by simp
    moreover have n: "int (n div 10) * 10 + int (n mod 10) = int n"
      by (metis div_mult_mod_eq of_nat_add of_nat_mult of_nat_numeral)
    moreover have "int n < 2 ^ 32" using "1.prems" by simp
    moreover have "int (n div 10) * 10 < 2 ^ 32" using n \<open>int n < 2 ^ 32\<close> by linarith
    ultimately show ?thesis using False by (simp add: show_nat.simps [of n] parse_u32_digits_append)
  qed
qed

lemma parse_u32_show: "n < 2 ^ 32 \<Longrightarrow> parse_u32 (show_nat n) = Inr (of_nat n)"
proof -
  assume n: "n < 2 ^ 32"
  obtain d cs where s: "show_nat n = digit_char d # cs" and d: "d < 10" using show_nat_hd by blast
  then show ?thesis using parse_u32_digits_show [OF n] digit_char_not_sign [OF d] by (simp add: parse_u32_def)
qed

subsection \<open>Bytes of a u32\<close>

definition to_be_bytes :: "32 word \<Rightarrow> string" where
  "to_be_bytes n = map (\<lambda>i. char_of (uint (drop_bit i n))) [24, 16, 8, 0]"

definition from_be_bytes :: "string \<Rightarrow> int" where
  "from_be_bytes = foldl (\<lambda>a c. a * 256 + of_char c) 0"

lemma uint_drop_bit_32: "uint (drop_bit i (n :: 32 word)) = uint n div 2 ^ i"
proof -
  have "unat (drop_bit i n) = unat n div 2 ^ i" by (simp only: unat_drop_bit_eq) (simp add: drop_bit_eq_div)
  then have "int (unat (drop_bit i n)) = int (unat n) div 2 ^ i" by (simp only: zdiv_int of_nat_power of_nat_numeral)
  then show ?thesis by (simp only: uint_nat)
qed

lemma from_to_be_bytes: "from_be_bytes (to_be_bytes n) = uint n"
proof -
  let ?n = "uint n"
  let ?a = "?n div 256" let ?b = "?a div 256" let ?c = "?b div 256"
  have "0 \<le> ?n" "?n < 2 ^ 32" using unsigned_less [of n] by simp_all
  then have "0 \<le> ?c" "?c < 256" by (simp_all add: pos_imp_zdiv_nonneg_iff)
  then have sum: "((?c mod 256 * 256 + ?b mod 256) * 256 + ?a mod 256) * 256 + ?n mod 256 = ?n"
    by (metis div_mult_mod_eq mod_pos_pos_trivial)
  have b: "?n div 2 ^ 16 = ?b" and c: "?n div 2 ^ 24 = ?c"
    using zdiv_zmult2_eq [of 256 ?n 256] zdiv_zmult2_eq [of 256 ?n 65536] by simp_all
  have "from_be_bytes (to_be_bytes n)
      = ((?n div 2 ^ 24 mod 256 * 256 + ?n div 2 ^ 16 mod 256) * 256 + ?n div 2 ^ 8 mod 256) * 256 + ?n div 2 ^ 0 mod 256"
    by (simp only: from_be_bytes_def to_be_bytes_def uint_drop_bit_32 list.map foldl.simps of_char_of) simp
  also have "\<dots> = ?n" using sum unfolding b c by simp
  finally show ?thesis .
qed

subsection \<open>IP addresses\<close>

datatype ip_addr = IpV4 "32 word" | IpV6 "128 word"

fun is_ipv6 :: "ip_addr \<Rightarrow> bool" where
  "is_ipv6 (IpV4 a) = False"
| "is_ipv6 (IpV6 a) = True"

text \<open>\<open>SocketAddr::new\<close>: flow information and scope are 0.\<close>

fun socket_addr_new :: "ip_addr \<Rightarrow> 16 word \<Rightarrow> socket_addr" where
  "socket_addr_new (IpV4 a) port = SockV4 a port"
| "socket_addr_new (IpV6 a) port = SockV6 a port 0 0"

text \<open>\<open>char::to_digit(radix)\<close> for a radix up to 16.\<close>

definition digit_in :: "nat \<Rightarrow> char \<Rightarrow> nat option" where
  "digit_in radix c = (let k = of_char c :: nat;
      d = (if 48 \<le> k \<and> k \<le> 57 then k - 48 else if 97 \<le> k \<and> k \<le> 102 then k - 87 else if 65 \<le> k \<and> k \<le> 70 then k - 55 else 16)
    in if d < radix then Some d else None)"

fun read_digits :: "nat \<Rightarrow> string \<Rightarrow> nat list \<times> string" where
  "read_digits radix [] = ([], [])"
| "read_digits radix (c # cs) = (case digit_in radix c of
      None \<Rightarrow> ([], c # cs)
    | Some d \<Rightarrow> (case read_digits radix cs of (ds, rest) \<Rightarrow> (d # ds, rest)))"

text \<open>\<open>read_number\<close>: at most \<open>max_digits\<close> digits, a leading zero only alone unless allowed, below the bound of the type.\<close>

definition read_number :: "nat \<Rightarrow> nat \<Rightarrow> bool \<Rightarrow> nat \<Rightarrow> string \<Rightarrow> (nat \<times> string) option" where
  "read_number radix max_digits allow_zero_prefix bound s = (case read_digits radix s of (ds, rest) \<Rightarrow>
    let n = foldl (\<lambda>a d. a * radix + d) 0 ds
    in if ds = [] \<or> max_digits < length ds \<or> (\<not> allow_zero_prefix \<and> hd ds = 0 \<and> 1 < length ds) \<or> bound \<le> n then None
       else Some (n, rest))"

fun read_given_char :: "char \<Rightarrow> string \<Rightarrow> string option" where
  "read_given_char c [] = None"
| "read_given_char c (x # xs) = (if x = c then Some xs else None)"

definition read_separator :: "char \<Rightarrow> nat \<Rightarrow> (string \<Rightarrow> ('a \<times> string) option) \<Rightarrow> string \<Rightarrow> ('a \<times> string) option" where
  "read_separator sep index inner s =
    (if 0 < index then (case read_given_char sep s of None \<Rightarrow> None | Some s' \<Rightarrow> inner s') else inner s)"

text \<open>The loop over the four groups of an IPv4 address, from group \<open>i\<close> on.\<close>

fun read_ipv4_groups :: "nat list \<Rightarrow> nat list \<Rightarrow> string \<Rightarrow> (nat list \<times> string) option" where
  "read_ipv4_groups [] acc s = Some (acc, s)"
| "read_ipv4_groups (i # is) acc s = (case read_separator CHR ''.'' i (read_number 10 3 False 256) s of
      None \<Rightarrow> None
    | Some (g, s') \<Rightarrow> read_ipv4_groups is (acc @ [g]) s')"

definition read_ipv4_addr :: "string \<Rightarrow> (nat list \<times> string) option" where
  "read_ipv4_addr s = read_ipv4_groups [0, 1, 2, 3] [] s"

text \<open>\<open>read_groups\<close>: the groups read, whether they end in an IPv4 address, and the rest.\<close>

fun read_groups :: "nat \<Rightarrow> nat list \<Rightarrow> nat list \<Rightarrow> string \<Rightarrow> nat list \<times> bool \<times> string" where
  "read_groups limit [] acc s = (acc, False, s)"
| "read_groups limit (i # is) acc s =
    (case (if i < limit - 1 then read_separator CHR '':'' i read_ipv4_addr s else None) of
      Some (v4, s') \<Rightarrow> (acc @ [v4 ! 0 * 256 + v4 ! 1, v4 ! 2 * 256 + v4 ! 3], True, s')
    | None \<Rightarrow> (case read_separator CHR '':'' i (read_number 16 4 True 65536) s of
          Some (g, s') \<Rightarrow> read_groups limit is (acc @ [g]) s'
        | None \<Rightarrow> (acc, False, s)))"

definition read_ipv6_addr :: "string \<Rightarrow> (nat list \<times> string) option" where
  "read_ipv6_addr s = (case read_groups 8 [0..<8] [] s of (head, head_ipv4, s1) \<Rightarrow>
    if length head = 8 then Some (head, s1)
    else if head_ipv4 then None
    else (case read_given_char CHR '':'' s1 of
        None \<Rightarrow> None
      | Some s2 \<Rightarrow> (case read_given_char CHR '':'' s2 of
            None \<Rightarrow> None
          | Some s3 \<Rightarrow> (let limit = 8 - (length head + 1) in case read_groups limit [0..<limit] [] s3 of
                (tail, b, s4) \<Rightarrow> Some (head @ replicate (8 - length head - length tail) 0 @ tail, s4)))))"

definition of_groups :: "nat \<Rightarrow> nat list \<Rightarrow> 'a::len word" where
  "of_groups base gs = of_nat (foldl (\<lambda>a g. a * base + g) 0 gs)"

definition ip_addr_from_str :: "string \<Rightarrow> ip_addr option" where
  "ip_addr_from_str s = (case read_ipv4_addr s of
      Some (gs, rest) \<Rightarrow> if rest = [] then Some (IpV4 (of_groups 256 gs)) else None
    | None \<Rightarrow> (case read_ipv6_addr s of
          Some (gs, rest) \<Rightarrow> if rest = [] then Some (IpV6 (of_groups 65536 gs)) else None
        | None \<Rightarrow> None))"

lemma foldl_zeros [simp]: "foldl (\<lambda>a g. a * b + g) 0 (replicate n 0) = (0 :: nat)"
  by (induction n) simp_all

lemma ip_addr_examples:
  "ip_addr_from_str ''::1'' = Some (IpV6 1)" "ip_addr_from_str ''127.0.0.1'' = Some (IpV4 2130706433)"
  "ip_addr_from_str ''::ffff:10.0.0.1'' = Some (IpV6 281470849515521)" "ip_addr_from_str ''1::2::3'' = None"
  by (simp_all add: ip_addr_from_str_def read_ipv4_addr_def read_separator_def read_number_def read_ipv6_addr_def upt_rec digit_in_def
      of_groups_def)

text \<open>Brackets belong to the notation of socket addresses, not of IP addresses.\<close>

lemma bracketed_address: "ip_addr_from_str (CHR ''['' # s) = None"
proof -
  have "digit_in radix CHR ''['' = None" if "radix \<le> 16" for radix using that by (simp add: digit_in_def)
  then show ?thesis
    by (simp add: ip_addr_from_str_def read_ipv4_addr_def read_separator_def read_number_def read_ipv6_addr_def upt_rec)
qed

end
