(* ===== verification/Echo_Server.thy ===== *)
theory Echo_Server
  imports Trigger Systemd_Sockets Rust_Net
begin

text \<open>
  \<open>echo_server\<close> of \<open>examples/tokio_echo.rs\<close>: a task that accepts connections from a
  supervised stream and spawns one task per client, which sends the reload count and then echoes. The server
  waits for its clients with a \<open>waitgroup\<close> before it returns.

  A server and the client tasks it spawned are one record; the executor is a list of events, each a poll of
  one task or a change of the runtime and the world. The operations of tokio on a connection
  (\<open>conn_io\<close>) and the wait group (\<open>wg_ops\<close>, laws \<open>wait_group\<close>) are
  arguments; that connections come to an end (\<open>finite_backlog\<close>) is what the accept loop needs to
  return; the progress of a future under way on a connection is part of the world. A task that panics is
  caught by the runtime: what it owns is dropped and joining it gives an error.
\<close>

subsection \<open>What the server asks of tokio and of the wait group\<close>

record 'w conn_io =
  conn_write_all :: "fd \<Rightarrow> string \<Rightarrow> 'w \<Rightarrow> (io_error + unit) poll \<times> 'w"
  conn_copy :: "fd \<Rightarrow> 'w \<Rightarrow> (io_error + nat) poll \<times> 'w"
  tcp_next :: "fd \<Rightarrow> 'w \<Rightarrow> (io_error + fd) option poll \<times> 'w"

record 'g wg_ops =
  wg_new :: 'g
  wg_worker :: "'g \<Rightarrow> 'g"
  wg_drop :: "'g \<Rightarrow> 'g"
  wg_wait :: "'g \<Rightarrow> unit poll"

locale wait_group =
  fixes wg :: "'g wg_ops" and workers :: "'g \<Rightarrow> nat"
  assumes new_group: "workers (wg_new wg) = 0"
    and worker_joins: "workers (wg_worker wg g) = Suc (workers g)"
    and worker_leaves: "workers (wg_drop wg g) = workers g - 1"
    and wait_all: "wg_wait wg g = (if workers g = 0 then Ready () else Pending)"

definition counter_wg :: "nat wg_ops" where
  "counter_wg = \<lparr>wg_new = 0, wg_worker = Suc, wg_drop = (\<lambda>n. n - 1), wg_wait = (\<lambda>n. if n = 0 then Ready () else Pending)\<rparr>"

interpretation counter: wait_group counter_wg id
  by unfold_locales (simp_all add: counter_wg_def)

text \<open>Only finitely many connections wait on the listeners at a time: each accepted one leaves fewer.\<close>

locale finite_backlog =
  fixes accept :: "fd \<Rightarrow> 'w \<Rightarrow> (io_error + fd) option poll \<times> 'w" and backlog :: "'w \<Rightarrow> nat"
  assumes accept_shrinks: "accept fd w = (Ready (Some (Inr c)), w') \<Longrightarrow> backlog w' < backlog w"

interpretation kern_backlog: finite_backlog k_accept "length \<circ> k_inbox"
proof
  fix fd :: fd and w c w' assume "k_accept fd w = (Ready (Some (Inr c)), w')"
  then obtain b w1 where b: "map_of (k_inbox w) fd = Some b" "k_open w = (Inr c, w1)" "w' = w1\<lparr>k_inbox := filter (\<lambda>e. fst e \<noteq> fd) (k_inbox w1)\<rparr>"
    by (auto simp: k_accept_def split: option.splits prod.splits sum.splits)
  have "k_inbox w1 = k_inbox w" using b(2) by (auto simp: k_open_def k_put_def split: option.splits)
  moreover have "length (filter (\<lambda>e. fst e \<noteq> fd) (k_inbox w)) < length (k_inbox w)"
    using map_of_SomeD [OF b(1)] by (intro length_filter_less) auto
  ultimately show "(length \<circ> k_inbox) w' < (length \<circ> k_inbox) w" using b(3) by simp
qed

subsection \<open>The reload count\<close>

definition ECDYSIS_RELOADS :: string where
  "ECDYSIS_RELOADS = ''ECDYSIS_RELOADS''"

definition unwrap_panic :: string where
  "unwrap_panic = ''called `Result::unwrap()` on an `Err` value: ''"

text \<open>\<open>env::var("ECDYSIS_RELOADS").unwrap().parse::<u32>().unwrap()\<close>\<close>

definition read_reload_count :: "debug_text \<Rightarrow> environment \<Rightarrow> 32 word outcome" where
  "read_reload_count dbg env = (case env_var env ECDYSIS_RELOADS of
      Inl e \<Rightarrow> Panic (unwrap_panic @ dbg_var dbg e)
    | Inr s \<Rightarrow> (case parse_u32 s of
          Inl e \<Rightarrow> Panic (unwrap_panic @ dbg_parse dbg e)
        | Inr n \<Rightarrow> Ret n))"

subsection \<open>Clients\<close>

datatype client_pc = Greeting | Copying | ClientDone | ClientPanicked

record client =
  cl_fd :: fd
  cl_pc :: client_pc

definition cl_alive :: "client \<Rightarrow> bool" where
  "cl_alive cl \<longleftrightarrow> cl_pc cl = Greeting \<or> cl_pc cl = Copying"

text \<open>The end of a client task, by return or by panic, closes the connection; its worker is dropped by the caller.\<close>

definition client_end :: "'w os \<Rightarrow> client_pc \<Rightarrow> client \<times> 'w \<Rightarrow> client \<times> 'w" where
  "client_end os pc = (\<lambda>(cl, w). (cl\<lparr>cl_pc := pc\<rparr>, snd (sys_close os (cl_fd cl) w)))"

definition client_copy :: "'w os \<Rightarrow> 'w conn_io \<Rightarrow> client \<times> 'w \<Rightarrow> client \<times> 'w" where
  "client_copy os io = (\<lambda>(cl, w). case conn_copy io (cl_fd cl) w of
      (Pending, w') \<Rightarrow> (cl\<lparr>cl_pc := Copying\<rparr>, w')
    | (Ready n_bytes, w') \<Rightarrow> client_end os ClientDone (cl, w'))"

definition client_poll :: "'w os \<Rightarrow> 'w conn_io \<Rightarrow> 32 word \<Rightarrow> client \<times> 'w \<Rightarrow> client \<times> 'w" where
  "client_poll os io reload_count = (\<lambda>(cl, w). case cl_pc cl of
      Greeting \<Rightarrow> (case conn_write_all io (cl_fd cl) (to_be_bytes reload_count) w of
          (Pending, w') \<Rightarrow> (cl, w')
        | (Ready (Inl e), w') \<Rightarrow> client_end os ClientPanicked (cl, w')
        | (Ready (Inr u), w') \<Rightarrow> client_copy os io (cl, w'))
    | Copying \<Rightarrow> client_copy os io (cl, w)
    | _ \<Rightarrow> (cl, w))"

subsection \<open>The server task\<close>

datatype server_pc = Unstarted | Accepting | Draining | ServerDone | ServerPanicked string

record 'g server =
  sv_stream :: "fd stoppable_stream"
  sv_count :: "32 word"
  sv_wg :: 'g
  sv_pc :: server_pc
  sv_clients :: "client list"

type_synonym ('g, 't, 'w) svstate = "'g server \<times> 't \<times> 'w"

definition echo_server :: "'g wg_ops \<Rightarrow> fd stoppable_stream \<Rightarrow> 'g server" where
  "echo_server wg sock_stream =
    \<lparr>sv_stream = sock_stream, sv_count = 0, sv_wg = wg_new wg, sv_pc = Unstarted, sv_clients = []\<rparr>"

definition sock_inner :: "(fd \<Rightarrow> 'w \<Rightarrow> (io_error + fd) option poll \<times> 'w) \<Rightarrow> (fd \<times> 'w, (io_error + fd) option poll) prog" where
  "sock_inner next = (\<lambda>(fd, w). case next fd w of (p, w') \<Rightarrow> (Ret p, (fd, w')))"

definition spawn_client :: "'g wg_ops \<Rightarrow> fd \<Rightarrow> 'g server \<Rightarrow> 'g server" where
  "spawn_client wg client sv = sv\<lparr>sv_wg := wg_worker wg (sv_wg sv), sv_clients := sv_clients sv @ [\<lparr>cl_fd = client, cl_pc = Greeting\<rparr>]\<rparr>"

text \<open>\<open>while let Some(Ok(mut client)) = sock_stream.next().await\<close>: \<open>True\<close> when the loop is left, \<open>False\<close> when it waits for the next connection.
  \<open>None\<close> is a poll that does not return, because every poll of the stream is ready or the process exits.\<close>

partial_function (option) accept_loop ::
    "'t rt \<Rightarrow> 'g wg_ops \<Rightarrow> (fd \<times> 'w, (io_error + fd) option poll) prog \<Rightarrow> ('g, 't, 'w) svstate \<Rightarrow> (bool outcome \<times> ('g, 't, 'w) svstate) option" where
  "accept_loop rt wg inner s = (case s of (sv, t, w) \<Rightarrow>
    (case stoppable_poll_next rt inner (sv_stream sv, t, w) of
      None \<Rightarrow> None
    | Some (x, (ss, t', w')) \<Rightarrow> (let sv' = sv\<lparr>sv_stream := ss\<rparr> in case x of
          Ret Pending \<Rightarrow> Some (Ret False, (sv', t', w'))
        | Ret (Ready None) \<Rightarrow> Some (Ret True, (sv', t', w'))
        | Ret (Ready (Some (Inl e))) \<Rightarrow> Some (Ret True, (sv', t', w'))
        | Ret (Ready (Some (Inr client))) \<Rightarrow> accept_loop rt wg inner (spawn_client wg client sv', t', w')
        | Panic m \<Rightarrow> Some (Panic m, (sv', t', w'))
        | Exit n \<Rightarrow> None)))"

declare accept_loop.simps [code]

text \<open>The end of the server task drops the stream: its receiver, and the listening descriptor.\<close>

definition server_end :: "'t rt \<Rightarrow> 'w os \<Rightarrow> server_pc \<Rightarrow> ('g, 't, 'w) svstate \<Rightarrow> ('g, 't, 'w) svstate" where
  "server_end rt os pc = (\<lambda>(sv, t, w). (sv\<lparr>sv_pc := pc\<rparr>, drop_stream rt os (sv_stream sv) (t, w)))"

text \<open>\<open>wg.wait().await\<close>\<close>

definition server_wait :: "'t rt \<Rightarrow> 'w os \<Rightarrow> 'g wg_ops \<Rightarrow> ('g, 't, 'w) svstate \<Rightarrow> ('g, 't, 'w) svstate" where
  "server_wait rt os wg = (\<lambda>(sv, t, w). case wg_wait wg (sv_wg sv) of
      Pending \<Rightarrow> (sv\<lparr>sv_pc := Draining\<rparr>, t, w)
    | Ready u \<Rightarrow> server_end rt os ServerDone (sv, t, w))"

definition server_serve ::
    "'t rt \<Rightarrow> 'w os \<Rightarrow> 'g wg_ops \<Rightarrow> (fd \<times> 'w, (io_error + fd) option poll) prog \<Rightarrow> ('g, 't, 'w) svstate \<Rightarrow> ('g, 't, 'w) svstate option" where
  "server_serve rt os wg inner s = (case accept_loop rt wg inner s of
      None \<Rightarrow> None
    | Some (x, s') \<Rightarrow> (case x of
          Ret left \<Rightarrow> Some (if left then server_wait rt os wg s' else s')
        | Panic m \<Rightarrow> Some (server_end rt os (ServerPanicked m) s')
        | Exit n \<Rightarrow> None))"

definition server_poll ::
    "'t rt \<Rightarrow> 'w os \<Rightarrow> 'g wg_ops \<Rightarrow> (fd \<times> 'w, (io_error + fd) option poll) prog \<Rightarrow> debug_text \<Rightarrow> environment
      \<Rightarrow> ('g, 't, 'w) svstate \<Rightarrow> ('g, 't, 'w) svstate option" where
  "server_poll rt os wg inner dbg env = (\<lambda>(sv, t, w). case sv_pc sv of
      Unstarted \<Rightarrow> (case read_reload_count dbg env of
          Ret reload_count \<Rightarrow>
            server_serve rt os wg inner (sv\<lparr>sv_count := reload_count, sv_wg := wg_new wg, sv_pc := Accepting\<rparr>, t, w)
        | Panic m \<Rightarrow> Some (server_end rt os (ServerPanicked m) (sv, t, w))
        | Exit n \<Rightarrow> None)
    | Accepting \<Rightarrow> server_serve rt os wg inner (sv, t, w)
    | Draining \<Rightarrow> Some (server_wait rt os wg (sv, t, w))
    | _ \<Rightarrow> Some (sv, t, w))"

subsection \<open>The executor\<close>

datatype ('t, 'w) echo_event =
    PollServer
  | PollClient nat
  | Elsewhere "'t \<times> 'w \<Rightarrow> 't \<times> 'w"

text \<open>A poll of client \<open>i\<close>; its worker is dropped when the task ends.\<close>

definition clients_poll :: "'w os \<Rightarrow> 'w conn_io \<Rightarrow> 'g wg_ops \<Rightarrow> nat \<Rightarrow> ('g, 't, 'w) svstate \<Rightarrow> ('g, 't, 'w) svstate" where
  "clients_poll os io wg i = (\<lambda>(sv, t, w).
    if i < length (sv_clients sv) \<and> cl_alive (sv_clients sv ! i)
    then (case client_poll os io (sv_count sv) (sv_clients sv ! i, w) of (cl, w') \<Rightarrow>
      (sv\<lparr>sv_clients := (sv_clients sv)[i := cl], sv_wg := if cl_alive cl then sv_wg sv else wg_drop wg (sv_wg sv)\<rparr>, t, w'))
    else (sv, t, w))"

definition echo_step ::
    "'t rt \<Rightarrow> 'w os \<Rightarrow> 'w conn_io \<Rightarrow> 'g wg_ops \<Rightarrow> (fd \<times> 'w, (io_error + fd) option poll) prog \<Rightarrow> debug_text \<Rightarrow> environment
      \<Rightarrow> ('t, 'w) echo_event \<Rightarrow> ('g, 't, 'w) svstate \<Rightarrow> ('g, 't, 'w) svstate option" where
  "echo_step rt os io wg inner dbg env ev s = (case ev of
      PollServer \<Rightarrow> server_poll rt os wg inner dbg env s
    | PollClient i \<Rightarrow> Some (clients_poll os io wg i s)
    | Elsewhere f \<Rightarrow> Some (fst s, f (snd s)))"

fun echo_run ::
    "'t rt \<Rightarrow> 'w os \<Rightarrow> 'w conn_io \<Rightarrow> 'g wg_ops \<Rightarrow> (fd \<times> 'w, (io_error + fd) option poll) prog \<Rightarrow> debug_text \<Rightarrow> environment
      \<Rightarrow> ('t, 'w) echo_event list \<Rightarrow> ('g, 't, 'w) svstate \<Rightarrow> ('g, 't, 'w) svstate option" where
  "echo_run rt os io wg inner dbg env [] s = Some s"
| "echo_run rt os io wg inner dbg env (ev # evs) s = (case echo_step rt os io wg inner dbg env ev s of
      None \<Rightarrow> None
    | Some s' \<Rightarrow> echo_run rt os io wg inner dbg env evs s')"

subsection \<open>The loop\<close>

lemma accept_loop_inv:
  assumes "accept_loop rt wg inner s = Some (x, s')" and "P (fst s)"
    and "\<And>sv ss. P sv \<Longrightarrow> P (sv\<lparr>sv_stream := ss\<rparr>)" and "\<And>sv c. P sv \<Longrightarrow> P (spawn_client wg c sv)"
  shows "P (fst s')"
proof -
  have "wg = wg \<longrightarrow> P (fst s) \<longrightarrow> P (fst (snd (x, s')))"
    using assms(1)
  proof (rule accept_loop.raw_induct [where P = "\<lambda>rt wg' inner s y. wg' = wg \<longrightarrow> P (fst s) \<longrightarrow> P (fst (snd y))", rotated], intro impI)
    fix loop rt wg' inner s y
    assume IH: "\<And>rt wg' inner s y. loop rt wg' inner s = Some y \<Longrightarrow> wg' = wg \<longrightarrow> P (fst s) \<longrightarrow> P (fst (snd y))"
      and run: "(case s of (sv, t, w) \<Rightarrow> (case stoppable_poll_next rt inner (sv_stream sv, t, w) of
        None \<Rightarrow> None
      | Some (x, (ss, t', w')) \<Rightarrow> (let sv' = sv\<lparr>sv_stream := ss\<rparr> in case x of
            Ret Pending \<Rightarrow> Some (Ret False, (sv', t', w'))
          | Ret (Ready None) \<Rightarrow> Some (Ret True, (sv', t', w'))
          | Ret (Ready (Some (Inl e))) \<Rightarrow> Some (Ret True, (sv', t', w'))
          | Ret (Ready (Some (Inr client))) \<Rightarrow> loop rt wg' inner (spawn_client wg' client sv', t', w')
          | Panic m \<Rightarrow> Some (Panic m, (sv', t', w'))
          | Exit n \<Rightarrow> None))) = Some y"
      and wg: "wg' = wg" "P (fst s)"
    obtain sv t w where s: "s = (sv, t, w)" by (cases s)
    obtain z ss t' w' where z: "stoppable_poll_next rt inner (sv_stream sv, t, w) = Some (z, (ss, t', w'))"
      using run s by (auto split: option.splits)
    have sv: "P (sv\<lparr>sv_stream := ss\<rparr>)" using wg(2) s assms(3) by simp
    show "P (fst (snd y))"
    proof (cases "\<exists>client. z = Ret (Ready (Some (Inr client)))")
      case True
      then obtain client where c: "z = Ret (Ready (Some (Inr client)))" by blast
      then have "loop rt wg inner (spawn_client wg client (sv\<lparr>sv_stream := ss\<rparr>), t', w') = Some y"
        using run s z wg(1) by simp
      from IH [OF this] show ?thesis using assms(4) [OF sv] by simp
    next
      case False
      then show ?thesis using run s z sv
        by (auto simp: Let_def split: outcome.splits poll.splits option.splits sum.splits)
    qed
  qed
  then show ?thesis using assms(2) by simp
qed

subsection \<open>The invariant of a server and its clients\<close>

definition alive_clients :: "'g server \<Rightarrow> nat" where
  "alive_clients sv = length (filter cl_alive (sv_clients sv))"

definition echo_inv :: "('g \<Rightarrow> nat) \<Rightarrow> 'g server \<Rightarrow> bool" where
  "echo_inv workers sv \<longleftrightarrow> workers (sv_wg sv) = alive_clients sv \<and> (sv_pc sv = ServerDone \<longrightarrow> alive_clients sv = 0)
    \<and> (sv_pc sv = Unstarted \<longrightarrow> sv_clients sv = [])"

lemma client_poll_fd: "cl_fd (fst (client_poll os io n (cl, w))) = cl_fd cl"
  by (auto simp: client_poll_def client_copy_def client_end_def split: client_pc.splits prod.splits poll.splits sum.splits)

lemma alive_update:
  assumes "i < length cls" and "cl_alive (cls ! i)"
  shows "length (filter cl_alive (cls[i := cl])) = (if cl_alive cl then length (filter cl_alive cls) else length (filter cl_alive cls) - 1)"
    and "0 < length (filter cl_alive cls)"
proof -
  have cls: "cls = take i cls @ cls ! i # drop (Suc i) cls" using assms(1) by (rule id_take_nth_drop)
  have upd: "cls[i := cl] = take i cls @ cl # drop (Suc i) cls" using assms(1) by (rule upd_conv_take_nth_drop)
  have n: "length (filter cl_alive cls) = Suc (length (filter cl_alive (take i cls)) + length (filter cl_alive (drop (Suc i) cls)))"
    by (subst cls) (simp add: assms(2))
  show "length (filter cl_alive (cls[i := cl])) = (if cl_alive cl then length (filter cl_alive cls) else length (filter cl_alive cls) - 1)"
    unfolding upd n by simp
  show "0 < length (filter cl_alive cls)" unfolding n by simp
qed

context wait_group
begin

lemma clients_poll_inv:
  assumes "echo_inv workers sv" and "clients_poll os io wg i (sv, t, w) = (sv', t', w')"
  shows "echo_inv workers sv' \<and> sv_pc sv' = sv_pc sv \<and> map cl_fd (sv_clients sv') = map cl_fd (sv_clients sv) \<and> t' = t"
proof (cases "i < length (sv_clients sv) \<and> cl_alive (sv_clients sv ! i)")
  case True
  obtain cl w1 where cl: "client_poll os io (sv_count sv) (sv_clients sv ! i, w) = (cl, w1)" by fastforce
  then have fd: "cl_fd cl = cl_fd (sv_clients sv ! i)" using client_poll_fd [of os io "sv_count sv" "sv_clients sv ! i" w] by simp
  have sv': "sv' = sv\<lparr>sv_clients := (sv_clients sv)[i := cl], sv_wg := if cl_alive cl then sv_wg sv else wg_drop wg (sv_wg sv)\<rparr>" "t' = t"
    using assms(2) True cl by (auto simp: clients_poll_def)
  have "map cl_fd (sv_clients sv') = map cl_fd (sv_clients sv)"
    using sv'(1) fd True by (simp add: map_update list_update_same_conv)
  moreover have "alive_clients sv' = (if cl_alive cl then alive_clients sv else alive_clients sv - 1)" "0 < alive_clients sv"
    using sv'(1) alive_update [OF conjunct1 [OF True] conjunct2 [OF True]] by (simp_all add: alive_clients_def)
  ultimately show ?thesis using assms(1) sv' worker_leaves True by (auto simp: echo_inv_def)
qed (use assms in \<open>auto simp: clients_poll_def\<close>)

lemma accept_loop_echo_inv:
  assumes "accept_loop rt wg inner (sv, t, w) = Some (x, (sv', t', w'))" and "echo_inv workers sv" and "sv_pc sv = Accepting"
  shows "echo_inv workers sv' \<and> sv_pc sv' = Accepting \<and> (\<exists>new. sv_clients sv' = sv_clients sv @ new)"
proof -
  have "(\<lambda>sv'. echo_inv workers sv' \<and> sv_pc sv' = Accepting \<and> (\<exists>new. sv_clients sv' = sv_clients sv @ new)) (fst (sv', t', w'))"
    by (rule accept_loop_inv [OF assms(1)])
      (use assms(2,3) worker_joins in \<open>auto simp: echo_inv_def alive_clients_def spawn_client_def cl_alive_def\<close>)
  then show ?thesis by simp
qed

lemma server_wait_run:
  obtains (wait) "0 < workers (sv_wg sv)" and "server_wait rt os wg (sv, t, w) = (sv\<lparr>sv_pc := Draining\<rparr>, t, w)"
  | (finished) "workers (sv_wg sv) = 0"
    and "server_wait rt os wg (sv, t, w) = (sv\<lparr>sv_pc := ServerDone\<rparr>, drop_stream rt os (sv_stream sv) (t, w))"
  using wait_all [of "sv_wg sv"] by (cases "workers (sv_wg sv) = 0") (auto simp: server_wait_def server_end_def)

lemma server_wait_inv:
  assumes "workers (sv_wg sv) = alive_clients sv" and "server_wait rt os wg (sv, t, w) = (sv', q)"
  shows "echo_inv workers sv' \<and> sv_clients sv' = sv_clients sv \<and> sv_pc sv' \<in> {Draining, ServerDone}"
  by (cases rule: server_wait_run [of sv rt os t w]) (use assms in \<open>auto simp: echo_inv_def alive_clients_def\<close>)

lemma server_serve_inv:
  assumes "echo_inv workers sv" and "sv_pc sv = Accepting" and "server_serve rt os wg inner (sv, t, w) = Some (sv', t', w')"
  shows "echo_inv workers sv' \<and> sv_pc sv' \<noteq> Unstarted \<and> (\<exists>new. sv_clients sv' = sv_clients sv @ new)"
proof -
  obtain x sv1 t1 w1 where x: "accept_loop rt wg inner (sv, t, w) = Some (x, (sv1, t1, w1))"
    using assms(3) by (auto simp: server_serve_def split: option.splits)
  have i: "echo_inv workers sv1" "sv_pc sv1 = Accepting" "\<exists>new. sv_clients sv1 = sv_clients sv @ new"
    using accept_loop_echo_inv [OF x assms(1,2)] by simp_all
  show ?thesis
  proof (cases "x = Ret True")
    case True
    then have "server_wait rt os wg (sv1, t1, w1) = (sv', t', w')" using assms(3) x by (simp add: server_serve_def)
    moreover have "workers (sv_wg sv1) = alive_clients sv1" using i(1) by (simp add: echo_inv_def)
    ultimately show ?thesis using server_wait_inv i(3) by fastforce
  next
    case False
    then have "sv' = sv1 \<or> (\<exists>m. sv' = sv1\<lparr>sv_pc := ServerPanicked m\<rparr>)"
      using assms(3) x by (auto simp: server_serve_def server_end_def drop_stream_def split: outcome.splits)
    then show ?thesis using i by (auto simp: echo_inv_def alive_clients_def)
  qed
qed

lemma server_poll_inv:
  assumes "echo_inv workers sv" and "server_poll rt os wg inner dbg env (sv, t, w) = Some (sv', t', w')"
  shows "echo_inv workers sv' \<and> (\<exists>new. sv_clients sv' = sv_clients sv @ new)
    \<and> (sv_pc sv \<in> {Draining, ServerDone} \<longrightarrow> sv_pc sv' \<in> {Draining, ServerDone} \<and> sv_clients sv' = sv_clients sv)"
proof (cases "sv_pc sv")
  case Unstarted
  then have c: "sv_clients sv = []" using assms(1) by (simp add: echo_inv_def)
  show ?thesis
  proof (cases "read_reload_count dbg env")
    case (Ret n)
    let ?sv = "sv\<lparr>sv_count := n, sv_wg := wg_new wg, sv_pc := Accepting\<rparr>"
    have "echo_inv workers ?sv" using c new_group by (simp add: echo_inv_def alive_clients_def)
    moreover have "server_serve rt os wg inner (?sv, t, w) = Some (sv', t', w')" using assms(2) Unstarted Ret by (simp add: server_poll_def)
    ultimately show ?thesis using server_serve_inv [of ?sv rt os inner t w sv' t' w'] Unstarted c by simp
  next
    case (Panic m)
    then show ?thesis using assms Unstarted
      by (auto simp: server_poll_def server_end_def drop_stream_def echo_inv_def alive_clients_def)
  qed (use assms(2) Unstarted in \<open>simp add: server_poll_def\<close>)
next
  case Accepting
  then have "server_serve rt os wg inner (sv, t, w) = Some (sv', t', w')" using assms(2) by (simp add: server_poll_def)
  from server_serve_inv [OF assms(1) Accepting this] show ?thesis using Accepting by simp
next
  case Draining
  then have "server_wait rt os wg (sv, t, w) = (sv', t', w')" using assms(2) by (simp add: server_poll_def)
  then show ?thesis using server_wait_inv [of sv rt os t w sv'] assms(1) by (auto simp: echo_inv_def)
qed (use assms in \<open>auto simp: server_poll_def\<close>)

lemma echo_step_inv:
  assumes "echo_inv workers sv" and "echo_step rt os io wg inner dbg env ev (sv, t, w) = Some (sv', t', w')"
  shows "echo_inv workers sv' \<and> (\<exists>new. map cl_fd (sv_clients sv') = map cl_fd (sv_clients sv) @ new)
    \<and> (sv_pc sv \<in> {Draining, ServerDone} \<longrightarrow>
        sv_pc sv' \<in> {Draining, ServerDone} \<and> map cl_fd (sv_clients sv') = map cl_fd (sv_clients sv))"
proof (cases ev)
  case PollServer
  then have "server_poll rt os wg inner dbg env (sv, t, w) = Some (sv', t', w')" using assms(2) by (simp add: echo_step_def)
  from server_poll_inv [OF assms(1) this] show ?thesis by (metis map_append)
next
  case (PollClient i)
  then have "clients_poll os io wg i (sv, t, w) = (sv', t', w')" using assms(2) by (simp add: echo_step_def)
  from clients_poll_inv [OF assms(1) this] show ?thesis by simp
qed (use assms in \<open>simp add: echo_step_def\<close>)

lemma echo_run_inv:
  assumes "echo_inv workers sv" and "echo_run rt os io wg inner dbg env evs (sv, t, w) = Some (sv', t', w')"
  shows "echo_inv workers sv' \<and> (\<exists>new. map cl_fd (sv_clients sv') = map cl_fd (sv_clients sv) @ new)
    \<and> (sv_pc sv \<in> {Draining, ServerDone} \<longrightarrow>
        sv_pc sv' \<in> {Draining, ServerDone} \<and> map cl_fd (sv_clients sv') = map cl_fd (sv_clients sv))"
  using assms
proof (induction evs arbitrary: sv t w)
  case (Cons ev evs)
  obtain sv1 t1 w1 where 1: "echo_step rt os io wg inner dbg env ev (sv, t, w) = Some (sv1, t1, w1)"
    and 2: "echo_run rt os io wg inner dbg env evs (sv1, t1, w1) = Some (sv', t', w')"
    using Cons.prems(2) by (auto split: option.splits)
  note a = echo_step_inv [OF Cons.prems(1) 1]
  then have "echo_inv workers sv1" by simp
  from Cons.IH [OF this 2] a show ?case by (metis append.assoc)
qed simp

lemma echo_server_inv: "echo_inv workers (echo_server wg stream)"
  by (simp add: echo_inv_def echo_server_def alive_clients_def new_group)

end

subsection \<open>Properties: the echo server\<close>

text \<open>
  C14. The server serves every client to the end. Under every schedule of polls and every behaviour of the
  connections, the wait group counts exactly the client tasks that have not ended, no accepted client is
  forgotten, and the server returns only when every client it accepted has ended. Once the accept loop is
  left, no client is accepted any more.
\<close>

theorem echo_serves_to_the_end:
  assumes "wait_group wg workers"
    and "echo_run rt os io wg inner dbg env evs (echo_server wg stream, t, w) = Some (sv, t1, w1)"
    and "echo_run rt os io wg inner dbg env evs2 (sv, t1, w1) = Some (sv', t2, w2)"
  shows "workers (sv_wg sv') = alive_clients sv' \<and> (sv_pc sv' = ServerDone \<longrightarrow> alive_clients sv' = 0)
    \<and> (\<exists>new. map cl_fd (sv_clients sv') = map cl_fd (sv_clients sv) @ new)
    \<and> (sv_pc sv \<in> {Draining, ServerDone} \<longrightarrow> map cl_fd (sv_clients sv') = map cl_fd (sv_clients sv))"
proof -
  have "echo_inv workers sv"
    using wait_group.echo_run_inv [OF assms(1) wait_group.echo_server_inv [OF assms(1)] assms(2)] by simp
  from wait_group.echo_run_inv [OF assms(1) this assms(3)] show ?thesis by (simp add: echo_inv_def)
qed

text \<open>The poll of a server that is accepting, by the answer of its stream.\<close>

lemma accept_loop_left:
  assumes "stoppable_poll_next rt inner (sv_stream sv, t, w) = Some (Ret (Ready r), (ss, t', w'))" and "\<And>c. r \<noteq> Some (Inr c)"
  shows "accept_loop rt wg inner (sv, t, w) = Some (Ret True, (sv\<lparr>sv_stream := ss\<rparr>, t', w'))"
  using assms by (cases r rule: option.exhaust; cases "the r") (auto simp: accept_loop.simps [of rt wg inner] Let_def)

text \<open>
  C16. A stop reaches the server. When the supervisor has broadcast a condition that stops its stream, the
  next poll of an accepting server returns and accepts nobody, even if connections are waiting. If every
  client has ended the server ends too and its listening descriptor is closed; otherwise it waits for them,
  and the listening descriptor stays open meanwhile. When the last client has ended the next poll ends the
  server and closes the descriptor.
\<close>

theorem echo_ends_after_stop:
  assumes "watch_runtime rt view" and "posix_fds os fdt" and "wait_group wg workers" and "echo_inv workers sv" and "sv_pc sv = Accepting"
    and "chan_value (view t) c = Some st" and "synced (view t) c st (sv_stream sv)" and "\<not> should_continue (ss_policy (sv_stream sv)) st"
  shows "\<exists>sv' t' w'. server_poll rt os wg inner dbg env (sv, t, w) = Some (sv', t', w') \<and> sv_clients sv' = sv_clients sv
    \<and> sv_pc sv' = (if alive_clients sv = 0 then ServerDone else Draining)
    \<and> fdt w' = (if alive_clients sv = 0 then (fdt w)(ss_stream (sv_stream sv) := None) else fdt w)
    \<and> (\<forall>sv2 t2 w2. sv_pc sv2 = Draining \<and> sv_stream sv2 = sv_stream sv' \<and> echo_inv workers sv2 \<and> alive_clients sv2 = 0 \<longrightarrow>
        (\<exists>t3 w3. server_poll rt os wg inner dbg env (sv2, t2, w2) = Some (sv2\<lparr>sv_pc := ServerDone\<rparr>, t3, w3)
          \<and> fdt w3 = (fdt w2)(ss_stream (sv_stream sv) := None)))"
proof -
  let ?ss = "(sv_stream sv)\<lparr>ss_state := st\<rparr>"
  obtain t' where "stoppable_poll_next rt inner (sv_stream sv, t, w) = Some (Ret (Ready None), (?ss, t', w))"
    using watch_runtime.stoppable_poll [OF assms(1,6,7), of inner w] assms(8) by auto
  then have "accept_loop rt wg inner (sv, t, w) = Some (Ret True, (sv\<lparr>sv_stream := ?ss\<rparr>, t', w))" by (rule accept_loop_left) simp
  then have p: "server_poll rt os wg inner dbg env (sv, t, w) = Some (server_wait rt os wg (sv\<lparr>sv_stream := ?ss\<rparr>, t', w))"
    using assms(5) by (simp add: server_poll_def server_serve_def)
  have n: "workers (sv_wg sv) = alive_clients sv" using assms(4) by (simp add: echo_inv_def)
  have close: "fdt (snd (drop_stream rt os ss (t1, w1))) = (fdt w1)(ss_stream ss := None)" for ss t1 w1
    using posix_fds.close_gone [OF assms(2)] by (simp add: drop_stream_def)
  have later: "\<exists>t3 w3. server_poll rt os wg inner dbg env (sv2, t2, w2) = Some (sv2\<lparr>sv_pc := ServerDone\<rparr>, t3, w3)
      \<and> fdt w3 = (fdt w2)(ss_stream (sv_stream sv) := None)"
    if "sv_pc sv2 = Draining" "sv_stream sv2 = ?ss" "echo_inv workers sv2" "alive_clients sv2 = 0" for sv2 t2 w2
    by (cases rule: wait_group.server_wait_run [OF assms(3), of sv2 rt os t2 w2])
      (use that close [of "sv_stream sv2" t2 w2] in \<open>auto simp: echo_inv_def server_poll_def drop_stream_def\<close>)
  show ?thesis
  proof (cases rule: wait_group.server_wait_run [OF assms(3), of "sv\<lparr>sv_stream := ?ss\<rparr>" rt os t' w])
    case 1
    then show ?thesis using p n later by auto
  next
    case 2
    then show ?thesis using p n later close [of ?ss t' w] by (cases "drop_stream rt os ?ss (t', w)") auto
  qed
qed

text \<open>
  C40. One failed \<open>accept\<close> ends the server for good: the loop takes only
  \<open>Some(Ok(client))\<close>, so an error of the listener, such as too many open files, leaves it while
  nothing has asked for a stop, and from then on no connection is accepted, whatever happens.
\<close>

theorem accept_error_ends_server:
  assumes "watch_runtime rt view" and "wait_group wg workers" and "echo_inv workers sv" and "sv_pc sv = Accepting"
    and "chan_value (view t) c = Some None" and "synced (view t) c None (sv_stream sv)"
    and "next (ss_stream (sv_stream sv)) w = (Ready (Some (Inl e)), w')"
    and "echo_run rt os io wg (sock_inner next) dbg env (PollServer # evs) (sv, t, w) = Some (sv', t'', w'')"
  shows "sv_pc sv' \<in> {Draining, ServerDone} \<and> map cl_fd (sv_clients sv') = map cl_fd (sv_clients sv)"
proof -
  let ?ss = "(sv_stream sv)\<lparr>ss_state := None, ss_stream := ss_stream (sv_stream sv)\<rparr>"
  obtain t' where "stoppable_poll_next rt (sock_inner next) (sv_stream sv, t, w) = Some (Ret (Ready (Some (Inl e))), (?ss, t', w'))"
    using watch_runtime.stoppable_poll [OF assms(1,5,6), of "sock_inner next" w] assms(7) by (auto simp: sock_inner_def)
  then have "accept_loop rt wg (sock_inner next) (sv, t, w) = Some (Ret True, (sv\<lparr>sv_stream := ?ss\<rparr>, t', w'))"
    by (rule accept_loop_left) simp
  then have p: "server_poll rt os wg (sock_inner next) dbg env (sv, t, w) = Some (server_wait rt os wg (sv\<lparr>sv_stream := ?ss\<rparr>, t', w'))"
    using assms(4) by (simp add: server_poll_def server_serve_def)
  obtain sv1 t1 w1 where s: "server_wait rt os wg (sv\<lparr>sv_stream := ?ss\<rparr>, t', w') = (sv1, t1, w1)"
    by (cases "server_wait rt os wg (sv\<lparr>sv_stream := ?ss\<rparr>, t', w')")
  have "workers (sv_wg (sv\<lparr>sv_stream := ?ss\<rparr>)) = alive_clients (sv\<lparr>sv_stream := ?ss\<rparr>)"
    using assms(3) by (simp add: echo_inv_def alive_clients_def)
  from wait_group.server_wait_inv [OF assms(2) this s]
  have sv1: "echo_inv workers sv1" "sv_clients sv1 = sv_clients sv" "sv_pc sv1 \<in> {Draining, ServerDone}" by simp_all
  have "echo_run rt os io wg (sock_inner next) dbg env evs (sv1, t1, w1) = Some (sv', t'', w'')"
    using assms(8) p s by (simp add: echo_step_def)
  from wait_group.echo_run_inv [OF assms(2) sv1(1) this] show ?thesis using sv1(2,3) by auto
qed

subsection \<open>Properties: the polls return\<close>

definition in_step :: "watch_view \<Rightarrow> nat \<Rightarrow> fd stoppable_stream \<Rightarrow> bool" where
  "in_step v c ss \<longleftrightarrow> (\<exists>st. chan_value v c = Some st \<and> synced v c st ss)"

text \<open>What an event leaves alone: the stream of the server stays in step with its channel.\<close>

fun keeps_step :: "('t \<Rightarrow> watch_view) \<Rightarrow> nat \<Rightarrow> handle \<Rightarrow> ('t, 'w) echo_event \<Rightarrow> bool" where
  "keeps_step view c rx (Elsewhere f) = (\<forall>ss t w. ss_rx ss = rx \<and> in_step (view t) c ss \<longrightarrow> in_step (view (fst (f (t, w)))) c ss)"
| "keeps_step view c rx _ = True"

lemma keeps_stepD:
  assumes "keeps_step view c rx (Elsewhere f)" and "ss_rx ss = rx" and "in_step (view t) c ss" and "f (t, w) = (t', w')"
  shows "in_step (view t') c ss"
proof -
  have "in_step (view (fst (f (t, w)))) c ss" using assms(1-3) by simp
  then show ?thesis unfolding assms(4) by simp
qed

lemma see_in_step:
  assumes "chan_value v c = Some st" and "ss_rx ss' = ss_rx ss" and "ss_state ss' = st"
  shows "in_step (see (ss_rx ss) c v) c ss'"
  using assms by (auto simp: in_step_def synced_def see_def)

lemma accept_loop_returns:
  assumes "watch_runtime rt view" and "finite_backlog accept backlog" and "in_step (view t) c (sv_stream sv)"
  shows "\<exists>x sv' t' w'. accept_loop rt wg (sock_inner accept) (sv, t, w) = Some (Ret x, (sv', t', w'))
    \<and> in_step (view t') c (sv_stream sv') \<and> ss_rx (sv_stream sv') = ss_rx (sv_stream sv)"
  using assms(3)
proof (induction "backlog w" arbitrary: sv t w rule: less_induct)
  case less
  obtain st where st: "chan_value (view t) c = Some st" "synced (view t) c st (sv_stream sv)"
    using less.prems by (auto simp: in_step_def)
  obtain p w1 where p: "accept (ss_stream (sv_stream sv)) w = (p, w1)" by fastforce
  have same: "(sv_stream sv)\<lparr>ss_state := st, ss_stream := ss_stream (sv_stream sv)\<rparr> = (sv_stream sv)\<lparr>ss_state := st\<rparr>" by simp
  obtain t1 where run: "stoppable_poll_next rt (sock_inner accept) (sv_stream sv, t, w) = Some (
      if should_continue (ss_policy (sv_stream sv)) st
      then (case sock_inner accept (ss_stream (sv_stream sv), w) of (x, (s', w')) \<Rightarrow> (x, ((sv_stream sv)\<lparr>ss_state := st, ss_stream := s'\<rparr>, t1, w')))
      else (Ret (Ready None), ((sv_stream sv)\<lparr>ss_state := st\<rparr>, t1, w)))"
    and v: "view t1 = see (ss_rx (sv_stream sv)) c (view t)"
    by (rule watch_runtime.stoppable_poll [OF assms(1) st])
  have t1: "stoppable_poll_next rt (sock_inner accept) (sv_stream sv, t, w) = Some (
      if should_continue (ss_policy (sv_stream sv)) st then (Ret p, ((sv_stream sv)\<lparr>ss_state := st\<rparr>, t1, w1))
      else (Ret (Ready None), ((sv_stream sv)\<lparr>ss_state := st\<rparr>, t1, w)))"
    unfolding run by (simp add: sock_inner_def p same)
  have step: "in_step (view t1) c ((sv_stream sv)\<lparr>ss_state := st\<rparr>)" unfolding v by (rule see_in_step [OF st(1)]) simp_all
  show ?case
  proof (cases "should_continue (ss_policy (sv_stream sv)) st \<and> (\<exists>client. p = Ready (Some (Inr client)))")
    case True
    then obtain client where client: "p = Ready (Some (Inr client))" by blast
    let ?sv = "spawn_client wg client (sv\<lparr>sv_stream := (sv_stream sv)\<lparr>ss_state := st\<rparr>\<rparr>)"
    have s: "sv_stream ?sv = (sv_stream sv)\<lparr>ss_state := st\<rparr>" by (simp add: spawn_client_def)
    have "backlog w1 < backlog w" using finite_backlog.accept_shrinks [OF assms(2)] p client by simp
    from less.hyps [OF this, of t1 ?sv] step s
    have "\<exists>x sv' t' w'. accept_loop rt wg (sock_inner accept) (?sv, t1, w1) = Some (Ret x, (sv', t', w'))
      \<and> in_step (view t') c (sv_stream sv') \<and> ss_rx (sv_stream sv') = ss_rx (sv_stream sv)" by simp
    then show ?thesis using t1 True client by (simp add: accept_loop.simps [of rt wg _ "(sv, t, w)"])
  next
    case False
    then show ?thesis using t1 step
      by (cases p rule: poll.exhaust) (auto simp: accept_loop.simps [of rt wg _ "(sv, t, w)"] Let_def split: option.splits sum.splits)
  qed
qed

text \<open>One poll: it returns; and while the server may still accept its stream is in step.\<close>

definition stream_ok :: "('t \<Rightarrow> watch_view) \<Rightarrow> nat \<Rightarrow> handle \<Rightarrow> ('g, 't, 'w) svstate \<Rightarrow> bool" where
  "stream_ok view c rx = (\<lambda>(sv, t, w). sv_pc sv = Unstarted \<or> sv_pc sv = Accepting \<longrightarrow> ss_rx (sv_stream sv) = rx \<and> in_step (view t) c (sv_stream sv))"

lemma server_serve_returns:
  assumes "watch_runtime rt view" and "finite_backlog accept backlog" and "in_step (view t) c (sv_stream sv)" and "ss_rx (sv_stream sv) = rx"
  shows "\<exists>s'. server_serve rt os wg (sock_inner accept) (sv, t, w) = Some s' \<and> stream_ok view c rx s'"
proof -
  obtain x sv' t' w' where run: "accept_loop rt wg (sock_inner accept) (sv, t, w) = Some (Ret x, (sv', t', w'))"
    "in_step (view t') c (sv_stream sv')" "ss_rx (sv_stream sv') = rx"
    using accept_loop_returns [OF assms(1-3)] assms(4) by blast
  then show ?thesis
    by (cases "wg_wait wg (sv_wg sv')") (auto simp: server_serve_def server_wait_def server_end_def drop_stream_def stream_ok_def)
qed

lemma server_poll_returns:
  assumes "watch_runtime rt view" and "finite_backlog accept backlog" and "stream_ok view c rx (sv, t, w)"
  shows "\<exists>s'. server_poll rt os wg (sock_inner accept) dbg env (sv, t, w) = Some s' \<and> stream_ok view c rx s'"
proof (cases "sv_pc sv")
  case Unstarted
  show ?thesis
  proof (cases "read_reload_count dbg env")
    case (Ret n)
    then show ?thesis using server_serve_returns [OF assms(1,2), of t c "sv\<lparr>sv_count := n, sv_wg := wg_new wg, sv_pc := Accepting\<rparr>" rx] assms(3) Unstarted
      by (simp add: server_poll_def stream_ok_def)
  next
    case (Panic m)
    then show ?thesis using Unstarted by (simp add: server_poll_def server_end_def drop_stream_def stream_ok_def)
  next
    case (Exit n)
    then show ?thesis by (auto simp: read_reload_count_def split: sum.splits)
  qed
next
  case Accepting
  then show ?thesis using server_serve_returns [OF assms(1,2), of t c sv rx] assms(3) by (simp add: server_poll_def stream_ok_def)
next
  case Draining
  then show ?thesis
    by (cases "wg_wait wg (sv_wg sv)") (auto simp: server_poll_def server_wait_def server_end_def drop_stream_def stream_ok_def)
qed (simp_all add: server_poll_def stream_ok_def)

text \<open>
  C23. Every run of the server goes on: if only finitely many connections can wait at a time, and whatever
  else happens leaves the stream in step with the supervisor's channel (as a broadcast does, and everything
  that concerns other streams), then under every schedule each poll of the server and of its clients returns,
  so no run is stuck in the accept loop.
\<close>

theorem echo_run_returns:
  assumes "watch_runtime rt view" and "finite_backlog accept backlog" and "in_step (view t) c stream"
    and "\<forall>ev\<in>set evs. keeps_step view c (ss_rx stream) ev"
  shows "\<exists>s'. echo_run rt os io wg (sock_inner accept) dbg env evs (echo_server wg stream, t, w) = Some s'"
proof -
  have "\<exists>s'. echo_run rt os io wg (sock_inner accept) dbg env evs s = Some s'" if "stream_ok view c (ss_rx stream) s" for s
    using assms(4) that
  proof (induction evs arbitrary: s)
    case (Cons ev evs)
    obtain sv t w where s: "s = (sv, t, w)" by (cases s)
    have "\<exists>s1. echo_step rt os io wg (sock_inner accept) dbg env ev s = Some s1 \<and> stream_ok view c (ss_rx stream) s1"
    proof (cases ev)
      case PollServer
      then show ?thesis using server_poll_returns [OF assms(1,2)] Cons.prems(2) s by (simp add: echo_step_def)
    next
      case (PollClient i)
      then show ?thesis using Cons.prems(2) s by (auto simp: echo_step_def clients_poll_def stream_ok_def split: prod.splits)
    next
      case (Elsewhere f)
      obtain t1 w1 where f: "f (t, w) = (t1, w1)" by fastforce
      have "keeps_step view c (ss_rx stream) (Elsewhere f)" using Elsewhere Cons.prems(1) by simp
      then have "stream_ok view c (ss_rx stream) (sv, t1, w1)"
        using Cons.prems(2) keeps_stepD [of view c "ss_rx stream" f "sv_stream sv" t w t1 w1] f unfolding s stream_ok_def prod.case by blast
      then show ?thesis using Elsewhere s f by (simp add: echo_step_def)
    qed
    then obtain s1 where s1: "echo_step rt os io wg (sock_inner accept) dbg env ev s = Some s1" "stream_ok view c (ss_rx stream) s1" by blast
    show ?case using Cons.IH [OF _ s1(2)] Cons.prems(1) s1(1) by simp
  qed auto
  then show ?thesis using assms(3) by (simp add: stream_ok_def echo_server_def)
qed

subsection \<open>Concrete runs\<close>

text \<open>Connections on the kernel: what is sent goes to the outbox, and a client that has sent something is echoed and hangs up.\<close>

definition k_io :: "kworld conn_io" where
  "k_io = \<lparr>conn_write_all = (\<lambda>fd b w. case k_send fd b w of (r, w') \<Rightarrow> (Ready r, w')),
     conn_copy = (\<lambda>fd w. case map_of (k_inbox w) fd of
         None \<Rightarrow> (Pending, w)
       | Some b \<Rightarrow> (Ready (Inr (length b)), snd (k_send fd b w))), tcp_next = k_accept\<rparr>"

definition echo_ex_env :: environment where
  "echo_ex_env = Map.empty(ECDYSIS_RELOADS \<mapsto> EnvText ''258'')"

definition echo_ex_stream :: "fd stoppable_stream" where
  "echo_ex_stream = \<lparr>ss_stream = 4, ss_policy = Yes, ss_rx = 1, ss_state = None\<rparr>"

text \<open>A listener with one connection waiting, at most \<open>n\<close> open files.\<close>

definition echo_ex_world :: "int \<Rightarrow> kworld" where
  "echo_ex_world n = kw0\<lparr>k_fds := (4, \<lparr>cloexec = True, ofd = 7\<rparr>) # k_fds kw0, k_inbox := [(4, [])], k_nofile := n\<rparr>"

definition echo_ex_run ::
    "(tokio_rt, kworld) echo_event list \<Rightarrow> (nat, tokio_rt, kworld) svstate \<Rightarrow> (nat, tokio_rt, kworld) svstate option" where
  "echo_ex_run = echo_run trt kern k_io counter_wg (sock_inner (tcp_next k_io)) sd_ex_dbg echo_ex_env"

definition echo_ex_start :: "int \<Rightarrow> (nat, tokio_rt, kworld) svstate" where
  "echo_ex_start n = (echo_server counter_wg echo_ex_stream, sup_ex_rt None True, echo_ex_world n)"

text \<open>The client is greeted, a stop comes, the client says \<open>hi\<close> and is echoed.\<close>

definition echo_ex_stop :: "(tokio_rt, kworld) echo_event list" where
  "echo_ex_stop = [PollServer, PollClient 0, Elsewhere (\<lambda>(t, w). (snd (watch_send trt 1 (Some Stop) t), w)), PollServer]"

definition echo_ex_bye :: "(tokio_rt, kworld) echo_event list" where
  "echo_ex_bye = [Elsewhere (\<lambda>(t, w). (t, w\<lparr>k_inbox := [(3, ''hi'')]\<rparr>)), PollClient 0, PollServer]"

lemma echo_ex_runs:
  "(case echo_ex_run echo_ex_stop (echo_ex_start 16) of
      None \<Rightarrow> False
    | Some (sv, t, w) \<Rightarrow> sv_pc sv = Draining \<and> map cl_fd (sv_clients sv) = [3] \<and> k_outbox w = [(3, to_be_bytes 258)]
        \<and> (case echo_ex_run echo_ex_bye (sv, t, w) of
            None \<Rightarrow> False
          | Some (sv', t', w') \<Rightarrow> sv_pc sv' = ServerDone \<and> k_outbox w' = [(3, to_be_bytes 258), (3, ''hi'')] \<and> k_fdt w' 4 = None))"
  by code_simp

theorem echo_serves_to_the_end_witness:
  "\<exists>sv t w sv' t' w'. echo_ex_run echo_ex_stop (echo_ex_start 16) = Some (sv, t, w) \<and> echo_ex_run echo_ex_bye (sv, t, w) = Some (sv', t', w')
    \<and> sv_pc sv' = ServerDone \<and> alive_clients sv' = 0 \<and> map cl_fd (sv_clients sv') = [3]"
proof -
  obtain sv t w where 1: "echo_ex_run echo_ex_stop (echo_ex_start 16) = Some (sv, t, w)"
    using case_option_FalseD [OF echo_ex_runs] by (metis surj_pair)
  note ex = echo_ex_runs [unfolded 1 option.case prod.case]
  then have pc: "sv_pc sv = Draining" "map cl_fd (sv_clients sv) = [3]" by simp_all
  have 2: "case echo_ex_run echo_ex_bye (sv, t, w) of None \<Rightarrow> False | Some (sv', t', w') \<Rightarrow> sv_pc sv' = ServerDone
      \<and> k_outbox w' = [(3, to_be_bytes 258), (3, ''hi'')] \<and> k_fdt w' 4 = None"
    using ex by (elim conjE)
  obtain sv' t' w' where 3: "echo_ex_run echo_ex_bye (sv, t, w) = Some (sv', t', w')" and pc': "sv_pc sv' = ServerDone"
    using case_option_FalseD [OF 2] by auto
  note run = 1 3 and pc = pc pc'
  from echo_serves_to_the_end [OF counter.wait_group_axioms run [unfolded echo_ex_run_def echo_ex_start_def]]
  have "alive_clients sv' = 0" "map cl_fd (sv_clients sv') = [3]" using pc by simp_all
  then show ?thesis using run pc(3) by (intro exI conjI)
qed

definition echo_ex_sv :: "nat server" where
  "echo_ex_sv = (echo_server counter_wg echo_ex_stream)\<lparr>sv_pc := Accepting\<rparr>"

lemma echo_ex_sv_ok: "echo_inv id echo_ex_sv" "sv_pc echo_ex_sv = Accepting" "sv_stream echo_ex_sv = echo_ex_stream"
  by (simp_all add: echo_ex_sv_def echo_server_def echo_inv_def alive_clients_def counter_wg_def)

lemma echo_ex_synced: "synced (trt_view (sup_ex_rt st True)) 1 st (sv_stream echo_ex_sv)"
  by (simp add: echo_ex_sv_ok synced_def sup_ex_rt_def trt_view_def echo_ex_stream_def)

theorem echo_ends_after_stop_witness:
  "\<exists>sv' t' w'. server_poll trt kern counter_wg (sock_inner (tcp_next k_io)) sd_ex_dbg echo_ex_env
      (echo_ex_sv, sup_ex_rt (Some Upgrade) True, echo_ex_world 16) = Some (sv', t', w') \<and> sv_pc sv' = ServerDone \<and> k_fdt w' 4 = None"
proof -
  have "\<not> should_continue (ss_policy (sv_stream echo_ex_sv)) (Some Upgrade)" by simp
  moreover have "alive_clients echo_ex_sv = 0" by (simp add: echo_ex_sv_def echo_server_def alive_clients_def)
  moreover have "ss_stream (sv_stream echo_ex_sv) = 4" by (simp add: echo_ex_sv_ok echo_ex_stream_def)
  ultimately show ?thesis
    using echo_ends_after_stop [OF trt.watch_runtime_axioms kern_fds.posix_fds_axioms counter.wait_group_axioms echo_ex_sv_ok(1,2)
      sup_ex_view(2) echo_ex_synced, of "Some Upgrade" "sock_inner (tcp_next k_io)" sd_ex_dbg echo_ex_env "echo_ex_world 16"] by force
qed

text \<open>With no descriptor left, the connection that waits is not accepted, now or later.\<close>

lemma echo_ex_full: "tcp_next k_io (ss_stream (sv_stream echo_ex_sv)) (echo_ex_world 3) = (Ready (Some (Inl (OsError EMFILE))), echo_ex_world 3)"
  unfolding echo_ex_sv_ok by code_simp

lemma echo_ex_full_run:
  "\<exists>s'. echo_run trt kern k_io counter_wg (sock_inner (tcp_next k_io)) sd_ex_dbg echo_ex_env
    [PollServer, Elsewhere (\<lambda>(t, w). (t, w\<lparr>k_nofile := 16\<rparr>)), PollServer] (echo_ex_sv, sup_ex_rt None True, echo_ex_world 3) = Some s'"
proof -
  have "echo_run trt kern k_io counter_wg (sock_inner (tcp_next k_io)) sd_ex_dbg echo_ex_env
    [PollServer, Elsewhere (\<lambda>(t, w). (t, w\<lparr>k_nofile := 16\<rparr>)), PollServer] (echo_ex_sv, sup_ex_rt None True, echo_ex_world 3) \<noteq> None"
    by code_simp
  then show ?thesis by blast
qed

theorem accept_error_ends_server_witness:
  "\<exists>sv' t' w'. echo_run trt kern k_io counter_wg (sock_inner (tcp_next k_io)) sd_ex_dbg echo_ex_env
      [PollServer, Elsewhere (\<lambda>(t, w). (t, w\<lparr>k_nofile := 16\<rparr>)), PollServer] (echo_ex_sv, sup_ex_rt None True, echo_ex_world 3) = Some (sv', t', w')
    \<and> sv_clients sv' = []"
proof -
  obtain sv' t' w' where run: "echo_run trt kern k_io counter_wg (sock_inner (tcp_next k_io)) sd_ex_dbg echo_ex_env
      [PollServer, Elsewhere (\<lambda>(t, w). (t, w\<lparr>k_nofile := 16\<rparr>)), PollServer] (echo_ex_sv, sup_ex_rt None True, echo_ex_world 3) = Some (sv', t', w')"
    using echo_ex_full_run by auto
  have "sv_clients echo_ex_sv = []" by (simp add: echo_ex_sv_def echo_server_def)
  then have "sv_clients sv' = []"
    using accept_error_ends_server [OF trt.watch_runtime_axioms counter.wait_group_axioms echo_ex_sv_ok(1,2) sup_ex_view(2) echo_ex_synced
      echo_ex_full run] by simp
  then show ?thesis using run by blast
qed

lemma echo_ex_stop_keeps: "\<forall>ev\<in>set echo_ex_stop. keeps_step trt_view 1 1 ev"
proof -
  have "in_step (trt_view (snd (watch_send trt 1 (Some Stop) t))) 1 ss" if "ss_rx ss = 1" "in_step (trt_view t) 1 ss" for ss t
  proof (cases "watch_send trt 1 (Some Stop) t")
    case (Pair r t')
    show ?thesis
    proof (cases r)
      case (Inl e)
      then have "t' = t" using Pair by (auto simp: trt_def trt_send_def split: option.splits if_splits)
      then show ?thesis using that Pair by simp
    next
      case (Inr u)
      then obtain c where "trt_view t' = (trt_view t)\<lparr>receivers := mark_unseen c (receivers (trt_view t)), chan_value := (chan_value (trt_view t))(c \<mapsto> Some Stop)\<rparr>"
        using trt.send_means Pair by (metis (full_types) old.unit.exhaust)
      then show ?thesis using that Pair by (auto simp: in_step_def synced_def mark_unseen_def split: option.splits)
    qed
  qed
  then show ?thesis by (simp add: echo_ex_stop_def)
qed

theorem echo_run_returns_witness: "\<exists>s'. echo_ex_run echo_ex_stop (echo_ex_start 16) = Some s'"
proof -
  have "in_step (trt_view (sup_ex_rt None True)) 1 echo_ex_stream"
    using sup_ex_view(2) echo_ex_synced by (auto simp: in_step_def echo_ex_sv_ok)
  moreover have "ss_rx echo_ex_stream = 1" by (simp add: echo_ex_stream_def)
  moreover have "tcp_next k_io = k_accept" by (simp add: k_io_def)
  ultimately show ?thesis
    using echo_run_returns [OF trt.watch_runtime_axioms kern_backlog.finite_backlog_axioms, of _ 1 echo_ex_stream echo_ex_stop] echo_ex_stop_keeps
    by (simp add: echo_ex_run_def echo_ex_start_def)
qed

end
