(* ===== verification/Echo_Main.thy ===== *)
theory Echo_Main
  imports Monitor Echo_Server
begin

text \<open>
  \<open>main\<close> of \<open>examples/tokio_echo.rs\<close>, in the three parts its awaits divide it into:
  the start up to \<open>ready\<close> (\<open>echo_start\<close>), the monitor (theory
  \<open>Monitor\<close>), and the exit (\<open>exit_step\<close>): a timer that ends the process after a
  minute, a sleep of a second, and joining the two server tasks. The process environment is passed along,
  because \<open>main\<close> changes it before the library reads it. Both optional features are compiled in.
  \<open>checks\<close> says whether additions are checked for overflow, as in a debug build.

  The runtime has one thread and the start never waits, so the two server tasks are first polled when
  \<open>main\<close> waits for the monitor. A panic of \<open>main\<close> ends the process; what its
  unwinding drops on the way is left out.
\<close>

subsection \<open>The environment\<close>

definition set_listen_pid :: "int \<Rightarrow> environment \<Rightarrow> environment" where
  "set_listen_pid pid env = (case env_var env LISTEN_FDNAMES of
      Inr v \<Rightarrow> if v = [] then env else env(LISTEN_PID \<mapsto> EnvText (show_int pid))
    | Inl e \<Rightarrow> env)"

definition overflow_panic :: string where
  "overflow_panic = ''attempt to add with overflow''"

text \<open>\<open>format!("{reload_count}")\<close>\<close>

definition show_u32 :: "32 word \<Rightarrow> string" where
  "show_u32 n = show_nat (unat n)"

definition count_reload :: "bool \<Rightarrow> debug_text \<Rightarrow> environment \<Rightarrow> (32 word \<times> environment) outcome" where
  "count_reload checks dbg env = (case env_var env ECDYSIS_RELOADS of
      Inl e \<Rightarrow> Ret (0, env(ECDYSIS_RELOADS \<mapsto> EnvText ''0''))
    | Inr s \<Rightarrow> (case parse_u32 s of
          Inl e \<Rightarrow> Panic (unwrap_panic @ dbg_parse dbg e)
        | Inr n \<Rightarrow>
            if checks \<and> n + 1 = 0 then Panic overflow_panic
            else Ret (n + 1, env(ECDYSIS_RELOADS \<mapsto> EnvText (show_u32 (n + 1))))))"

definition prepare_env :: "bool \<Rightarrow> debug_text \<Rightarrow> int \<Rightarrow> environment \<Rightarrow> (32 word \<times> environment) outcome" where
  "prepare_env checks dbg pid env = count_reload checks dbg (set_listen_pid pid env)"

subsection \<open>The start\<close>

definition SIGHUP :: signal_kind where "SIGHUP = 1"
definition SIGUSR1 :: signal_kind where "SIGUSR1 = 10"
definition SIGUSR2 :: signal_kind where "SIGUSR2 = 12"

definition unwrapP :: "('e \<Rightarrow> string) \<Rightarrow> ('s, 'e + 'a) prog \<Rightarrow> ('s, 'a) prog" where
  "unwrapP debug m = bindP m (\<lambda>r. case r of Inl e \<Rightarrow> panicP (unwrap_panic @ debug e) | Inr a \<Rightarrow> returnP a)"

definition expectP :: "string \<Rightarrow> ('e \<Rightarrow> string) \<Rightarrow> ('s, 'e + 'a) prog \<Rightarrow> ('s, 'a) prog" where
  "expectP msg debug m = bindP m (\<lambda>r. case r of Inl e \<Rightarrow> panicP (msg @ '': '' @ debug e) | Inr a \<Rightarrow> returnP a)"

definition echo_ip :: "ip_addr outcome" where
  "echo_ip = (case ip_addr_from_str ''[::1]'' of
      Some ip \<Rightarrow> Ret ip
    | None \<Rightarrow> (case ip_addr_from_str ''0.0.0.0'' of
          Some ip \<Rightarrow> Ret ip
        | None \<Rightarrow> Panic (unwrap_panic @ ''AddrParseError(Ip)'')))"

text \<open>The closure given to \<open>build_listen_tcp\<close>; it owns the socket.\<close>

definition echo_sock_build :: "'w os \<Rightarrow> ip_addr \<Rightarrow> fd \<Rightarrow> socket_addr \<Rightarrow> ('w, io_error + fd) prog" where
  "echo_sock_build os ip_addr b addr = owning (\<lambda>w. snd (sys_close os b w))
    (bindP (if is_ipv6 ip_addr then expectP ''cannot set v6 here'' (fmt_io_debug os) (liftP (socket_set_only_v6 os b True)) else returnP ()) (\<lambda>u1.
     bindP (expectP ''Cannot set REUSEADDR'' (fmt_io_debug os) (liftP (socket_set_reuse_address os b True))) (\<lambda>u2.
     bindP (expectP ''Cannot bind to provided IP'' (fmt_io_debug os) (liftP (socket_bind os b addr))) (\<lambda>u3.
     tryP (liftP (socket_listen os b 128)) (\<lambda>u4. returnP (Inr b))))))"

text \<open>From \<open>stop_on_signal\<close> to \<open>read_systemd_sockets\<close>; errors of the two systemd calls are logged and ignored.\<close>

definition echo_configure :: "'t rt \<Rightarrow> 'w os \<Rightarrow> debug_text \<Rightarrow> environment \<Rightarrow> (('t, 'w) bstate, unit) prog" where
  "echo_configure rt os dbg env =
    bindP (unwrapP (fmt_io_debug os) (stop_on_signal rt SIGUSR1)) (\<lambda>u1.
    bindP (unwrapP (fmt_io_debug os) (partial_stop_on_signal rt SIGUSR2)) (\<lambda>u2.
    bindP (unwrapP (fmt_io_debug os) (upgrade_on_socket rt os ''/tmp/ecdysis_upgrade.sock'')) (\<lambda>u3.
    bindP (unwrapP (fmt_io_debug os) (stop_on_socket rt os ''/tmp/ecdysis_exit.sock'')) (\<lambda>u4.
    bindP (unwrapP (fmt_io_debug os) (partial_stop_on_socket rt os ''/tmp/ecdysis_partial_exit.sock'')) (\<lambda>u5.
    bindP (\<lambda>(b, t, w). (Ret (), (b_set_pid_file ''./pidfile'' b, t, w))) (\<lambda>u6.
    bindP (enable_systemd_notifications os env) (\<lambda>ignored1.
    bindP (b_read_systemd_sockets os dbg env) (\<lambda>ignored2. returnP ()))))))))"

text \<open>The two listeners; \<open>dse\<close> is the debug text of a \<open>SystemdSocketError\<close>.\<close>

definition echo_listen ::
    "'t rt \<Rightarrow> 'w os \<Rightarrow> debug_text \<Rightarrow> (systemd_socket_error \<Rightarrow> string) \<Rightarrow> ip_addr
      \<Rightarrow> (('t, 'w) bstate, fd stoppable_stream \<times> fd stoppable_stream) prog" where
  "echo_listen rt os dbg dse ip_addr =
    bindP (unwrapP (fmt_io_debug os)
      (onTe (t_build_listen_tcp rt os Yes (socket_addr_new ip_addr 22222) (echo_sock_build os ip_addr)))) (\<lambda>stream.
    bindP (unwrapP dse
      (onTe (systemd_listen_unix rt os dbg Yes ''ecdysis_test_unix'' ''/tmp/ecdysis_int_test.sock''))) (\<lambda>sd_unix_stream.
    returnP (stream, sd_unix_stream)))"

definition echo_build ::
    "'t rt \<Rightarrow> 'w os \<Rightarrow> debug_text \<Rightarrow> (systemd_socket_error \<Rightarrow> string) \<Rightarrow> 'g wg_ops \<Rightarrow> environment
      \<Rightarrow> (('t, 'w) bstate, upgrader \<times> 'g server \<times> 'g server) prog" where
  "echo_build rt os dbg dse wg env =
    bindP (echo_configure rt os dbg env) (\<lambda>u.
    bindP (\<lambda>s. (echo_ip, s)) (\<lambda>ip_addr.
    bindP (echo_listen rt os dbg dse ip_addr) (\<lambda>(stream, sd_unix_stream).
    bindP (unwrapP (fmt_io_debug os) (b_ready rt os)) (\<lambda>upgrader.
    returnP (upgrader, echo_server wg stream, echo_server wg sd_unix_stream)))))"

definition echo_start ::
    "'t rt \<Rightarrow> 'w os \<Rightarrow> codec \<Rightarrow> debug_text \<Rightarrow> (systemd_socket_error \<Rightarrow> string) \<Rightarrow> 'g wg_ops \<Rightarrow> bool \<Rightarrow> environment
      \<Rightarrow> ('t \<times> 'w, environment \<times> upgrader \<times> 'g server \<times> 'g server) prog" where
  "echo_start rt os codec dbg dse wg checks env = (\<lambda>(t, w). case prepare_env checks dbg (sys_getpid os w) env of
      Panic m \<Rightarrow> (Panic m, (t, w))
    | Exit n \<Rightarrow> (Exit n, (t, w))
    | Ret (reload_count, env') \<Rightarrow>
        bindP (unwrapP (fmt_io_debug os) (builder_new rt os codec env' SIGHUP)) (\<lambda>b (t, w).
          case echo_build rt os dbg dse wg env' (b, t, w) of
            (Ret r, (b', t', w')) \<Rightarrow> (Ret (env', r), (t', w'))
          | (Panic m, (b', t', w')) \<Rightarrow> (Panic m, (t', w'))
          | (Exit n, (b', t', w')) \<Rightarrow> (Exit n, (t', w'))) (t, w))"

subsection \<open>The exit\<close>

definition EXIT_AFTER_UPGRADE_DURATION :: nat where
  "EXIT_AFTER_UPGRADE_DURATION = 60 * 1000"

text \<open>Times are milliseconds since \<open>monitor\<close> returned. The deadline of the timer task is fixed when it is first polled.\<close>

datatype exit_pc = Sleeping nat | JoinServer | JoinSystemd

record 'g main_exit =
  ex_now :: nat
  ex_main :: exit_pc
  ex_timer :: "nat option"
  ex_server :: "'g server"
  ex_systemd :: "'g server"
  ex_outcome :: "unit outcome option"

definition exit_begin :: "'g server \<Rightarrow> 'g server \<Rightarrow> 'g main_exit" where
  "exit_begin server_handle systemd_server_handle = \<lparr>ex_now = 0, ex_main = Sleeping 1000, ex_timer = None,
    ex_server = server_handle, ex_systemd = systemd_server_handle, ex_outcome = None\<rparr>"

text \<open>\<open>handle.await.unwrap()\<close> and what follows; a panic of the task becomes a panic of \<open>main\<close>, which carries its message.\<close>

definition join_server :: "'g server \<Rightarrow> exit_pc \<Rightarrow> ('g main_exit \<Rightarrow> 'g main_exit) \<Rightarrow> 'g main_exit \<Rightarrow> 'g main_exit" where
  "join_server handle pc andthen ex = (case sv_pc handle of
      ServerDone \<Rightarrow> andthen ex
    | ServerPanicked m \<Rightarrow> ex\<lparr>ex_outcome := Some (Panic (unwrap_panic @ m))\<rparr>
    | _ \<Rightarrow> ex\<lparr>ex_main := pc\<rparr>)"

definition join_both :: "'g main_exit \<Rightarrow> 'g main_exit" where
  "join_both ex = join_server (ex_server ex) JoinServer
    (\<lambda>ex. join_server (ex_systemd ex) JoinSystemd (\<lambda>ex. ex\<lparr>ex_outcome := Some (Ret ())\<rparr>) ex) ex"

definition main_poll :: "'g main_exit \<Rightarrow> 'g main_exit" where
  "main_poll ex = (case ex_main ex of
      Sleeping deadline \<Rightarrow> if deadline \<le> ex_now ex then join_both ex else ex
    | JoinServer \<Rightarrow> join_both ex
    | JoinSystemd \<Rightarrow> join_server (ex_systemd ex) JoinSystemd (\<lambda>ex. ex\<lparr>ex_outcome := Some (Ret ())\<rparr>) ex)"

definition timer_poll :: "'g main_exit \<Rightarrow> 'g main_exit" where
  "timer_poll ex = (case ex_timer ex of
      None \<Rightarrow> ex\<lparr>ex_timer := Some (ex_now ex + EXIT_AFTER_UPGRADE_DURATION)\<rparr>
    | Some deadline \<Rightarrow> if deadline \<le> ex_now ex then ex\<lparr>ex_outcome := Some (Exit 1)\<rparr> else ex)"

datatype ('t, 'w) exit_event =
    PollMain
  | PollTimer
  | Tick nat
  | ServerEvent "('t, 'w) echo_event"
  | SystemdEvent "('t, 'w) echo_event"

text \<open>One step of the executor; after the end of the process nothing happens any more.\<close>

definition exit_step ::
    "'t rt \<Rightarrow> 'w os \<Rightarrow> 'w conn_io \<Rightarrow> 'g wg_ops \<Rightarrow> debug_text \<Rightarrow> environment
      \<Rightarrow> ('t, 'w) exit_event \<Rightarrow> 'g main_exit \<times> 't \<times> 'w \<Rightarrow> ('g main_exit \<times> 't \<times> 'w) option" where
  "exit_step rt os io wg dbg env ev = (\<lambda>(ex, t, w). if ex_outcome ex \<noteq> None then Some (ex, t, w) else (case ev of
      PollMain \<Rightarrow> Some (main_poll ex, t, w)
    | PollTimer \<Rightarrow> Some (timer_poll ex, t, w)
    | Tick n \<Rightarrow> Some (ex\<lparr>ex_now := ex_now ex + n\<rparr>, t, w)
    | ServerEvent e \<Rightarrow> (case echo_step rt os io wg (sock_inner (tcp_next io)) dbg env e (ex_server ex, t, w) of
          None \<Rightarrow> None
        | Some (sv, t', w') \<Rightarrow> Some (ex\<lparr>ex_server := sv\<rparr>, t', w'))
    | SystemdEvent e \<Rightarrow> (case echo_step rt os io wg (uds_inner os) dbg env e (ex_systemd ex, t, w) of
          None \<Rightarrow> None
        | Some (sv, t', w') \<Rightarrow> Some (ex\<lparr>ex_systemd := sv\<rparr>, t', w'))))"

fun exit_run ::
    "'t rt \<Rightarrow> 'w os \<Rightarrow> 'w conn_io \<Rightarrow> 'g wg_ops \<Rightarrow> debug_text \<Rightarrow> environment
      \<Rightarrow> ('t, 'w) exit_event list \<Rightarrow> 'g main_exit \<times> 't \<times> 'w \<Rightarrow> ('g main_exit \<times> 't \<times> 'w) option" where
  "exit_run rt os io wg dbg env [] s = Some s"
| "exit_run rt os io wg dbg env (ev # evs) s = (case exit_step rt os io wg dbg env ev s of
      None \<Rightarrow> None
    | Some s' \<Rightarrow> exit_run rt os io wg dbg env evs s')"

subsection \<open>Properties: generations\<close>

text \<open>The processes of a server that upgrades itself again and again: each prepares its environment, and starts the next one with
  \<open>child_env\<close> of it. \<open>gs\<close> has the pid and the pipes of each former generation.\<close>

fun generation :: "bool \<Rightarrow> debug_text \<Rightarrow> (int \<times> fd_pair) list \<Rightarrow> int \<Rightarrow> environment \<Rightarrow> (32 word \<times> environment) outcome" where
  "generation checks dbg [] pid env = prepare_env checks dbg pid env"
| "generation checks dbg ((p, pipes) # gs) pid env = (case prepare_env checks dbg p env of
      Ret (c, env') \<Rightarrow> generation checks dbg gs pid (child_env env' pipes)
    | Panic m \<Rightarrow> Panic m
    | Exit n \<Rightarrow> Exit n)"

lemma parse_show_u32: "parse_u32 (show_u32 n) = Inr n"
proof -
  have "unat n < 2 ^ 32" using unsigned_less [of n] by simp
  then show ?thesis using parse_u32_show [of "unat n"] by (simp add: show_u32_def)
qed

lemma env_var_set [simp]: "env_var (env(k \<mapsto> EnvText s)) k = Inr s"
  by (simp add: env_var_def)

lemma listen_pid_reloads: "env_var (set_listen_pid pid env) ECDYSIS_RELOADS = env_var env ECDYSIS_RELOADS"
  by (simp add: set_listen_pid_def env_var_def LISTEN_PID_def ECDYSIS_RELOADS_def split: sum.splits)

lemma child_env_reloads: "env_var (child_env env pipes) ECDYSIS_RELOADS = env_var env ECDYSIS_RELOADS"
  by (simp add: child_env_def env_var_def ENV_UPGRADE_def ENV_PIPE_FDS_def ENV_PIPE_READY_def LISTEN_PID_def LISTEN_FDNAMES_def
      LISTEN_FDS_def ECDYSIS_RELOADS_def)

lemma prepare_env_child:
  assumes "env_var env ECDYSIS_RELOADS = Inr (show_u32 (of_nat k))" and "Suc k < 2 ^ 32"
  obtains env' where "prepare_env checks dbg pid env = Ret (of_nat (Suc k), env')"
    and "env_var env' ECDYSIS_RELOADS = Inr (show_u32 (of_nat (Suc k)))"
proof -
  have "unat (of_nat (Suc k) :: 32 word) = Suc k" using assms(2) unat_of_nat [of "Suc k", where 'a = 32] by (simp del: of_nat_Suc)
  then have "(of_nat k + 1 :: 32 word) \<noteq> 0" by (metis add.commute of_nat_Suc unsigned_0 nat.distinct(1))
  then show thesis
    using that assms(1) parse_show_u32 by (simp add: prepare_env_def count_reload_def listen_pid_reloads add.commute)
qed

lemma generation_from:
  assumes "env_var env ECDYSIS_RELOADS = Inr (show_u32 (of_nat k))" and "k + Suc (length gs) < 2 ^ 32"
  shows "\<exists>env'. generation checks dbg gs pid env = Ret (of_nat (k + Suc (length gs)), env')
    \<and> env_var env' ECDYSIS_RELOADS = Inr (show_u32 (of_nat (k + Suc (length gs))))"
  using assms
proof (induction gs arbitrary: env k)
  case Nil
  then show ?case using prepare_env_child [of env k checks dbg pid] by (metis generation.simps(1) add_Suc_right add_0_right list.size(3))
next
  case (Cons g gs)
  obtain p pipes where g: "g = (p, pipes)" by fastforce
  have k: "Suc k < 2 ^ 32" using Cons.prems(2) by simp
  obtain env1 where e: "prepare_env checks dbg p env = Ret (of_nat (Suc k), env1)"
    "env_var env1 ECDYSIS_RELOADS = Inr (show_u32 (of_nat (Suc k)))"
    using prepare_env_child [OF Cons.prems(1) k] by blast
  have c: "env_var (child_env env1 pipes) ECDYSIS_RELOADS = Inr (show_u32 (of_nat (Suc k)))" using e(2) child_env_reloads by simp
  have "Suc k + Suc (length gs) < 2 ^ 32" using Cons.prems(2) by simp
  from Cons.IH [OF c this] show ?case using e(1) g by simp
qed

text \<open>
  C18. The greeting counts the upgrades. If the first process starts without \<open>ECDYSIS_RELOADS\<close>,
  the process after \<open>n\<close> upgrades, for every \<open>n\<close> below \<open>2 ^ 32\<close> and
  whatever the pids and pipes were, has the reload count \<open>n\<close>: its server tasks read it without a
  panic, and the four bytes each client receives first are \<open>n\<close> in network order.
\<close>

theorem greeting_counts_upgrades:
  assumes "env ECDYSIS_RELOADS = None" and "length gs < 2 ^ 32"
  shows "\<exists>env'. generation checks dbg gs pid env = Ret (of_nat (length gs), env')
    \<and> read_reload_count dbg env' = Ret (of_nat (length gs))
    \<and> length (to_be_bytes (of_nat (length gs))) = 4 \<and> from_be_bytes (to_be_bytes (of_nat (length gs))) = int (length gs)"
proof -
  have first: "prepare_env checks dbg p env = Ret (0, (set_listen_pid p env)(ECDYSIS_RELOADS \<mapsto> EnvText ''0''))" for p
    using assms(1) listen_pid_reloads [of p env] by (simp add: prepare_env_def count_reload_def env_var_def)
  have zero: "show_u32 0 = ''0''" by code_simp
  have "\<exists>env'. generation checks dbg gs pid env = Ret (of_nat (length gs), env')
      \<and> env_var env' ECDYSIS_RELOADS = Inr (show_u32 (of_nat (length gs)))"
  proof (cases gs)
    case Nil
    then show ?thesis using first [of pid] zero by (simp add: env_var_def)
  next
    case (Cons g gs')
    obtain p pipes where g: "g = (p, pipes)" by fastforce
    have "env_var (child_env ((set_listen_pid p env)(ECDYSIS_RELOADS \<mapsto> EnvText ''0'')) pipes) ECDYSIS_RELOADS = Inr (show_u32 (of_nat 0))"
      using zero by (simp add: child_env_reloads)
    from generation_from [OF this, of gs' checks dbg pid] show ?thesis using first [of p] g Cons assms(2) by simp
  qed
  moreover have "uint (of_nat (length gs) :: 32 word) = int (length gs)"
    using assms(2) by (simp add: unsigned_of_nat take_bit_nat_eq_self_iff)
  ultimately show ?thesis using parse_show_u32 from_to_be_bytes [of "of_nat (length gs)"]
    by (auto simp: read_reload_count_def to_be_bytes_def)
qed

subsection \<open>Properties: the start\<close>

lemma unwrapP_RetE:
  assumes "unwrapP debug m s = (Ret a, s')"
  shows "m s = (Ret (Inr a), s')"
  using assms by (auto simp: unwrapP_def elim!: bindP_RetE split: sum.splits)

text \<open>The brackets make \<open>[::1]\<close> no IP address, so the address is always the IPv4 wildcard.\<close>

lemma echo_ip_v4: "echo_ip = Ret (IpV4 0)"
proof -
  have "ip_addr_from_str ''[::1]'' = None" by (rule bracketed_address)
  moreover have "ip_addr_from_str ''0.0.0.0'' = Some (IpV4 0)"
    by (simp add: ip_addr_from_str_def read_ipv4_addr_def read_separator_def read_number_def digit_in_def of_groups_def)
  ultimately show ?thesis by (simp add: echo_ip_def)
qed

declare echo_ip_v4 [code]

lemma trigger_on_signal_triggers:
  "trigger_on_signal rt k ec s = (Ret (Inr u), s') \<Longrightarrow> \<exists>h. tb_triggers (fst s') = tb_triggers (fst s) @ [(SignalT k h, ec)]"
  by (cases s) (auto simp: trigger_on_signal_def split: prod.splits sum.splits)

lemma trigger_on_socket_triggers:
  assumes "trigger_on_socket rt os path ec s = (Ret (Inr u), s')"
  shows "\<exists>ss. tb_triggers (fst s') = tb_triggers (fst s) @ [(Uds path ss, ec)]"
proof -
  obtain ss s1 where "onTe (t_listen_unix rt os Yes path) s = (Ret (Inr ss), s1)"
    and s': "s' = (case s1 of (b, t, w) \<Rightarrow> (b\<lparr>tb_triggers := tb_triggers b @ [(Uds path ss, ec)]\<rparr>, t, w))"
    using assms unfolding trigger_on_socket_def by (auto elim!: tryP_OkE)
  then have "tb_triggers (fst s1) = tb_triggers (fst s)" by (cases s) (auto simp: onTe_def split: prod.splits)
  then show ?thesis using s' by (cases s1) auto
qed

lemma onTe_triggers: "onTe m s = (x, s') \<Longrightarrow> tb_triggers (fst s') = tb_triggers (fst s)"
  by (cases s) (auto simp: onTe_def split: prod.splits)

lemma notifications_triggers: "enable_systemd_notifications os env s = (x, s') \<Longrightarrow> tb_triggers (fst s') = tb_triggers (fst s)"
  by (cases s) (auto simp: enable_systemd_notifications_def split: prod.splits outcome.splits sum.splits)

definition echo_triggers :: "(trigger \<times> exit_condition) list \<Rightarrow> bool" where
  "echo_triggers trs \<longleftrightarrow> (\<exists>h0 h1 h2 s1 s2 s3. trs = [(SignalT SIGHUP h0, Upgrade), (SignalT SIGUSR1 h1, Stop), (SignalT SIGUSR2 h2, PartialStop),
    (Uds ''/tmp/ecdysis_upgrade.sock'' s1, Upgrade), (Uds ''/tmp/ecdysis_exit.sock'' s2, Stop),
    (Uds ''/tmp/ecdysis_partial_exit.sock'' s3, PartialStop)])"

lemma echo_configure_run:
  assumes "watch_runtime rt view" and "bwf view k c held s" and "tb_triggers (fst s) = [(SignalT SIGHUP h, Upgrade)]"
    and "echo_configure rt os dbg env s = (Ret u, s')"
  shows "bwf view k c held s' \<and> echo_triggers (tb_triggers (fst s'))"
proof -
  let ?pid = "\<lambda>(b, t, w). (Ret (), (b_set_pid_file ''./pidfile'' b, t, w))"
  obtain u1 u2 u3 u4 u5 v0 v1 v2 s1 s2 s3 s4 s5 s6 s7 s8 where
    1: "stop_on_signal rt SIGUSR1 s = (Ret (Inr u1), s1)" and 2: "partial_stop_on_signal rt SIGUSR2 s1 = (Ret (Inr u2), s2)"
    and 3: "upgrade_on_socket rt os ''/tmp/ecdysis_upgrade.sock'' s2 = (Ret (Inr u3), s3)"
    and 4: "stop_on_socket rt os ''/tmp/ecdysis_exit.sock'' s3 = (Ret (Inr u4), s4)"
    and 5: "partial_stop_on_socket rt os ''/tmp/ecdysis_partial_exit.sock'' s4 = (Ret (Inr u5), s5)"
    and 6: "?pid s5 = (Ret v0, s6)" and 7: "enable_systemd_notifications os env s6 = (Ret v1, s7)"
    and 8: "b_read_systemd_sockets os dbg env s7 = (Ret v2, s8)" and 9: "returnP () s8 = (Ret u, s')"
    using assms(4) unfolding echo_configure_def by (elim bindP_RetE) (rule that; (assumption | erule unwrapP_RetE))
  note defs = stop_on_signal_def partial_stop_on_signal_def upgrade_on_socket_def stop_on_socket_def partial_stop_on_socket_def
  note step = trigger_on_signal_wf [OF assms(1)] trigger_on_socket_wf [OF assms(1)]
  have wf1: "bwf view k c held s1" using step(1) [OF assms(2) 1 [unfolded defs]] .
  have wf2: "bwf view k c held s2" using step(1) [OF wf1 2 [unfolded defs]] .
  have wf3: "bwf view k c held s3" using step(2) [OF wf2 3 [unfolded defs]] .
  have wf4: "bwf view k c held s4" using step(2) [OF wf3 4 [unfolded defs]] .
  have wf5: "bwf view k c held s5" using step(2) [OF wf4 5 [unfolded defs]] .
  have tr5: "echo_triggers (tb_triggers (fst s5))"
    using assms(3) trigger_on_signal_triggers [OF 1 [unfolded defs]] trigger_on_signal_triggers [OF 2 [unfolded defs]]
      trigger_on_socket_triggers [OF 3 [unfolded defs]] trigger_on_socket_triggers [OF 4 [unfolded defs]]
      trigger_on_socket_triggers [OF 5 [unfolded defs]] unfolding echo_triggers_def by fastforce
  have "bwf view k c held s6" "tb_triggers (fst s6) = tb_triggers (fst s5)" using 6 wf5 by (cases s5; auto simp: b_set_pid_file_def)+
  moreover from this have "bwf view k c held s7" using notifier_calls_wf(1) 7 by blast
  moreover from this have "bwf view k c held s'" using read_sockets_wf 8 9 by simp
  moreover have "tb_triggers (fst s') = tb_triggers (fst s6)"
    using notifications_triggers [OF 7] onTe_triggers [OF 8 [unfolded b_read_systemd_sockets_def]] 9 by simp
  ultimately show ?thesis using tr5 by simp
qed

lemma stream_kept:
  assumes "watch_runtime rt view" and "bwf view k c held s" and "\<exists>m. te_frame m \<and> op = tryP m (supervised rt p)"
    and "onTe op s = (Ret (Inr ss), s')"
  shows "bwf view k c (held @ [ss]) s'" and "ss_policy ss = p" and "tb_triggers (fst s') = tb_triggers (fst s)"
proof -
  show "bwf view k c (held @ [ss]) s'" using kept_wf [OF assms(1-3), of "[ss]" s'] assms(4) by (simp add: kept_def)
  obtain b t w where s: "s = (b, t, w)" by (cases s)
  obtain x te t' w' where x: "op (tb_te b, t, w) = (x, (te, t', w'))" by (metis surj_pair)
  obtain m u where m: "te_frame m" "op = tryP m (supervised rt p)" "receivers (view t) (sup_rx (te_supervisor (tb_te b))) = Some (c, u)"
    using assms(2,3) s builder_wf_rx by fastforce
  have "x = Ret (Inr ss)" using assms(4) s x by simp
  then show "ss_policy ss = p" using supervised_after [OF assms(1) m(3,1) x [unfolded m(2)]] by (simp add: supervised_outcome_def)
  show "tb_triggers (fst s') = tb_triggers (fst s)" using onTe_triggers [OF assms(4)] .
qed

lemma echo_listen_run:
  assumes "watch_runtime rt view" and "bwf view k c [] s" and "echo_listen rt os dbg dse ip s = (Ret (st1, st2), s')"
  shows "bwf view k c [st1, st2] s' \<and> ss_policy st1 = Yes \<and> ss_policy st2 = Yes \<and> tb_triggers (fst s') = tb_triggers (fst s)"
proof -
  obtain a1 s1 a2 s2 where 1: "onTe (t_build_listen_tcp rt os Yes (socket_addr_new ip 22222) (echo_sock_build os ip)) s = (Ret (Inr a1), s1)"
    and 2: "onTe (systemd_listen_unix rt os dbg Yes ''ecdysis_test_unix'' ''/tmp/ecdysis_int_test.sock'') s1 = (Ret (Inr a2), s2)"
    and 3: "returnP (a1, a2) s2 = (Ret (st1, st2), s')"
    using assms(3) unfolding echo_listen_def by (elim bindP_RetE) (rule that; (assumption | erule unwrapP_RetE))
  have eq: "a1 = st1" "a2 = st2" "s2 = s'" using 3 by simp_all
  note k1 = stream_kept [OF assms(1,2) stream_methods(3) 1]
  note k2 = stream_kept [OF assms(1) k1(1) stream_methods(5) 2]
  show ?thesis using k1(2,3) k2 by (simp add: eq)
qed

lemma builder_new_triggers:
  "builder_new rt os codec env k (t, w) = (Ret (Inr b), s') \<Longrightarrow> \<exists>h. tb_triggers b = [(SignalT k h, Upgrade)]"
  by (auto simp: builder_new_def bindP_def split: sum.splits prod.splits outcome.splits)

text \<open>
  What \<open>main\<close> sets up. Whenever the start of the example succeeds, it listens on the IPv4
  wildcard address and the systemd socket with streams that stop at a shutdown, neither server task has run,
  and the upgrader has exactly these six triggers, in this order: the hangup signal upgrades, the first user
  signal stops, the second one stops partially, and so do the three sockets; both streams have receivers of
  their own on the supervisor's channel, on which nothing has been broadcast.
\<close>

theorem echo_start_configures:
  assumes "watch_runtime rt view" and "echo_start rt os codec dbg dse wg checks env (t, w) = (Ret (env', u, sv1, sv2), (t', w'))"
  shows "echo_ip = Ret (IpV4 0) \<and> echo_triggers (up_triggers u) \<and> ss_policy (sv_stream sv1) = Yes \<and> ss_policy (sv_stream sv2) = Yes
    \<and> sv_pc sv1 = Unstarted \<and> sv_pc sv2 = Unstarted
    \<and> (\<exists>c. builder_wf (view t') SIGHUP c (te_supervisor (up_te u)) (up_triggers u) [sv_stream sv1, sv_stream sv2])"
proof -
  obtain b t1 w1 b5 where new: "builder_new rt os codec env' SIGHUP (t, w) = (Ret (Inr b), (t1, w1))"
    and build: "echo_build rt os dbg dse wg env' (b, t1, w1) = (Ret (u, sv1, sv2), (b5, t', w'))"
    using assms(2) unfolding echo_start_def
    by (auto elim!: bindP_RetE dest!: unwrapP_RetE split: outcome.splits prod.splits)
  obtain c where wf: "bwf view SIGHUP c [] (b, t1, w1)" using builder_new_wf [OF assms(1) new] by blast
  obtain h where h: "tb_triggers (fst (b, t1, w1)) = [(SignalT SIGHUP h, Upgrade)]" using builder_new_triggers [OF new] by auto
  obtain u0 s2 ip s3 st s4 where 2: "echo_configure rt os dbg env' (b, t1, w1) = (Ret u0, s2)" and 3: "(echo_ip, s2) = (Ret ip, s3)"
    and 4: "echo_listen rt os dbg dse ip s3 = (Ret st, s4)"
    and rest: "(case st of (stream, sd_unix_stream) \<Rightarrow> bindP (unwrapP (fmt_io_debug os) (b_ready rt os)) (\<lambda>upgrader.
        returnP (upgrader, echo_server wg stream, echo_server wg sd_unix_stream))) s4 = (Ret (u, sv1, sv2), (b5, t', w'))"
    using build unfolding echo_build_def by (elim bindP_RetE)
  obtain st1 st2 b4 t4 w4 where st: "st = (st1, st2)" "s4 = (b4, t4, w4)" by (cases st; cases s4)
  have 5: "b_ready rt os (b4, t4, w4) = (Ret (Inr u), (b5, t', w'))" and sv: "sv1 = echo_server wg st1" "sv2 = echo_server wg st2"
    using rest st by (auto elim!: bindP_RetE dest!: unwrapP_RetE)
  have cf: "bwf view SIGHUP c [] s2" "echo_triggers (tb_triggers (fst s2))" using echo_configure_run [OF assms(1) wf h 2] by simp_all
  from echo_listen_run [OF assms(1) cf(1), of os dbg dse ip st1 st2 s4] 3 4 st(1)
  have l: "bwf view SIGHUP c [st1, st2] s4" "ss_policy st1 = Yes" "ss_policy st2 = Yes" "tb_triggers (fst s4) = tb_triggers (fst s2)"
    by simp_all
  show ?thesis using b_ready_run [OF 5] l cf(2) st(2) sv echo_ip_v4 by (auto simp: echo_server_def)
qed

subsection \<open>Properties: the exit\<close>

lemma echo_step_final:
  assumes "echo_step rt os io wg inner dbg env ev (sv, t, w) = Some (sv', t', w')"
    and "sv_pc sv = ServerDone \<or> (\<exists>m. sv_pc sv = ServerPanicked m)"
  shows "sv_pc sv' = sv_pc sv"
  using assms by (cases ev) (auto simp: echo_step_def server_poll_def clients_poll_def split: if_splits prod.splits)

text \<open>Where \<open>main\<close> is, what the timer holds, and what each way to end says.\<close>

definition exit_pc_ok :: "'g main_exit \<Rightarrow> bool" where
  "exit_pc_ok ex \<longleftrightarrow> (case ex_main ex of
      Sleeping d \<Rightarrow> d = 1000
    | JoinServer \<Rightarrow> 1000 \<le> ex_now ex
    | JoinSystemd \<Rightarrow> 1000 \<le> ex_now ex \<and> sv_pc (ex_server ex) = ServerDone)"

definition exit_outcome_ok :: "'g main_exit \<Rightarrow> bool" where
  "exit_outcome_ok ex \<longleftrightarrow> (case ex_outcome ex of
      None \<Rightarrow> True
    | Some (Ret u) \<Rightarrow> 1000 \<le> ex_now ex \<and> sv_pc (ex_server ex) = ServerDone \<and> sv_pc (ex_systemd ex) = ServerDone
    | Some (Exit n) \<Rightarrow> n = 1 \<and> EXIT_AFTER_UPGRADE_DURATION \<le> ex_now ex
    | Some (Panic m) \<Rightarrow> 1000 \<le> ex_now ex
        \<and> (\<exists>m'. m = unwrap_panic @ m' \<and> ServerPanicked m' \<in> {sv_pc (ex_server ex), sv_pc (ex_systemd ex)}))"

definition exit_inv :: "('g \<Rightarrow> nat) \<Rightarrow> 'g main_exit \<Rightarrow> bool" where
  "exit_inv workers ex \<longleftrightarrow> echo_inv workers (ex_server ex) \<and> echo_inv workers (ex_systemd ex) \<and> exit_pc_ok ex \<and> exit_outcome_ok ex
    \<and> (case ex_timer ex of None \<Rightarrow> True | Some d \<Rightarrow> EXIT_AFTER_UPGRADE_DURATION \<le> d)"

lemmas exit_inv_defs = exit_inv_def exit_pc_ok_def exit_outcome_ok_def

lemma join_server_cases:
  obtains (finished) "sv_pc h = ServerDone" and "join_server h pc andthen ex = andthen ex"
  | (panicked) m where "sv_pc h = ServerPanicked m" and "join_server h pc andthen ex = ex\<lparr>ex_outcome := Some (Panic (unwrap_panic @ m))\<rparr>"
  | (waits) "sv_pc h \<noteq> ServerDone" and "join_server h pc andthen ex = ex\<lparr>ex_main := pc\<rparr>"
  by (cases "sv_pc h") (auto simp: join_server_def)

lemma join_systemd_inv:
  assumes "exit_inv workers ex" and "ex_outcome ex = None" and "1000 \<le> ex_now ex" and "sv_pc (ex_server ex) = ServerDone"
  shows "exit_inv workers (join_server (ex_systemd ex) JoinSystemd (\<lambda>ex. ex\<lparr>ex_outcome := Some (Ret ())\<rparr>) ex)"
  by (cases rule: join_server_cases [of "ex_systemd ex" JoinSystemd "\<lambda>ex. ex\<lparr>ex_outcome := Some (Ret ())\<rparr>" ex])
    (use assms in \<open>auto simp: exit_inv_defs split: exit_pc.splits\<close>)

lemma join_both_inv:
  assumes "exit_inv workers ex" and "ex_outcome ex = None" and "1000 \<le> ex_now ex"
  shows "exit_inv workers (join_both ex)"
  unfolding join_both_def
  by (cases rule: join_server_cases [of "ex_server ex" JoinServer
        "\<lambda>ex. join_server (ex_systemd ex) JoinSystemd (\<lambda>ex. ex\<lparr>ex_outcome := Some (Ret ())\<rparr>) ex" ex])
    (use assms join_systemd_inv [OF assms] in \<open>auto simp: exit_inv_defs split: exit_pc.splits\<close>)

lemma main_poll_inv:
  assumes "exit_inv workers ex" and "ex_outcome ex = None"
  shows "exit_inv workers (main_poll ex)"
proof (cases "ex_main ex")
  case (Sleeping d)
  then have "d = 1000" using assms(1) by (simp add: exit_inv_defs)
  then show ?thesis using Sleeping join_both_inv [OF assms] assms(1) by (simp add: main_poll_def)
next
  case JoinServer
  then have "1000 \<le> ex_now ex" using assms(1) by (simp add: exit_inv_defs)
  then show ?thesis using JoinServer join_both_inv [OF assms] by (simp add: main_poll_def)
next
  case JoinSystemd
  then have "1000 \<le> ex_now ex" "sv_pc (ex_server ex) = ServerDone" using assms(1) by (simp_all add: exit_inv_defs)
  then show ?thesis using JoinSystemd join_systemd_inv [OF assms] by (simp add: main_poll_def)
qed

lemma timer_poll_inv:
  assumes "exit_inv workers ex" and "ex_outcome ex = None"
  shows "exit_inv workers (timer_poll ex)"
  using assms by (auto simp: timer_poll_def exit_inv_defs split: option.splits exit_pc.splits)

lemma exit_step_inv:
  assumes "wait_group wg workers" and "exit_inv workers ex" and "exit_step rt os io wg dbg env ev (ex, t, w) = Some (ex', t', w')"
  shows "exit_inv workers ex'"
proof (cases "ex_outcome ex")
  case None
  note step = assms(3) [unfolded exit_step_def] and inv = assms(2)
  show ?thesis
  proof (cases ev)
    case PollMain
    then show ?thesis using step None main_poll_inv [OF inv None] by simp
  next
    case PollTimer
    then show ?thesis using step None timer_poll_inv [OF inv None] by simp
  next
    case (Tick n)
    then show ?thesis using step None inv by (auto simp: exit_inv_defs split: exit_pc.splits)
  next
    case (ServerEvent e)
    then obtain sv where e: "echo_step rt os io wg (sock_inner (tcp_next io)) dbg env e (ex_server ex, t, w) = Some (sv, t', w')"
      and ex': "ex' = ex\<lparr>ex_server := sv\<rparr>" using step None by (auto split: option.splits)
    have "echo_inv workers sv" using wait_group.echo_step_inv [OF assms(1) _ e] inv by (simp add: exit_inv_def)
    then show ?thesis using ex' None inv echo_step_final [OF e] by (auto simp: exit_inv_defs split: exit_pc.splits)
  next
    case (SystemdEvent e)
    then obtain sv where e: "echo_step rt os io wg (uds_inner os) dbg env e (ex_systemd ex, t, w) = Some (sv, t', w')"
      and ex': "ex' = ex\<lparr>ex_systemd := sv\<rparr>" using step None by (auto split: option.splits)
    have "echo_inv workers sv" using wait_group.echo_step_inv [OF assms(1) _ e] inv by (simp add: exit_inv_def)
    then show ?thesis using ex' None inv by (auto simp: exit_inv_defs split: exit_pc.splits)
  qed
qed (use assms in \<open>auto simp: exit_step_def\<close>)

lemma exit_run_inv:
  assumes "wait_group wg workers" and "exit_inv workers ex" and "exit_run rt os io wg dbg env evs (ex, t, w) = Some (ex', t', w')"
  shows "exit_inv workers ex'"
  using assms(2,3)
proof (induction evs arbitrary: ex t w)
  case (Cons ev evs)
  then obtain ex1 t1 w1 where 1: "exit_step rt os io wg dbg env ev (ex, t, w) = Some (ex1, t1, w1)"
    and 2: "exit_run rt os io wg dbg env evs (ex1, t1, w1) = Some (ex', t', w')"
    by (auto split: option.splits)
  show ?case using Cons.IH [OF exit_step_inv [OF assms(1) Cons.prems(1) 1] 2] .
qed simp

lemma main_poll_returns:
  assumes "exit_inv workers ex" and "1000 \<le> ex_now ex" and "sv_pc (ex_server ex) = ServerDone" and "sv_pc (ex_systemd ex) = ServerDone"
  shows "ex_outcome (main_poll ex) = Some (Ret ())"
  using assms by (cases "ex_main ex") (auto simp: main_poll_def join_both_def join_server_def exit_inv_defs)

text \<open>
  C17. How the example ends after the monitor has returned, under every schedule. It returns from
  \<open>main\<close> only after a second, when both servers have returned and so every client they accepted
  has ended; the status is 1 only after a full minute; it panics only because a server task panicked. And it
  does end: once both servers have returned and a second has passed, the next poll of \<open>main\<close>
  returns; the first poll of the timer task after its deadline exits, however many clients are left.
\<close>

theorem echo_exit_outcomes:
  assumes "wait_group wg workers" and "echo_inv workers sv1" and "echo_inv workers sv2"
    and "exit_run rt os io wg dbg env evs (exit_begin sv1 sv2, t, w) = Some (ex, t', w')"
  shows "(case ex_outcome ex of
      Some (Ret u) \<Rightarrow> 1000 \<le> ex_now ex \<and> sv_pc (ex_server ex) = ServerDone \<and> sv_pc (ex_systemd ex) = ServerDone
        \<and> alive_clients (ex_server ex) = 0 \<and> alive_clients (ex_systemd ex) = 0
    | Some (Exit n) \<Rightarrow> n = 1 \<and> 60000 \<le> ex_now ex
    | Some (Panic m) \<Rightarrow> \<exists>m'. m = unwrap_panic @ m' \<and> ServerPanicked m' \<in> {sv_pc (ex_server ex), sv_pc (ex_systemd ex)}
    | None \<Rightarrow> (1000 \<le> ex_now ex \<and> sv_pc (ex_server ex) = ServerDone \<and> sv_pc (ex_systemd ex) = ServerDone \<longrightarrow>
          (\<exists>ex2. exit_step rt os io wg dbg env PollMain (ex, t', w') = Some (ex2, t', w') \<and> ex_outcome ex2 = Some (Ret ())))
        \<and> (\<forall>d. ex_timer ex = Some d \<and> d \<le> ex_now ex \<longrightarrow>
          (\<exists>ex2. exit_step rt os io wg dbg env PollTimer (ex, t', w') = Some (ex2, t', w') \<and> ex_outcome ex2 = Some (Exit 1))))"
proof -
  have "exit_inv workers (exit_begin sv1 sv2)" using assms(2,3) by (simp add: exit_inv_defs exit_begin_def)
  from exit_run_inv [OF assms(1) this assms(4)] have inv: "exit_inv workers ex" .
  show ?thesis
  proof (cases "ex_outcome ex")
    case None
    then show ?thesis using main_poll_returns [OF inv] by (auto simp: exit_step_def timer_poll_def)
  next
    case (Some x)
    then show ?thesis using inv by (cases x) (auto simp: exit_inv_defs echo_inv_def EXIT_AFTER_UPGRADE_DURATION_def)
  qed
qed

subsection \<open>Properties: from the monitor to the end\<close>

text \<open>The poll that ends a server with no clients left, and what it leaves of the runtime.\<close>

lemma idle_server_ends:
  assumes "watch_runtime rt view" and "posix_fds os fdt" and "wait_group wg workers" and "echo_inv workers sv" and "sv_pc sv = Accepting"
    and "alive_clients sv = 0" and "chan_value (view t) c = Some st" and "synced (view t) c st (sv_stream sv)"
    and "\<not> should_continue (ss_policy (sv_stream sv)) st"
  obtains sv' t' w' where "server_poll rt os wg inner dbg env (sv, t, w) = Some (sv', t', w')" and "sv_pc sv' = ServerDone"
    and "view t' = (view t)\<lparr>receivers := (receivers (view t))(ss_rx (sv_stream sv) := None)\<rparr>"
    and "fdt w' = (fdt w)(ss_stream (sv_stream sv) := None)"
proof -
  let ?ss = "(sv_stream sv)\<lparr>ss_state := st\<rparr>"
  obtain t1 where p: "stoppable_poll_next rt inner (sv_stream sv, t, w) = Some (Ret (Ready None), (?ss, t1, w))"
    and v: "view t1 = see (ss_rx (sv_stream sv)) c (view t)"
    using watch_runtime.stoppable_poll [OF assms(1,7,8), of inner w] assms(9) by auto
  from p have "accept_loop rt wg inner (sv, t, w) = Some (Ret True, (sv\<lparr>sv_stream := ?ss\<rparr>, t1, w))" by (rule accept_loop_left) simp
  then have poll: "server_poll rt os wg inner dbg env (sv, t, w) = Some (server_wait rt os wg (sv\<lparr>sv_stream := ?ss\<rparr>, t1, w))"
    using assms(5) by (simp add: server_poll_def server_serve_def)
  have n: "workers (sv_wg sv) = 0" using assms(4,6) by (simp add: echo_inv_def)
  show thesis
  proof (cases rule: wait_group.server_wait_run [OF assms(3), of "sv\<lparr>sv_stream := ?ss\<rparr>" rt os t1 w])
    case 1
    then show ?thesis using n by simp
  next
    case 2
    have "view (watch_drop rt (ss_rx (sv_stream sv)) t1) = (view t)\<lparr>receivers := (receivers (view t))(ss_rx (sv_stream sv) := None)\<rparr>"
      using watch_runtime.drop_gone [OF assms(1)] v by (simp add: see_def)
    then show ?thesis using that poll 2(2) posix_fds.close_gone [OF assms(2)] by (simp add: drop_stream_def)
  qed
qed

text \<open>
  C15. From the monitor to the end of the process. When \<open>monitor\<close> has returned \<open>Ok\<close>,
  in whatever mode, and the two servers of \<open>main\<close> are accepting and have no client left, one poll
  of each server, the second of sleep and a poll of \<open>main\<close> return from \<open>main\<close>, and
  both listening descriptors are closed.
\<close>

theorem echo_winds_down:
  assumes "watch_runtime rt view" and "posix_fds os fdt" and "wait_group wg workers"
    and "monitor rt os env args wakes runs s = Some (Ret (Inr (mode, reason)), (u, t, up, w))"
    and "senders (view t) (sup_tx (te_supervisor (up_te u))) = Some c"
    and "\<forall>sv\<in>{sv1, sv2}. echo_inv workers sv \<and> sv_pc sv = Accepting \<and> alive_clients sv = 0 \<and> ss_policy (sv_stream sv) = Yes
      \<and> (\<exists>b. receivers (view t) (ss_rx (sv_stream sv)) = Some (c, b))"
    and "ss_rx (sv_stream sv1) \<noteq> ss_rx (sv_stream sv2)"
  shows "\<exists>ex t' w'. exit_run rt os io wg dbg env [PollMain, ServerEvent PollServer, SystemdEvent PollServer, Tick 1000, PollMain]
      (exit_begin sv1 sv2, t, w) = Some (ex, t', w') \<and> ex_outcome ex = Some (Ret ())
    \<and> fdt w' = (fdt w)(ss_stream (sv_stream sv1) := None, ss_stream (sv_stream sv2) := None)"
proof -
  let ?st = "Some (mode_condition mode)"
  obtain s1 where s1: "monitor_loop rt os env args wakes runs s = Some (Ret (Inr (mode, reason)), s1)" "(u, t, up, w) = drop_upgrader rt os s1"
    using assms(4) by (auto simp: monitor_def split: option.splits prod.splits outcome.splits)
  then have "exit_state view mode (u, t, up, w)"
    using watch_runtime.monitor_loop_exit [OF assms(1)] watch_runtime.drop_upgrader_exit [OF assms(1)] by metis
  then have "told (view t) (sup_tx (te_supervisor (up_te u))) (mode_condition mode)" by (simp add: exit_state_def)
  then have c: "chan_value (view t) c = Some ?st" "\<And>h b. receivers (view t) h = Some (c, b) \<Longrightarrow> b"
    using assms(5) by (auto simp: told_def)
  have stop: "\<not> should_continue Yes ?st" by (cases mode) simp_all
  have in_step: "synced (view t) c ?st (sv_stream sv)" if "sv \<in> {sv1, sv2}" for sv
    using assms(6) that c(2) by (fastforce simp: synced_def)
  obtain sv1' t1 w1 where 1: "server_poll rt os wg (sock_inner (tcp_next io)) dbg env (sv1, t, w) = Some (sv1', t1, w1)" "sv_pc sv1' = ServerDone"
    and v1: "view t1 = (view t)\<lparr>receivers := (receivers (view t))(ss_rx (sv_stream sv1) := None)\<rparr>"
    and f1: "fdt w1 = (fdt w)(ss_stream (sv_stream sv1) := None)"
    using idle_server_ends [OF assms(1-3) _ _ _ c(1) in_step, of sv1, where inner = "sock_inner (tcp_next io)" and dbg = dbg and env = env and w = w]
      assms(6) stop by auto
  have "chan_value (view t1) c = Some ?st" "synced (view t1) c ?st (sv_stream sv2)"
    using c(1) in_step [of sv2] assms(7) v1 by (simp_all add: synced_def)
  then obtain sv2' t2 w2 where 2: "server_poll rt os wg (uds_inner os) dbg env (sv2, t1, w1) = Some (sv2', t2, w2)" "sv_pc sv2' = ServerDone"
    and v2: "view t2 = (view t1)\<lparr>receivers := (receivers (view t1))(ss_rx (sv_stream sv2) := None)\<rparr>"
    and f2: "fdt w2 = (fdt w1)(ss_stream (sv_stream sv2) := None)"
    using idle_server_ends [OF assms(1-3), of sv2 t1 c ?st, where inner = "uds_inner os" and dbg = dbg and env = env and w = w1] assms(6) stop by auto
  show ?thesis using 1 2 f1 f2 by (simp add: exit_step_def exit_begin_def echo_step_def main_poll_def join_both_def join_server_def)
qed

subsection \<open>Concrete runs\<close>

definition generations_ex :: "(int \<times> fd_pair) list" where
  "generations_ex = [(42, \<lparr>recv_listeners_fd = 3, send_ready_fd = 4\<rparr>), (43, \<lparr>recv_listeners_fd = 5, send_ready_fd = 6\<rparr>)]"

theorem greeting_counts_upgrades_witness:
  "\<exists>env'. generation True sd_ex_dbg generations_ex 44 Map.empty = Ret (2, env') \<and> read_reload_count sd_ex_dbg env' = Ret 2
    \<and> from_be_bytes (to_be_bytes 2) = 2"
proof -
  have "length generations_ex = 2" by (simp add: generations_ex_def)
  then show ?thesis using greeting_counts_upgrades [of Map.empty generations_ex True sd_ex_dbg 44] by auto
qed

text \<open>Started by systemd with one socket, on descriptor 3.\<close>

definition echo_ex_sd_env :: environment where
  "echo_ex_sd_env = [LISTEN_FDNAMES \<mapsto> EnvText ''ecdysis_test_unix'']"

definition echo_ex_sd_world :: kworld where
  "echo_ex_sd_world = kw0\<lparr>k_fds := (3, \<lparr>cloexec = False, ofd = 7\<rparr>) # k_fds kw0, k_names := [(7, KPath ''/tmp/ecdysis_int_test.sock'')], k_nofile := 32\<rparr>"

lemma echo_ex_started:
  "(case echo_start trt kern bincode_ref sd_ex_dbg (\<lambda>e. ''SystemdSocketError'') counter_wg True echo_ex_sd_env (t0, echo_ex_sd_world) of
      (Ret (env', u, sv1, sv2), s') \<Rightarrow> True
    | _ \<Rightarrow> False)"
  by code_simp

theorem echo_start_configures_witness:
  "\<exists>env' u sv1 sv2 t' w'. echo_start trt kern bincode_ref sd_ex_dbg (\<lambda>e. ''SystemdSocketError'') counter_wg True echo_ex_sd_env
      (t0, echo_ex_sd_world) = (Ret (env', u, sv1, sv2), (t', w')) \<and> echo_triggers (up_triggers u) \<and> ss_policy (sv_stream sv2) = Yes"
proof -
  obtain env' u sv1 sv2 t' w' where run: "echo_start trt kern bincode_ref sd_ex_dbg (\<lambda>e. ''SystemdSocketError'') counter_wg True echo_ex_sd_env
      (t0, echo_ex_sd_world) = (Ret (env', u, sv1, sv2), (t', w'))"
    using echo_ex_started by (auto split: prod.splits outcome.splits)
  then show ?thesis using echo_start_configures [OF trt.watch_runtime_axioms run] by blast
qed

text \<open>A server that nobody stops: the timer ends the process.\<close>

definition exit_ex_events :: "(tokio_rt, kworld) exit_event list" where
  "exit_ex_events = [PollMain, PollTimer, Tick 1000, PollMain, Tick 59000, PollMain, PollTimer]"

lemma exit_ex_runs:
  "map_option (ex_outcome \<circ> fst) (exit_run trt kern k_io counter_wg sd_ex_dbg echo_ex_env exit_ex_events
    (exit_begin echo_ex_sv echo_ex_sv, sup_ex_rt None True, echo_ex_world 16)) = Some (Some (Exit 1))"
  using echo_ex_sv_ok(2)
  by (simp add: exit_ex_events_def exit_step_def exit_begin_def main_poll_def join_both_def join_server_def timer_poll_def
      EXIT_AFTER_UPGRADE_DURATION_def)

theorem echo_exit_outcomes_witness:
  "\<exists>ex t w. exit_run trt kern k_io counter_wg sd_ex_dbg echo_ex_env exit_ex_events
      (exit_begin echo_ex_sv echo_ex_sv, sup_ex_rt None True, echo_ex_world 16) = Some (ex, t, w) \<and> ex_outcome ex = Some (Exit 1) \<and> 60000 \<le> ex_now ex"
proof -
  obtain ex t w where run: "exit_run trt kern k_io counter_wg sd_ex_dbg echo_ex_env exit_ex_events
      (exit_begin echo_ex_sv echo_ex_sv, sup_ex_rt None True, echo_ex_world 16) = Some (ex, t, w)" "ex_outcome ex = Some (Exit 1)"
    using exit_ex_runs by auto
  from echo_exit_outcomes [OF counter.wait_group_axioms echo_ex_sv_ok(1,1) run(1)] run show ?thesis by auto
qed

text \<open>A monitor that has two servers on its supervisor, and receives the stop signal.\<close>

definition wind_ex :: "(tokio_rt, kworld) mstate" where
  "wind_ex = (case mon_ex None [1] False of (u, t, up, w) \<Rightarrow> (u, t\<lparr>t_rx := [(4, (1, True)), (3, (1, True))] @ t_rx t\<rparr>, up, w))"

definition wind_ex_sv :: "fd \<Rightarrow> handle \<Rightarrow> nat server" where
  "wind_ex_sv fd rx = echo_ex_sv\<lparr>sv_stream := \<lparr>ss_stream = fd, ss_policy = Yes, ss_rx = rx, ss_state = None\<rparr>\<rparr>"

lemma wind_ex_stops:
  "map_option (\<lambda>(x, (u, t, up, w)). (x, senders (trt_view t) (sup_tx (te_supervisor (up_te u))), receivers (trt_view t) 3, receivers (trt_view t) 4))
      (monitor trt kern echo_ex_env [] [] [] wind_ex)
    = Some (Ret (Inr (FullStop, ExitSignal 15)), Some 1, Some (1, True), Some (1, True))"
  by code_simp

lemma wind_ex_sv_ok:
  "echo_inv id (wind_ex_sv fd rx)" "sv_pc (wind_ex_sv fd rx) = Accepting" "alive_clients (wind_ex_sv fd rx) = 0"
  "sv_stream (wind_ex_sv fd rx) = \<lparr>ss_stream = fd, ss_policy = Yes, ss_rx = rx, ss_state = None\<rparr>"
  using echo_ex_sv_ok by (simp_all add: wind_ex_sv_def echo_inv_def alive_clients_def echo_ex_sv_def echo_server_def)

theorem echo_winds_down_witness:
  "\<exists>u t up w ex t' w'. monitor trt kern echo_ex_env [] [] [] wind_ex = Some (Ret (Inr (FullStop, ExitSignal 15)), (u, t, up, w))
    \<and> exit_run trt kern k_io counter_wg sd_ex_dbg echo_ex_env [PollMain, ServerEvent PollServer, SystemdEvent PollServer, Tick 1000, PollMain]
        (exit_begin (wind_ex_sv 8 3) (wind_ex_sv 7 4), t, w) = Some (ex, t', w') \<and> ex_outcome ex = Some (Ret ()) \<and> k_fdt w' 8 = None"
proof -
  obtain u t up w where run: "monitor trt kern echo_ex_env [] [] [] wind_ex = Some (Ret (Inr (FullStop, ExitSignal 15)), (u, t, up, w))"
    and c: "senders (trt_view t) (sup_tx (te_supervisor (up_te u))) = Some 1"
    and rx: "receivers (trt_view t) 3 = Some (1, True)" "receivers (trt_view t) 4 = Some (1, True)"
    using wind_ex_stops by auto
  have "\<forall>sv\<in>{wind_ex_sv 8 3, wind_ex_sv 7 4}. echo_inv id sv \<and> sv_pc sv = Accepting \<and> alive_clients sv = 0 \<and> ss_policy (sv_stream sv) = Yes
      \<and> (\<exists>b. receivers (trt_view t) (ss_rx (sv_stream sv)) = Some (1, b))"
    using rx wind_ex_sv_ok by auto
  from echo_winds_down [OF trt.watch_runtime_axioms kern_fds.posix_fds_axioms counter.wait_group_axioms run c this, of k_io sd_ex_dbg]
  show ?thesis using run by (auto simp: wind_ex_sv_ok)
qed

end
