(* ===== verification/Spec2Isabelle.thy ===== *)
theory Spec2Isabelle
  imports Accounting Echo_Main
begin

text \<open>
  \<^bold>\<open>ecdysis: graceful restarts of network servers.\<close> A server built on ecdysis replaces itself without closing its
  listening sockets: the running process starts its own program again, hands it the listening descriptors, waits until the
  child says it is ready, and then stops accepting. This development models the whole library under \<open>src/src\<close> and the example
  server under \<open>src/examples\<close>, and proves what makes such a restart correct.

  \<^bold>\<open>Parts and theories\<close> (each theory imports the ones it uses; files under \<open>src/src\<close>)

  \<^item> \<open>Prelude\<close>: outcomes (return, panic, exit), state-passing programs with \<open>bindP\<close> (the semicolon), \<open>tryP\<close> (the question
    mark), \<open>owning\<close> and \<open>scoped\<close> (drops), \<open>poll\<close>, positions in a vector. \<open>Rust_Text\<close>: decimal printing and parsing, splitting
    of strings.
  \<^item> \<open>Kernel\<close>: the system calls as the record \<open>os\<close> over an unknown world, the laws of POSIX the code relies on as locales
    over views of the world (descriptor table, file system), and the executable kernel \<open>kern\<close> that satisfies them.
    \<open>Runtime\<close>: the same for tokio, the record \<open>rt\<close>, the locale \<open>watch_runtime\<close> and the executable runtime \<open>trt\<close>.
  \<^item> \<open>Utils\<close> (\<open>utils.rs\<close>): close-on-exec, duplicates, the pid file.
  \<^item> \<open>Registry\<close> (\<open>registry.rs\<close>): the two lists of descriptors, inherited and in use, behind mutexes that can be poisoned; an
    abstract registry of keys and sockets, the invariant \<open>reg_inv\<close>, the step relation \<open>reg_step\<close> and its reachable states.
  \<^item> \<open>Listener\<close> (\<open>listener.rs\<close>, \<open>seqpacket.rs\<close>): the four kinds of listeners; the locale \<open>socket_source\<close> is the contract of code
    that makes a socket, \<open>listen_with\<close> the shape of every listen function.
  \<^item> \<open>Wire\<close>, \<open>Inheriter\<close> (\<open>inheriter.rs\<close>): the serialized list of listeners (bincode is a \<open>codec\<close>, its round trip a law), and
    the start of a child.
  \<^item> \<open>Executioner\<close>, \<open>Upgrade_Threads\<close> (\<open>executioner.rs\<close>): pipes, fork and exec with every failure; the calling thread, its three
    workers, the child, the clock and other callers as an interleaving of labelled steps.
  \<^item> \<open>Ecdysis\<close> (\<open>lib.rs\<close>): the object, its listen functions, \<open>ready\<close>, \<open>upgrade\<close>, \<open>quit\<close>.
  \<^item> \<open>Systemd_Sockets\<close>, \<open>Systemd_Notify\<close> (\<open>tokio_ecdysis/systemd_sockets.rs\<close>, \<open>systemd_notify.rs\<close>).
  \<^item> \<open>Supervisor\<close>, \<open>Trigger\<close> (\<open>tokio_ecdysis/supervisor.rs\<close>, \<open>trigger.rs\<close>): stopping of streams over a watch channel, and
    the streams of reasons to upgrade or stop.
  \<^item> \<open>Tokio_Ecdysis\<close>, \<open>Builder\<close>, \<open>Monitor\<close> (\<open>tokio_ecdysis/mod.rs\<close>): the asynchronous object; the builder with its invariant
    \<open>builder_wf\<close>; the upgrader with the loop of \<open>monitor\<close>. \<open>Accounting\<close>: who owns which descriptor while a server is
    configured.
  \<^item> \<open>Rust_Net\<close>: what the example uses of the standard library, 32-bit numbers as text and as bytes, and IP addresses as text.
    \<open>Echo_Server\<close>, \<open>Echo_Main\<close> (\<open>examples/tokio_echo.rs\<close>): the server task with its clients under an executor; \<open>main\<close>, from the
    environment and the configuration of the builder to the exit. The wait group is the locale \<open>wait_group\<close>.
  \<^item> this theory: the properties that span parent and child, and chains of upgrades (\<open>generation_step\<close>).

  \<^bold>\<open>Conventions.\<close> A definition has the name of the Rust function; where two types have a method of one name the later one has a
  prefix (\<open>t_\<close> for \<open>TokioEcdysis\<close>, \<open>b_\<close> for the builder, \<open>u_\<close> for the upgrader). A listener or stream object is its raw
  descriptor, and dropping it closes the descriptor. Integers have their width where it matters: descriptors and pids must
  fit \<open>i32\<close> to be parsed, the reload count is a 32-bit word whose increment may overflow, ports and addresses are words,
  microseconds are compared with \<open>2 ^ 64\<close>. Code outside the repository is an argument of the definitions (\<open>os\<close>, \<open>rt\<close>, \<open>codec\<close>,
  \<open>conn_io\<close>, \<open>wg_ops\<close>, debug texts, the closures of the caller), what is relied on is a locale predicate in the hypotheses, and \<open>kern\<close>, \<open>trt\<close> and a reference codec show the hypotheses can hold.

  \<^bold>\<open>What is shown\<close> (the claims are numbered in the theories)

  \<^item> Handover: the child of a launch has exactly the sockets of the parent's registry, under the same keys, and listening on an
    address of the parent gives the parent's socket; the monitor leaves only for a child that was launched with the parent's listeners
    and said it is ready; a socket outlives any number of generations as long as each of them listens on its address before it is
    ready (this theory).
  \<^item> Upgrade: under every interleaving the three results mean what they say; mutual exclusion; the call can always return unless
    a foreign process holds a pipe end; no descriptor leaks on any branch (\<open>Executioner\<close>, \<open>Upgrade_Threads\<close>).
  \<^item> Registry and listeners: the invariant holds in every reachable state and no operation panics; \<open>inherit\<close> refines the abstract
    operation; every listen function shares one socket between caller and registry or leaves nothing.
  \<^item> Supervision: every sequence of operations on a supervisor and its streams refines a specification without channels, and equals the bare
    streams as long as nothing stops them; stopped streams stay stopped; \<open>until_stopped\<close> follows the run state; polls return.
  \<^item> Builder: whatever is configured, \<open>ready\<close> gives an upgrader the monitor can run; after any sequence of configuration calls
    without systemd, successful or not, every new descriptor has exactly one owner and none is lost (\<open>Accounting\<close>).
  \<^item> Monitor: the exit mode tells what was broadcast and every stream it stops ends; a failed upgrade changes nothing that the next
    attempt needs; what a full stop, a partial stop and an upgrade remove and tell systemd; triggers are asked in order and never end.
  \<^item> Systemd: which names get which descriptors, that no socket is ever created for them, and that messages parse to what was meant.
  \<^item> Example server: clients are served to the end; a stop reaches the accept loops and, from there, the end of the process; how
    and when \<open>main\<close> ends; what it configures; the greeting counts the upgrades.
  \<^item> Defects: theorems that show reachable misbehaviour (a lost descriptor, a poisoned lock, a blocked or a killing upgrade, a hang,
    a panic after the supervisor is gone, a closed descriptor that stays in a map, a stop after a failed upgrade,
    two owners of one descriptor from systemd, a server that stops accepting after one failed accept).

  \<^bold>\<open>Loops and bounds.\<close> The thread model runs under a finite schedule, the monitor under finite lists of wake-ups and upgrade attempts:
  \<open>None\<close> means the call has not returned when the list ends, the theorems quantify over all lists, and that a return is possible is
  a theorem of its own. The loop of \<open>poll_next\<close> and of \<open>until_stopped\<close> are partial functions, proved to return under the laws of
  the channel. The accept loop of the example is one too: it goes on as long as connections wait, and is proved to return when
  only finitely many wait at once (the locale \<open>finite_backlog\<close>), when a stop has been broadcast, or when an accept fails; the
  theorems on runs speak of every run whose polls return, and every run does under \<open>finite_backlog\<close>. The watcher's five seconds and half second are constants of the model.

  \<^bold>\<open>Not modelled.\<close> Log messages; wakers and the choice of the executor which task to poll; cooperative yielding of tokio; the codecs of UDP
  framing; the reference count of the shared object; the other tasks of the application except as arbitrary changes of runtime and world
  where the monitor waits. Of the example, what a panicking \<open>main\<close> drops. The container tests of \<open>integration_tests\<close> only drive compiled servers from
  outside.
\<close>

section \<open>Across an upgrade\<close>

text \<open>
  A parent launches a child with the listeners of its registry; the bytes it sends arrive; the child builds
  its object. \<open>handover\<close> collects what happened: \<open>w\<close> and \<open>r\<close> are the
  parent's world and registry before, \<open>cw\<close> the child's world when the bytes are there,
  \<open>lfd\<close> the descriptor its environment names.
\<close>

definition handover ::
    "'w os \<Rightarrow> ('w \<Rightarrow> fdtable) \<Rightarrow> codec \<Rightarrow> environment \<Rightarrow> string list \<Rightarrow> registry \<Rightarrow> 'w \<Rightarrow> environment \<Rightarrow> 'w \<Rightarrow> 'w \<Rightarrow> bool" where
  "handover os fdt codec env args r w cenv cw cw1 \<longleftrightarrow> (\<exists>child rr sl w' cw0 lfd b.
    upgrade_launch os env args (used_list r) w = (Ret (Inr (child, rr, sl)), w')
    \<and> cp_start child = Some (cw0, cenv) \<and> fdt cw = fdt cw0
    \<and> pipe_fd_from_env cenv ENV_PIPE_FDS = Inr lfd
    \<and> serialize codec (used_list r) = Inr b \<and> pipe_recv os lfd cw = (Inr b, cw1))"

lemma child_env_vars:
  "child_env env p ENV_UPGRADE = Some (EnvText UPGRADE_TRUE_VAL)"
  "child_env env p ENV_PIPE_FDS = Some (EnvText (show_int (recv_listeners_fd p)))"
  "child_env env p ENV_PIPE_READY = Some (EnvText (show_int (send_ready_fd p)))"
  by (simp_all add: child_env_def ENV_UPGRADE_def ENV_PIPE_FDS_def ENV_PIPE_READY_def LISTEN_PID_def LISTEN_FDNAMES_def LISTEN_FDS_def)

text \<open>What the child finds: its registry, and its table against the parent's.\<close>

lemma handover_child:
  assumes "posix os fdt" and "bincode_laws codec" and "args \<noteq> []" and "reg_inv (fdt w) r"
    and "\<forall>li\<in>set (used_list r). wire_safe (li_sock li)" and "handover os fdt codec env args r w cenv cw cw1"
  obtains rfd cw2 where "ecdysis_new os codec cenv cw = (Ret \<lparr>ec_registry = from_inherited (used_list r),
        ready_notifier = Some rfd, pid_file = None, ec_child = True\<rparr>, cw2)"
    and "\<forall>li\<in>set (used_list r). \<exists>d. fdt w (li_fd li) = Some d \<and> fdt cw2 (li_fd li) = Some (d\<lparr>cloexec := False\<rparr>)"
    and "fdt cw2 rfd \<noteq> None" and "rfd \<notin> li_fd ` set (used_list r)"
proof -
  let ?L = "used_list r"
  obtain child rr sl w' cw0 lfd b where h: "upgrade_launch os env args ?L w = (Ret (Inr (child, rr, sl)), w')"
    "cp_start child = Some (cw0, cenv)" "fdt cw = fdt cw0" "pipe_fd_from_env cenv ENV_PIPE_FDS = Inr lfd"
    "serialize codec ?L = Inr b" "pipe_recv os lfd cw = (Inr b, cw1)"
    using assms(6) by (auto simp: handover_def)
  have open_L: "\<forall>li\<in>set ?L. fdt w (li_fd li) \<noteq> None" using assms(4) by (auto simp: reg_inv_def)
  have "launch_ok (fdt w) env (li_fd ` set ?L) fdt child rr sl (fdt w')"
    using posix.launch_descriptors [OF assms(1,3) open_L h(1)] by simp
  then obtain p j1 k2 where p: "cenv = child_env env p" "is_i32 (recv_listeners_fd p)" "is_i32 (send_ready_fd p)"
    "recv_listeners_fd p \<noteq> send_ready_fd p" "fdt w (recv_listeners_fd p) = None" "fdt w (send_ready_fd p) = None"
    "fdt cw0 = (child_fd (li_fd ` set ?L) (fdt w))
      (recv_listeners_fd p \<mapsto> \<lparr>cloexec = False, ofd = j1\<rparr>, send_ready_fd p \<mapsto> \<lparr>cloexec = False, ofd = k2\<rparr>)"
    using h(2) by (auto simp: launch_ok_def)
  let ?cw2 = "snd (sys_close os (recv_listeners_fd p) cw1)"
  have lfd: "lfd = recv_listeners_fd p"
    using h(4) pipe_fd_from_env_show [of cenv ENV_PIPE_FDS "recv_listeners_fd p"] p(1,2) child_env_vars(2) by simp
  have "\<forall>li\<in>set ?L. is_i32 (li_fd li)"
    using open_L posix_fds.fd_range [OF posix_parts(1) [OF assms(1)], of w] by fastforce
  then have "deserialize codec b = Inr ?L" using bincode_laws.round_trip [OF assms(2) h(5)] assms(5) by simp
  then have "init_child os codec cenv cw = (Ret (Inr (?L, send_ready_fd p)), ?cw2)"
    using init_child_upgrade [of cenv "recv_listeners_fd p" "send_ready_fd p" os cw b cw1 codec ?L] p(1-3) h(6) lfd child_env_vars
    by simp
  then have new: "ecdysis_new os codec cenv cw = (Ret \<lparr>ec_registry = from_inherited ?L,
      ready_notifier = Some (send_ready_fd p), pid_file = None, ec_child = True\<rparr>, ?cw2)"
    by (simp add: ecdysis_new_def)
  have "fdt cw1 = fdt cw" using posix_sockets.pipe_recv_fds [OF posix_parts(2) [OF assms(1)], of lfd cw] h(6) by simp
  then have t2: "fdt ?cw2 = (fdt cw0)(recv_listeners_fd p := None)"
    using posix_fds.close_gone [OF posix_parts(1) [OF assms(1)]] h(3) by simp
  have "\<exists>d. fdt w (li_fd li) = Some d \<and> fdt ?cw2 (li_fd li) = Some (d\<lparr>cloexec := False\<rparr>)" if "li \<in> set ?L" for li
  proof -
    obtain d where "fdt w (li_fd li) = Some d" using open_L \<open>li \<in> set ?L\<close> by blast
    moreover from this have "li_fd li \<noteq> recv_listeners_fd p" "li_fd li \<noteq> send_ready_fd p" using p(5,6) by auto
    ultimately show ?thesis using that t2 p(7) by (simp add: child_fd_def)
  qed
  moreover have "send_ready_fd p \<notin> li_fd ` set ?L" using p(6) open_L by fastforce
  ultimately show thesis using that [OF new] t2 p(4,7) by simp
qed

text \<open>
  C1. The sockets survive the upgrade. A child launched with the listeners of the parent's registry,
  once the bytes have arrived, builds an object that is a child's; its registry satisfies the invariant;
  its inherited list is the parent's list of sockets in use, key by key, in order, and every entry refers
  to the very socket it refers to in the parent.
\<close>

theorem upgrade_hands_over_sockets:
  assumes "posix os fdt" and "bincode_laws codec" and "args \<noteq> []" and "reg_inv (fdt w) r"
    and "\<forall>li\<in>set (used_list r). wire_safe (li_sock li)" and "handover os fdt codec env args r w cenv cw cw1"
  shows "\<exists>e cw2. ecdysis_new os codec cenv cw = (Ret e, cw2) \<and> is_child e \<and> ready_notifier e \<noteq> None
    \<and> reg_inv (fdt cw2) (ec_registry e)
    \<and> a_inherited (abs_reg (fdt cw2) (ec_registry e)) = a_used (abs_reg (fdt w) r)
    \<and> a_used (abs_reg (fdt cw2) (ec_registry e)) = []"
proof (rule handover_child [OF assms])
  fix rfd cw2
  let ?e = "\<lparr>ec_registry = from_inherited (used_list r), ready_notifier = Some rfd, pid_file = None, ec_child = True\<rparr>"
  assume new: "ecdysis_new os codec cenv cw = (Ret ?e, cw2)"
    and d: "\<forall>li\<in>set (used_list r). \<exists>d. fdt w (li_fd li) = Some d \<and> fdt cw2 (li_fd li) = Some (d\<lparr>cloexec := False\<rparr>)"
  have "distinct (map li_fd (used_list r))" using assms(4) by (simp add: reg_inv_def owned_fds_def)
  then have "reg_inv (fdt cw2) (from_inherited (used_list r))" using d by (intro reg_inv_start) fastforce+
  moreover have "abs_list (fdt cw2) (used_list r) = abs_list (fdt w) (used_list r)"
    using d by (intro abs_list_cong) (fastforce simp: socket_of_def)
  ultimately show ?thesis using new
    by (intro exI [of _ ?e] exI [of _ cw2]) (simp add: is_child_def abs_reg_def from_inherited_def mutex_new_def abs_list_def)
qed

text \<open>
  C2. End to end: what the parent listens on with TCP, the child listens on. If the parent's registry has a
  socket for an address and the child, after an upgrade, calls \<open>listen_tcp\<close> with that address and has
  room for one descriptor, it gets a listener on the parent's socket, and not a new one.
\<close>

theorem child_listens_on_parents_socket:
  assumes "posix os fdt" and "bincode_laws codec" and "args \<noteq> []" and "reg_inv (fdt w) r"
    and "\<forall>li\<in>set (used_list r). wire_safe (li_sock li)" and "handover os fdt codec env args r w cenv cw cw1"
    and "ecdysis_new os codec cenv cw = (Ret e, cw2)"
    and "position (\<lambda>li. sock_info_eq (li_sock li) (Tcp a)) (used_list r) = Some i" and "fd = li_fd (used_list r ! i)"
    and "set_cloexec os fd cw2 = (Ret (), cw3)" and "clone_fd os fd cw3 = (Ret (Inr n), cw4)"
  shows "\<exists>e'. listen_tcp os a (e, cw2) = (Ret (Inr fd), (e', cw4))
    \<and> socket_of (fdt cw4) fd = socket_of (fdt w) fd \<and> ofds (fdt cw4) = ofds (fdt cw2)"
proof (rule handover_child [OF assms(1-6)])
  fix rfd cw2'
  assume new: "ecdysis_new os codec cenv cw = (Ret \<lparr>ec_registry = from_inherited (used_list r),
      ready_notifier = Some rfd, pid_file = None, ec_child = True\<rparr>, cw2')"
    and d: "\<forall>li\<in>set (used_list r). \<exists>d. fdt w (li_fd li) = Some d \<and> fdt cw2' (li_fd li) = Some (d\<lparr>cloexec := False\<rparr>)"
  then have e: "ec_registry e = from_inherited (used_list r)" "cw2' = cw2" using assms(7) by auto
  have "distinct (map li_fd (used_list r))" using assms(4) by (simp add: reg_inv_def owned_fds_def)
  then have inv: "reg_inv (fdt cw2) (from_inherited (used_list r))" using d e by (intro reg_inv_start) fastforce+
  have inh: "inherited_list (from_inherited (used_list r)) = used_list r" by (simp add: from_inherited_def mutex_new_def)
  have "used_list r ! i \<in> set (used_list r)" using position_SomeD [OF assms(8)] by simp
  then have same: "socket_of (fdt cw2) fd = socket_of (fdt w) fd" using d e(2) assms(9) by (fastforce simp: socket_of_def)
  note ad = posix_fds.inherit_adopts [OF posix_parts(1) [OF assms(1)] inv, unfolded inh, OF assms(8-11)]
  have "\<exists>e'. listen_tcp os a (e, cw2) = (Ret (Inr fd), (e', cw4))"
    using ad(1) e(1) by (simp add: listen_tcp_def build_listen_tcp_def listen_with_def onReg_def)
  then show ?thesis using ad(2) same by auto
qed


section \<open>Generations\<close>

text \<open>The life of a registry through any number of upgrades, as the application drives it: a listen function adopts an inherited
  socket or registers a new one, under a key other than \<open>k\<close>; \<open>ready\<close> drops what was not adopted, when \<open>k\<close> was; other code of the process leaves the
  descriptors of the registry alone; an upgrade goes on with the registry of the child.\<close>

inductive generation_step :: "'w os \<Rightarrow> ('w \<Rightarrow> fdtable) \<Rightarrow> codec \<Rightarrow> sock_info \<Rightarrow> 'w rstate \<Rightarrow> 'w rstate \<Rightarrow> bool"
  for os :: "'w os" and fdt :: "'w \<Rightarrow> fdtable" and codec :: codec and k :: sock_info where
  adopts: "inherit os k' s = (Ret (Some fd), s') \<Longrightarrow> generation_step os fdt codec k s s'"
| registers: "add os item s = (x, s') \<Longrightarrow> \<not> sock_info_eq (li_sock item) k \<Longrightarrow> generation_step os fdt codec k s s'"
| readies: "close_inherited os (r, w) = (x, s') \<Longrightarrow> \<forall>li\<in>set (inherited_list r). \<not> sock_info_eq (li_sock li) k
    \<Longrightarrow> generation_step os fdt codec k (r, w) s'"
| meanwhile: "(\<And>fd. fd \<in> set (owned_fds r) \<Longrightarrow> fdt w' fd = fdt w fd) \<Longrightarrow> generation_step os fdt codec k (r, w) (r, w')"
| upgrades: "args \<noteq> [] \<Longrightarrow> \<forall>li\<in>set (used_list r). wire_safe (li_sock li) \<Longrightarrow> \<exists>li\<in>set (used_list r). sock_info_eq (li_sock li) k
    \<Longrightarrow> handover os fdt codec env args r w cenv cw cw1 \<Longrightarrow> ecdysis_new os codec cenv cw = (Ret e, cw2)
    \<Longrightarrow> generation_step os fdt codec k (r, w) (ec_registry e, cw2)"

definition serves :: "('w \<Rightarrow> fdtable) \<Rightarrow> sock_info \<Rightarrow> nat \<Rightarrow> 'w rstate \<Rightarrow> bool" where
  "serves fdt k j = (\<lambda>(r, w). reg_inv (fdt w) r
    \<and> (\<exists>li\<in>set (inherited_list r @ used_list r). sock_info_eq (li_sock li) k)
    \<and> (\<forall>li\<in>set (inherited_list r @ used_list r). sock_info_eq (li_sock li) k \<longrightarrow> socket_of (fdt w) (li_fd li) = Some j))"

lemma serves_adopt:
  assumes "posix_fds os fdt" and "serves fdt k j (r, w)" and "inherit os k' (r, w) = (Ret (Some fd), (r', w'))"
  shows "serves fdt k j (r', w')" and "sock_info_eq k' k \<Longrightarrow> socket_of (fdt w') fd = Some j"
proof -
  have inv: "reg_inv (fdt w) r" using assms(2) by (simp add: serves_def)
  obtain p d n where p: "position (\<lambda>li. sock_info_eq (li_sock li) k') (inherited_list r) = Some p" "p < length (inherited_list r)"
    and fd: "fd = li_fd (inherited_list r ! p)" "fdt w fd = Some d" "fdt w n = None"
    and w': "fdt w' = (fdt w)(fd \<mapsto> d\<lparr>cloexec := True\<rparr>, n \<mapsto> d\<lparr>cloexec := True\<rparr>)"
    and r': "r' = set_used (used_list r @ [\<lparr>li_fd = n, li_sock = k'\<rparr>]) (set_inherited (remove_at p (inherited_list r)) r)"
    using assms(3) by (cases rule: posix_fds.inherit_cases [OF assms(1) inv, of k']) auto
  have taken: "sock_info_eq (li_sock (inherited_list r ! p)) k'" "inherited_list r ! p \<in> set (inherited_list r)"
    using position_SomeD [OF p(1)] p(2) by auto
  have sockets: "socket_of (fdt w') x = socket_of (fdt w) x" if "fdt w x \<noteq> None" for x
    using that fd w' by (auto simp: socket_of_def)
  have new: "socket_of (fdt w') fd = Some j" "socket_of (fdt w') n = Some j" if "sock_info_eq k' k"
  proof -
    have "sock_info_eq (li_sock (inherited_list r ! p)) k" using sock_info_eq_trans taken(1) that by blast
    then have "socket_of (fdt w) fd = Some j" using assms(2) taken(2) fd(1) by (auto simp: serves_def)
    then show "socket_of (fdt w') fd = Some j" "socket_of (fdt w') n = Some j"
      using fd w' by (auto simp: socket_of_def split: if_splits)
  qed
  then show "sock_info_eq k' k \<Longrightarrow> socket_of (fdt w') fd = Some j" by blast
  have inv': "reg_inv (fdt w') r'" using posix_fds.inherit_inv [OF assms(1) inv assms(3)] by simp
  have open_fd: "fdt w (li_fd li) \<noteq> None" if "li \<in> set (inherited_list r @ used_list r)" for li
    using inv that by (auto simp: reg_inv_def)
  have "socket_of (fdt w') (li_fd li) = Some j"
    if "li \<in> set (inherited_list r' @ used_list r')" "sock_info_eq (li_sock li) k" for li
  proof (cases "li = \<lparr>li_fd = n, li_sock = k'\<rparr>")
    case True
    then show ?thesis using new(2) that(2) by simp
  next
    case False
    then have "li \<in> set (inherited_list r @ used_list r)" using that(1) r' set_remove_at_subset [of p "inherited_list r"] by auto
    then show ?thesis using assms(2) that(2) sockets [OF open_fd] by (auto simp: serves_def)
  qed
  moreover have "\<exists>li\<in>set (inherited_list r' @ used_list r'). sock_info_eq (li_sock li) k"
  proof -
    obtain li where li: "li \<in> set (inherited_list r @ used_list r)" "sock_info_eq (li_sock li) k" using assms(2) by (auto simp: serves_def)
    have split: "set (inherited_list r) = insert (inherited_list r ! p) (set (remove_at p (inherited_list r)))"
      by (subst remove_at_split [OF p(2)]) (simp add: remove_at_def)
    show ?thesis
    proof (cases "li = inherited_list r ! p")
      case True
      then have "sock_info_eq k' k" using taken(1) li(2) sock_info_eq_sym sock_info_eq_trans by blast
      then show ?thesis using r' by auto
    next
      case False
      then show ?thesis using li split r' by auto
    qed
  qed
  ultimately show "serves fdt k j (r', w')" using inv' by (simp add: serves_def)
qed

lemma serves_register:
  assumes "posix_fds os fdt" and "serves fdt k j (r, w)" and "add os item (r, w) = (x, (r', w'))" and "\<not> sock_info_eq (li_sock item) k"
  shows "serves fdt k j (r', w')"
proof -
  have inv: "reg_inv (fdt w) r" using assms(2) by (simp add: serves_def)
  then have open_fd: "fdt w (li_fd li) \<noteq> None" if "li \<in> set (inherited_list r @ used_list r)" for li
    using that by (auto simp: reg_inv_def)
  have ok: "\<not> m_poisoned (used_fds r)" using inv by (simp add: reg_inv_def)
  show ?thesis
  proof (cases rule: posix_fds.add_cases [OF assms(1) ok, of w item])
    case (1 n d w2)
    then have r': "r' = set_used (used_list r @ [item\<lparr>li_fd := n\<rparr>]) r" "fdt w' = (fdt w)(n \<mapsto> d\<lparr>cloexec := True\<rparr>)" using assms(3) by auto
    then have "reg_inv (fdt w') r'" using reg_inv_push [OF inv 1(2)] by simp
    moreover have "socket_of (fdt w') (li_fd li) = socket_of (fdt w) (li_fd li)" if "li \<in> set (inherited_list r @ used_list r)" for li
      using open_fd [OF that] 1(2) r'(2) by (auto simp: socket_of_def)
    ultimately show ?thesis using assms(2,4) r'(1) by (auto simp: serves_def)
  next
    case (2 e w2)
    then show ?thesis using assms(2,3) by (auto simp: serves_def)
  qed
qed

lemma serves_ready:
  assumes "posix_fds os fdt" and "serves fdt k j (r, w)" and "close_inherited os (r, w) = (x, (r', w'))"
    and "\<forall>li\<in>set (inherited_list r). \<not> sock_info_eq (li_sock li) k"
  shows "serves fdt k j (r', w')"
proof -
  have inv: "reg_inv (fdt w) r" using assms(2) by (simp add: serves_def)
  then have "\<not> m_poisoned (inherited_fds r)" by (simp add: reg_inv_def)
  then obtain w2 where "close_inherited os (r, w) = (Ret (), (set_inherited [] r, w2))"
    and w2: "fdt w2 = (fdt w) |` (- set (map li_fd (inherited_list r)))" by (rule posix_fds.close_inherited_run [OF assms(1)])
  then have r': "r' = set_inherited [] r" "w' = w2" using assms(3) by auto
  have "li_fd li \<notin> li_fd ` set (inherited_list r)" if "li \<in> set (used_list r)" for li
    using inv that by (fastforce simp: reg_inv_def owned_fds_def)
  then have "socket_of (fdt w') (li_fd li) = socket_of (fdt w) (li_fd li)" if "li \<in> set (used_list r)" for li
    using that w2 r'(2) by (simp add: socket_of_def)
  then show ?thesis
    using posix_fds.close_inherited_inv [OF assms(1) inv assms(3)] assms(2,4) r'(1) by (auto simp: serves_def)
qed

lemma serves_upgrade:
  assumes "posix os fdt" and "bincode_laws codec" and "serves fdt k j (r, w)" and "args \<noteq> []"
    and "\<forall>li\<in>set (used_list r). wire_safe (li_sock li)" and "\<exists>li\<in>set (used_list r). sock_info_eq (li_sock li) k"
    and "handover os fdt codec env args r w cenv cw cw1" and "ecdysis_new os codec cenv cw = (Ret e, cw2)"
  shows "serves fdt k j (ec_registry e, cw2)"
proof -
  have inv: "reg_inv (fdt w) r" using assms(3) by (simp add: serves_def)
  obtain rfd cw2' where new: "ecdysis_new os codec cenv cw = (Ret \<lparr>ec_registry = from_inherited (used_list r),
        ready_notifier = Some rfd, pid_file = None, ec_child = True\<rparr>, cw2')"
    and d: "\<forall>li\<in>set (used_list r). \<exists>d. fdt w (li_fd li) = Some d \<and> fdt cw2' (li_fd li) = Some (d\<lparr>cloexec := False\<rparr>)"
    by (rule handover_child [OF assms(1,2,4) inv assms(5,7)])
  have e: "ec_registry e = from_inherited (used_list r)" "cw2' = cw2" using new assms(8) by auto
  have "distinct (map li_fd (used_list r))" using inv by (simp add: reg_inv_def owned_fds_def)
  then have "reg_inv (fdt cw2) (ec_registry e)" unfolding e(1) using d e(2) by (intro reg_inv_start) fastforce+
  moreover have "inherited_list (ec_registry e) = used_list r" "used_list (ec_registry e) = []"
    by (simp_all add: e(1) from_inherited_def mutex_new_def)
  moreover have "socket_of (fdt cw2) (li_fd li) = socket_of (fdt w) (li_fd li)" if "li \<in> set (used_list r)" for li
    using d that e(2) by (fastforce simp: socket_of_def)
  ultimately show ?thesis using assms(3,6) by (simp add: serves_def)
qed

lemma generation_step_serves:
  assumes "posix os fdt" and "bincode_laws codec" and "generation_step os fdt codec k s s'" and "serves fdt k j s"
  shows "serves fdt k j s'"
  using assms(3,4)
proof (induction rule: generation_step.induct)
  case (adopts k' s fd s')
  then show ?case using serves_adopt(1) [OF posix_parts(1) [OF assms(1)]] by (cases s; cases s') blast
next
  case (registers item s x s')
  then show ?case using serves_register [OF posix_parts(1) [OF assms(1)]] by (cases s; cases s') blast
next
  case (readies r w x s')
  then show ?case using serves_ready [OF posix_parts(1) [OF assms(1)]] by (cases s') blast
next
  case (meanwhile r w' w)
  have "reg_inv (fdt w') r" using reg_inv_frame [of "fdt w" r "fdt w'"] meanwhile by (auto simp: serves_def)
  moreover have "socket_of (fdt w') (li_fd li) = socket_of (fdt w) (li_fd li)" if "li \<in> set (inherited_list r @ used_list r)" for li
    using meanwhile(1) that by (auto simp: socket_of_def owned_fds_def)
  ultimately show ?case using meanwhile(2) by (auto simp: serves_def)
next
  case (upgrades args r env w cenv cw cw1 e cw2)
  then show ?case using serves_upgrade [OF assms(1,2)] by blast
qed

text \<open>
  C3. A listening socket outlives every process. Through any number of upgrades, with anything the processes
  do between them to other sockets, and with anything the rest of their code does that leaves the registry's
  descriptors alone, the registry has the socket under its key, on the very socket of the first process, and a
  child that listens under the key gets a descriptor of that socket.
\<close>

theorem socket_survives_generations:
  assumes "posix os fdt" and "bincode_laws codec" and "(generation_step os fdt codec k)\<^sup>*\<^sup>* s (r, w)" and "serves fdt k j s"
  shows "(\<exists>li\<in>set (inherited_list r @ used_list r). sock_info_eq (li_sock li) k)
    \<and> (\<forall>li\<in>set (inherited_list r @ used_list r). sock_info_eq (li_sock li) k \<longrightarrow> socket_of (fdt w) (li_fd li) = Some j)
    \<and> (\<forall>fd r' w'. inherit os k (r, w) = (Ret (Some fd), (r', w')) \<longrightarrow> socket_of (fdt w') fd = Some j)"
proof -
  have s: "serves fdt k j (r, w)"
    using assms(3,4) by (induction rule: rtranclp_induct) (auto intro: generation_step_serves [OF assms(1,2)])
  then have "socket_of (fdt w') fd = Some j" if "inherit os k (r, w) = (Ret (Some fd), (r', w'))" for fd r' w'
    using serves_adopt(2) [OF posix_parts(1) [OF assms(1)] s that] by simp
  then show ?thesis using s unfolding serves_def by auto
qed

section \<open>A concrete upgrade\<close>

text \<open>The parent of \<open>launch_ex_world\<close>, its registered TCP listener at descriptor 4.\<close>

definition up_ex :: registry where
  "up_ex = \<lparr>inherited_fds = mutex_new [], used_fds = mutex_new [\<lparr>li_fd = 4, li_sock = Tcp (SockV4 0 80)\<rparr>]\<rparr>"

lemma up_ex_used: "used_list up_ex = [\<lparr>li_fd = 4, li_sock = Tcp (SockV4 0 80)\<rparr>]"
  by (simp add: up_ex_def mutex_new_def)

lemma up_ex_inv: "reg_inv (k_fdt (launch_ex_world 16)) up_ex"
  by (auto simp: reg_inv_def up_ex_def mutex_new_def owned_fds_def launch_ex_world_def k_fdt_def)

lemma up_ex_wire: "\<exists>b. serialize bincode_ref (used_list up_ex) = Inr b"
  unfolding up_ex_used by (simp add: bincode_ref_def ref_serialize_def)

definition up_ex_child_room :: "kworld child_proc \<Rightarrow> bool" where
  "up_ex_child_room child = (case cp_start child of
      None \<Rightarrow> False
    | Some (cw0, cenv) \<Rightarrow> k_nofile cw0 = 16 \<and> k_fdt cw0 15 = None)"

lemma up_ex_room:
  "case upgrade_launch kern Map.empty [''srv''] [\<lparr>li_fd = 4, li_sock = Tcp (SockV4 0 80)\<rparr>] (launch_ex_world 16) of
      (Ret (Inr (child, rr, sl)), w') \<Rightarrow> up_ex_child_room child
    | _ \<Rightarrow> False"
  by code_simp

lemma k_close_frame: "k_nofile (snd (k_close fd w)) = k_nofile w" "k_fdt w m = None \<Longrightarrow> k_fdt (snd (k_close fd w)) m = None"
  by (auto simp: k_close_def k_fdt_def map_of_filter_key split: option.splits)

lemma k_recv_frame: "k_nofile (snd (k_recv fd w)) = k_nofile w" "k_fdt (snd (k_recv fd w)) = k_fdt w"
  by (auto simp: k_recv_def split: option.splits)

lemma new_keeps_room:
  assumes "ecdysis_new kern codec env w = (x, w')" and "k_fdt w m = None"
  shows "k_nofile w' = k_nofile w \<and> k_fdt w' m = None"
proof -
  have df: "k_nofile (snd (deserialize_from kern codec fd w)) = k_nofile w \<and> k_fdt (snd (deserialize_from kern codec fd w)) m = None" for fd
    using k_recv_frame [of fd w] k_close_frame [where fd = fd and w = "snd (k_recv fd w)"] assms(2)
    by (auto simp: deserialize_from_def kern_def split: prod.splits sum.splits)
  show ?thesis
  proof (cases "snd (init_child kern codec env w) = w")
    case True
    then show ?thesis using assms by (auto simp: ecdysis_new_def bindP_def split: prod.splits outcome.splits sum.splits inherit_error.splits)
  next
    case False
    then obtain fd where "snd (init_child kern codec env w) = snd (deserialize_from kern codec fd w)"
      by (auto simp: init_child_def tryP_def bindP_def mapErrP_def returnP_def split: sum.splits if_splits prod.splits var_error.splits outcome.splits)
        (metis snd_conv)+
    then show ?thesis using assms(1) df [of fd]
      by (auto simp: ecdysis_new_def bindP_def split: prod.splits outcome.splits sum.splits inherit_error.splits)
  qed
qed

lemma kern_room:
  assumes "k_fdt w fd = Some d" and "fd \<le> m" and "m < k_nofile w" and "k_fdt w m = None" and "m < 65536"
  obtains w1 n w2 where "set_cloexec kern fd w = (Ret (), w1)" and "clone_fd kern fd w1 = (Ret (Inr n), w2)"
proof -
  have r: "0 \<le> fd" "fd < 65536" using k_fdt_SomeD [OF assms(1)] by auto
  let ?w1 = "k_put fd (d\<lparr>cloexec := True\<rparr>) w"
  have s: "set_cloexec kern fd w = (Ret (), ?w1)"
    using assms(1) by (simp add: set_cloexec_def kern_def k_getfd_def k_setfd_def fdflag_from_bits_def)
  have t: "k_fdt ?w1 = (k_fdt w)(fd \<mapsto> d\<lparr>cloexec := True\<rparr>)" using r by (rule k_fdt_put)
  have "k_fdt ?w1 m = None" using t assms(1,4) by auto
  moreover have "m \<in> set [max 0 fd..min (k_nofile ?w1) 65536 - 1]" using r assms(2,3,5) by (auto simp: k_put_def)
  ultimately have "k_free ?w1 fd \<noteq> None" unfolding k_free_def find_None_iff by blast
  then obtain n where "k_free ?w1 fd = Some n" by auto
  then show thesis using that [OF s] t by (simp add: clone_fd_def kern_def k_dup_def)
qed
lemma up_ex_handover:
  obtains cenv cw cw1 where "handover kern k_fdt bincode_ref Map.empty [''srv''] up_ex (launch_ex_world 16) cenv cw cw1"
    and "k_nofile cw = 16" and "k_fdt cw 15 = None"
proof -
  obtain child rr sl w' where
    run: "upgrade_launch kern Map.empty [''srv''] (used_list up_ex) (launch_ex_world 16) = (Ret (Inr (child, rr, sl)), w')"
    using is_okD [OF launch_ex_ok] unfolding up_ex_used by auto
  have room: "up_ex_child_room child" using up_ex_room run unfolding up_ex_used by simp
  have "\<forall>li\<in>set (used_list up_ex). k_fdt (launch_ex_world 16) (li_fd li) \<noteq> None" using up_ex_inv by (auto simp: reg_inv_def)
  then have "launch_ok (k_fdt (launch_ex_world 16)) Map.empty (li_fd ` set (used_list up_ex)) k_fdt child rr sl (k_fdt w')"
    using posix.launch_descriptors [OF kern.posix_axioms _ _ run] by simp
  then obtain cw0 p j where p: "cp_start child = Some (cw0, child_env Map.empty p)" "is_i32 (recv_listeners_fd p)"
    "k_fdt cw0 (recv_listeners_fd p) = Some j"
    by (auto simp: launch_ok_def)
  obtain b where b: "serialize bincode_ref (used_list up_ex) = Inr b" using up_ex_wire by blast
  let ?cw = "cw0\<lparr>k_inbox := [(recv_listeners_fd p, b)]\<rparr>"
  have "pipe_recv kern (recv_listeners_fd p) ?cw = (Inr b, ?cw\<lparr>k_inbox := []\<rparr>)"
    using p(3) by (simp add: kern_def k_recv_def)
  moreover have "pipe_fd_from_env (child_env Map.empty p) ENV_PIPE_FDS = Inr (recv_listeners_fd p)"
    using p(2) child_env_vars(2) by (intro pipe_fd_from_env_show)
  moreover have "k_fdt ?cw = k_fdt cw0" by simp
  ultimately have "handover kern k_fdt bincode_ref Map.empty [''srv''] up_ex (launch_ex_world 16)
      (child_env Map.empty p) ?cw (?cw\<lparr>k_inbox := []\<rparr>)"
    unfolding handover_def using run p(1) b by blast
  then show thesis using that room p(1) by (simp add: up_ex_child_room_def)
qed

theorem upgrade_hands_over_sockets_witness:
  "\<exists>cenv cw e cw2. ecdysis_new kern bincode_ref cenv cw = (Ret e, cw2) \<and> is_child e
    \<and> a_inherited (abs_reg (k_fdt cw2) (ec_registry e)) = [(Tcp (SockV4 0 80), Some 7)]"
proof (rule up_ex_handover)
  fix cenv cw cw1
  assume h: "handover kern k_fdt bincode_ref Map.empty [''srv''] up_ex (launch_ex_world 16) cenv cw cw1"
  have "a_used (abs_reg (k_fdt (launch_ex_world 16)) up_ex) = [(Tcp (SockV4 0 80), Some 7)]"
    by (simp add: abs_reg_def abs_list_def up_ex_used socket_of_def k_fdt_def launch_ex_world_def)
  then show ?thesis
    using upgrade_hands_over_sockets [OF kern.posix_axioms wire_ref.bincode_laws_axioms _ up_ex_inv _ h]
    by (auto simp: up_ex_used)
qed

theorem child_listens_on_parents_socket_witness:
  "\<exists>cenv cw e cw2 e' cw4. ecdysis_new kern bincode_ref cenv cw = (Ret e, cw2)
    \<and> listen_tcp kern (SockV4 0 80) (e, cw2) = (Ret (Inr 4), (e', cw4)) \<and> socket_of (k_fdt cw4) 4 = Some 7"
proof (rule up_ex_handover)
  fix cenv cw cw1
  assume h: "handover kern k_fdt bincode_ref Map.empty [''srv''] up_ex (launch_ex_world 16) cenv cw cw1"
    and room: "k_nofile cw = 16" "k_fdt cw 15 = None"
  have wire: "\<forall>li\<in>set (used_list up_ex). wire_safe (li_sock li)" by (simp add: up_ex_used)
  have args: "[''srv''] \<noteq> []" by simp
  note th = kern.posix_axioms wire_ref.bincode_laws_axioms args up_ex_inv wire h
  obtain rfd cw2 where new: "ecdysis_new kern bincode_ref cenv cw = (Ret \<lparr>ec_registry = from_inherited (used_list up_ex),
        ready_notifier = Some rfd, pid_file = None, ec_child = True\<rparr>, cw2)"
    and d: "\<forall>li\<in>set (used_list up_ex). \<exists>d. k_fdt (launch_ex_world 16) (li_fd li) = Some d
      \<and> k_fdt cw2 (li_fd li) = Some (d\<lparr>cloexec := False\<rparr>)"
    by (rule handover_child [OF th])
  have "k_nofile cw2 = 16 \<and> k_fdt cw2 15 = None" using new_keeps_room [OF new room(2)] room(1) by simp
  moreover obtain d where "k_fdt cw2 4 = Some d" using d by (auto simp: up_ex_used)
  ultimately obtain cw3 n cw4 where "set_cloexec kern 4 cw2 = (Ret (), cw3)" "clone_fd kern 4 cw3 = (Ret (Inr n), cw4)"
    using kern_room [of cw2 4 d 15] by auto
  moreover have "position (\<lambda>li. sock_info_eq (li_sock li) (Tcp (SockV4 0 80))) (used_list up_ex) = Some 0"
    "4 = li_fd (used_list up_ex ! 0)" by (simp_all add: up_ex_used)
  moreover have "socket_of (k_fdt (launch_ex_world 16)) 4 = Some 7"
    by (simp add: socket_of_def k_fdt_def launch_ex_world_def)
  ultimately show ?thesis using child_listens_on_parents_socket [OF th new] new by metis
qed

text \<open>An upgrade on signal 1 whose child is ready at once.\<close>

lemma mon_ex_upgrades:
  "map_option fst (monitor trt kern Map.empty [''srv''] [] [mon_run\<lparr>ur_sched := good_schedule\<rparr>] (mon_ex None [0] False))
    = Some (Ret (Inr (ExitUpgrade, ExitSignal 1)))"
  by code_simp


text \<open>One upgrade of \<open>up_ex\<close>: the child has the socket of the parent.\<close>

theorem socket_survives_generations_witness:
  "\<exists>r w. (generation_step kern k_fdt bincode_ref (Tcp (SockV4 0 80)))\<^sup>*\<^sup>* (up_ex, launch_ex_world 16) (r, w)
    \<and> used_list r = [] \<and> (\<exists>li\<in>set (inherited_list r). socket_of (k_fdt w) (li_fd li) = Some 7)"
proof (rule up_ex_handover)
  fix cenv cw cw1
  assume h: "handover kern k_fdt bincode_ref Map.empty [''srv''] up_ex (launch_ex_world 16) cenv cw cw1"
  have wire: "\<forall>li\<in>set (used_list up_ex). wire_safe (li_sock li)" by (simp add: up_ex_used)
  have key: "\<exists>li\<in>set (used_list up_ex). sock_info_eq (li_sock li) (Tcp (SockV4 0 80))" by (simp add: up_ex_used)
  have args: "[''srv''] \<noteq> []" by simp
  obtain rfd cw2 where new: "ecdysis_new kern bincode_ref cenv cw = (Ret \<lparr>ec_registry = from_inherited (used_list up_ex),
        ready_notifier = Some rfd, pid_file = None, ec_child = True\<rparr>, cw2)"
    by (rule handover_child [OF kern.posix_axioms wire_ref.bincode_laws_axioms args up_ex_inv wire h])
  from generation_step.upgrades [OF args wire key h new]
  have run: "(generation_step kern k_fdt bincode_ref (Tcp (SockV4 0 80)))\<^sup>*\<^sup>* (up_ex, launch_ex_world 16) (from_inherited (used_list up_ex), cw2)"
    by simp
  have start: "serves k_fdt (Tcp (SockV4 0 80)) 7 (up_ex, launch_ex_world 16)"
    using up_ex_inv up_ex_used by (simp add: serves_def) (simp add: up_ex_def mutex_new_def socket_of_def k_fdt_def launch_ex_world_def)
  have "used_list (from_inherited (used_list up_ex)) = []" by (simp add: from_inherited_def mutex_new_def)
  then show ?thesis
    using socket_survives_generations [OF kern.posix_axioms wire_ref.bincode_laws_axioms run start] run by fastforce
qed

end
